(* ===== verification/Prelude.thy ===== *)
theory Prelude
  imports Main "HOL-Library.Monad_Syntax"
begin

text \<open>
  Shared vocabulary of the development: Go errors as values, results, effect traces with
  deferred clean-up, labelled transition systems with the invariant and progress interfaces
  every concurrent component is checked against, and a few list and map lemmas.
\<close>

named_theorems result_simps \<open>unfolding of the result and effect combinators\<close>

section \<open>Errors and results\<close>

text \<open>
  An error value of the program. \<open>ErrNew\<close> is \<open>errors.New\<close> (or \<open>fmt.Errorf\<close> without
  \<open>%w\<close>), \<open>ErrWrap pre e post\<close> is \<open>fmt.Errorf\<close> with \<open>%w\<close>: the text before and after
  the wrapped error. The sentinels are the ones the source compares against; \<open>ErrOpenChannel\<close>
  is \<open>*ssh.OpenChannelError\<close>; \<open>ErrExt\<close> is any other error a library reports; \<open>NilDeref\<close> is
  the run-time panic of a nil pointer dereference.
\<close>

datatype go_error =
    ErrNew string
  | ErrWrap string go_error string
  | ErrNetClosed
  | ErrCanceled
  | ErrDeadline
  | ErrNotExist
  | ErrEOF
  | ErrOpenChannel string
  | ErrAtoiSyntax string
  | ErrAtoiRange string
  | ErrExt string
  | NilDeref

type_synonym 'a result = "go_error + 'a"

text \<open>\<open>fmt.Errorf("pre: %w", e)\<close>.\<close>

abbreviation wrap_err :: "string \<Rightarrow> go_error \<Rightarrow> go_error" where
  "wrap_err pre e \<equiv> ErrWrap (pre @ '': '') e []"

text \<open>\<open>errors.Is\<close>: the target is found along the chain of wrapped errors.\<close>

fun err_is :: "go_error \<Rightarrow> go_error \<Rightarrow> bool" where
  "err_is (ErrWrap pre e post) t = (ErrWrap pre e post = t \<or> err_is e t)"
| "err_is e t = (e = t)"

text \<open>\<open>errors.As(err, *ssh.OpenChannelError)\<close>.\<close>

fun err_as_open_channel :: "go_error \<Rightarrow> bool" where
  "err_as_open_channel (ErrOpenChannel m) = True"
| "err_as_open_channel (ErrWrap pre e post) = err_as_open_channel e"
| "err_as_open_channel e = False"

lemma err_is_refl [simp]: "err_is e e"
  by (cases e) auto

lemma err_is_wrap: "err_is e t \<Longrightarrow> err_is (wrap_err pre e) t"
  by simp

definition is_ok :: "'a result \<Rightarrow> bool" where
  "is_ok r = (case r of Inl e \<Rightarrow> False | Inr x \<Rightarrow> True)"

definition bind_res :: "'a result \<Rightarrow> ('a \<Rightarrow> 'b result) \<Rightarrow> 'b result" where
  "bind_res r f = (case r of Inl e \<Rightarrow> Inl e | Inr x \<Rightarrow> f x)"

lemma is_ok_simps [simp]: "is_ok (Inr x)" "\<not> is_ok (Inl e)"
  by (simp_all add: is_ok_def)

lemma bind_res_simps [simp]:
  "bind_res (Inl e) f = Inl e" "bind_res (Inr x) f = f x"
  by (simp_all add: bind_res_def)

lemma bind_res_Inr: "bind_res r f = Inr y \<longleftrightarrow> (\<exists>x. r = Inr x \<and> f x = Inr y)"
  by (cases r) auto

section \<open>Effect traces\<close>

text \<open>
  Code that performs effects is a trace of events with its result. \<open>and_then\<close> is sequencing
  with the early return on an error; \<open>deferred\<close> runs clean-up events after the body on every
  path, as Go's \<open>defer\<close> does.
\<close>

type_synonym ('e, 'a) eff = "'e list \<times> 'a result"

definition perform :: "'e \<Rightarrow> 'a result \<Rightarrow> ('e, 'a) eff" where
  "perform ev r = ([ev], r)"

definition pure_res :: "'a result \<Rightarrow> ('e, 'a) eff" where
  "pure_res r = ([], r)"

definition and_then :: "('e, 'a) eff \<Rightarrow> ('a \<Rightarrow> ('e, 'b) eff) \<Rightarrow> ('e, 'b) eff" where
  "and_then m f = (case snd m of Inl e \<Rightarrow> (fst m, Inl e)
     | Inr x \<Rightarrow> (fst m @ fst (f x), snd (f x)))"

definition deferred :: "'e list \<Rightarrow> ('e, 'a) eff \<Rightarrow> ('e, 'a) eff" where
  "deferred evs m = (fst m @ evs, snd m)"

text \<open>\<open>fmt.Errorf(pre + ": %w", err)\<close> around a whole action.\<close>

definition wrapping :: "string \<Rightarrow> 'a result \<Rightarrow> 'a result" where
  "wrapping pre r = (case r of Inl e \<Rightarrow> Inl (wrap_err pre e) | Inr x \<Rightarrow> Inr x)"

lemma wrapping_simps [simp]:
  "wrapping pre (Inl e) = Inl (wrap_err pre e)" "wrapping pre (Inr x) = Inr x"
  by (simp_all add: wrapping_def)

lemma is_ok_wrapping [simp]: "is_ok (wrapping pre r) = is_ok r"
  by (cases r) simp_all

lemma perform_sel [result_simps]: "perform ev r = ([ev], r)"
  by (simp add: perform_def)

lemma pure_res_sel [result_simps]: "pure_res r = ([], r)"
  by (simp add: pure_res_def)

lemma and_then_Inl [simp]: "and_then (t, Inl e) f = (t, Inl e)"
  by (simp add: and_then_def)

lemma and_then_Inr [simp]: "and_then (t, Inr x) f = (t @ fst (f x), snd (f x))"
  by (simp add: and_then_def)

lemma deferred_pair [simp]: "deferred evs (t, r) = (t @ evs, r)"
  by (simp add: deferred_def)

lemma snd_deferred [simp]: "snd (deferred evs m) = snd m"
  by (simp add: deferred_def)

lemma fst_deferred [simp]: "fst (deferred evs m) = fst m @ evs"
  by (simp add: deferred_def)

text \<open>Every event of the first list comes before every event of the second, in a trace.\<close>

definition happens_before :: "'e \<Rightarrow> 'e \<Rightarrow> 'e list \<Rightarrow> bool" where
  "happens_before x y t = (\<exists>us vs. t = us @ vs \<and> x \<in> set us \<and> y \<notin> set us \<and> y \<in> set vs)"

section \<open>Labelled transition systems\<close>

text \<open>
  A concurrent component is an initial-state predicate and a labelled step relation; a label
  is one atomic action of one of its goroutines or of the environment.
\<close>

inductive reach :: "('s \<Rightarrow> bool) \<Rightarrow> ('s \<Rightarrow> 'l \<Rightarrow> 's \<Rightarrow> bool) \<Rightarrow> 's \<Rightarrow> bool"
  for init :: "'s \<Rightarrow> bool" and step :: "'s \<Rightarrow> 'l \<Rightarrow> 's \<Rightarrow> bool" where
  reach_init: "init s \<Longrightarrow> reach init step s"
| reach_step: "reach init step s \<Longrightarrow> step s l s' \<Longrightarrow> reach init step s'"

inductive path :: "('s \<Rightarrow> 'l \<Rightarrow> 's \<Rightarrow> bool) \<Rightarrow> 's \<Rightarrow> 'l list \<Rightarrow> 's \<Rightarrow> bool"
  for step :: "'s \<Rightarrow> 'l \<Rightarrow> 's \<Rightarrow> bool" where
  path_nil: "path step s [] s"
| path_cons: "step s l t \<Longrightarrow> path step t ls u \<Longrightarrow> path step s (l # ls) u"

inductive_cases path_nilE [elim!]: "path step s [] t"
inductive_cases path_consE [elim]: "path step s (l # ls) t"

lemma path_reach: "path step s ls t \<Longrightarrow> reach init step s \<Longrightarrow> reach init step t"
  by (induction rule: path.induct) (auto intro: reach_step)

lemma path_append: "path step s ls t \<Longrightarrow> path step t ms u \<Longrightarrow> path step s (ls @ ms) u"
  by (induction rule: path.induct) (auto intro: path.intros)

text \<open>The contract of a component whose safety rests on an inductive invariant.\<close>

locale invariant_system =
  fixes init :: "'s \<Rightarrow> bool"
    and step :: "'s \<Rightarrow> 'l \<Rightarrow> 's \<Rightarrow> bool"
    and inv :: "'s \<Rightarrow> bool"
  assumes inv_init: "init s \<Longrightarrow> inv s"
    and inv_step: "step s l s' \<Longrightarrow> inv s \<Longrightarrow> inv s'"
begin

lemma reach_inv: "reach init step s \<Longrightarrow> inv s"
  by (induction rule: reach.induct) (auto intro: inv_init inv_step)

lemma path_inv: "path step s ls t \<Longrightarrow> inv s \<Longrightarrow> inv t"
  by (induction rule: path.induct) (auto intro: inv_step)

end

text \<open>
  A component that must also finish: under the condition \<open>live\<close> (kept by its own, internal,
  actions) it is never stuck before \<open>final\<close>, and every internal action decreases \<open>rank\<close>. Then
  it reaches \<open>final\<close> by internal actions alone, and no internal run is longer than its rank.
\<close>

locale terminating_system = invariant_system +
  fixes internal :: "'l \<Rightarrow> bool"
    and live :: "'s \<Rightarrow> bool"
    and final :: "'s \<Rightarrow> bool"
    and rank :: "'s \<Rightarrow> nat"
  assumes progress: "inv s \<Longrightarrow> live s \<Longrightarrow> \<not> final s \<Longrightarrow> \<exists>l s'. internal l \<and> step s l s'"
    and decreases: "inv s \<Longrightarrow> internal l \<Longrightarrow> step s l s' \<Longrightarrow> rank s' < rank s"
    and live_step: "inv s \<Longrightarrow> live s \<Longrightarrow> internal l \<Longrightarrow> step s l s' \<Longrightarrow> live s'"
begin

lemma internal_run_bounded:
  "path step s ls t \<Longrightarrow> inv s \<Longrightarrow> (\<forall>l \<in> set ls. internal l) \<Longrightarrow> length ls + rank t \<le> rank s"
proof (induction rule: path.induct)
  case (path_nil s)
  then show ?case by simp
next
  case (path_cons s l t ls u)
  then have "rank t < rank s" and "inv t" by (auto intro: decreases inv_step)
  with path_cons show ?case by simp
qed

lemma live_path: "path step s ls t \<Longrightarrow> inv s \<Longrightarrow> live s \<Longrightarrow> (\<forall>l \<in> set ls. internal l) \<Longrightarrow> live t"
proof (induction rule: path.induct)
  case (path_cons s l t ls u)
  then show ?case using live_step [of s l t] inv_step [of s l t] by simp
qed simp

lemma reaches_final:
  "inv s \<Longrightarrow> live s \<Longrightarrow> \<exists>ls t. path step s ls t \<and> (\<forall>l \<in> set ls. internal l) \<and> final t"
proof (induction "rank s" arbitrary: s rule: less_induct)
  case less
  show ?case
  proof (cases "final s")
    case True
    then show ?thesis by (intro exI [of _ "[]"] exI [of _ s]) (auto intro: path_nil)
  next
    case False
    with less.prems obtain l s' where l: "internal l" "step s l s'" using progress by blast
    with less.prems have "rank s' < rank s" "inv s'" "live s'"
      by (auto intro: decreases inv_step live_step)
    with less.hyps obtain ls t where
      "path step s' ls t" "\<forall>l \<in> set ls. internal l" "final t" by blast
    with l show ?thesis by (intro exI [of _ "l # ls"] exI [of _ t]) (auto intro: path_cons)
  qed
qed

end

text \<open>Executing a list of labels of a partial action function.\<close>

fun exec_labels :: "('l \<Rightarrow> 's \<Rightarrow> 's option) \<Rightarrow> 'l list \<Rightarrow> 's \<Rightarrow> 's option" where
  "exec_labels act [] s = Some s"
| "exec_labels act (l # ls) s = (case act l s of None \<Rightarrow> None | Some t \<Rightarrow> exec_labels act ls t)"

lemma exec_labels_append:
  "exec_labels act (ks @ ls) s = (case exec_labels act ks s of None \<Rightarrow> None | Some t \<Rightarrow> exec_labels act ls t)"
  by (induction ks arbitrary: s) (auto split: option.split)

lemma exec_labels_path:
  "exec_labels act ls s = Some t \<Longrightarrow> path (\<lambda>s l s'. act l s = Some s') s ls t"
  by (induction ls arbitrary: s) (auto split: option.splits intro: path.intros)

lemma exec_labels_reach:
  assumes "exec_labels act ls s = Some t" and "init s"
  shows "reach init (\<lambda>s l s'. act l s = Some s') t"
  using path_reach [OF exec_labels_path [OF assms(1)]] reach_init [of init s] assms(2) by blast

section \<open>Sums over updated functions\<close>

lemma sum_fun_upd:
  fixes f :: "'b \<Rightarrow> nat"
  assumes "finite S" and "c \<in> S"
  shows "(\<Sum>i\<in>S. f ((h(c := x)) i)) + f (h c) = (\<Sum>i\<in>S. f (h i)) + f x"
proof -
  have "(\<Sum>i\<in>S - {c}. f ((h(c := x)) i)) = (\<Sum>i\<in>S - {c}. f (h i))"
    by (rule sum.cong) auto
  then show ?thesis
    using sum.remove [OF assms, of "\<lambda>i. f ((h(c := x)) i)"] sum.remove [OF assms, of "\<lambda>i. f (h i)"]
    by simp
qed

lemma sum_fun_upd_insert:
  fixes f :: "'b \<Rightarrow> nat"
  assumes "finite S" and "c \<notin> S"
  shows "(\<Sum>i\<in>insert c S. f ((h(c := x)) i)) = (\<Sum>i\<in>S. f (h i)) + f x"
proof -
  have "(\<Sum>i\<in>S. f ((h(c := x)) i)) = (\<Sum>i\<in>S. f (h i))"
    using assms(2) by (intro sum.cong) auto
  with assms show ?thesis by simp
qed

section \<open>Lists\<close>

lemma take_drop_append [simp]: "take k xs @ drop k xs @ ys = xs @ ys"
  by (metis append_assoc append_take_drop_id)

lemma find_Some_split:
  "find P xs = Some x \<Longrightarrow> \<exists>us vs. xs = us @ x # vs \<and> P x \<and> (\<forall>u \<in> set us. \<not> P u)"
proof (induction xs)
  case Nil
  then show ?case by simp
next
  case (Cons y ys)
  show ?case
  proof (cases "P y")
    case True
    with Cons.prems have "y # ys = [] @ x # ys" "P x" by auto
    then show ?thesis by (metis empty_iff list.set(1))
  next
    case False
    with Cons obtain us vs where "ys = us @ x # vs" "P x" "\<forall>u \<in> set us. \<not> P u" by auto
    with False have "y # ys = (y # us) @ x # vs" "\<forall>u \<in> set (y # us). \<not> P u" by auto
    with \<open>P x\<close> show ?thesis by blast
  qed
qed

lemma find_None_all: "find P xs = None \<longleftrightarrow> (\<forall>x \<in> set xs. \<not> P x)"
  by (auto simp: find_None_iff)

end
