(* ===== verification/GoStrings.thy ===== *)
theory GoStrings
  imports Prelude "HOL-Library.Sublist"
begin

text \<open>
  The parts of Go's standard library on strings that the program uses: decimal printing and
  parsing of integers (\<open>strconv\<close>), \<open>strings\<close>, \<open>net.JoinHostPort\<close> and \<open>path/filepath\<close>. A Go string
  is a list of bytes, hence \<open>string\<close>; a Go \<open>int\<close> has 64 bits.
\<close>

section \<open>Integers in decimal\<close>

definition digit_char :: "nat \<Rightarrow> char" where
  "digit_char d = char_of (48 + d)"

definition digit_value :: "char \<Rightarrow> nat" where
  "digit_value c = of_char c - (48 :: nat)"

definition is_digit :: "char \<Rightarrow> bool" where
  "is_digit c = (48 \<le> (of_char c :: nat) \<and> (of_char c :: nat) \<le> 57)"

fun show_nat :: "nat \<Rightarrow> string" where
  "show_nat n = (if n < 10 then [digit_char n] else show_nat (n div 10) @ [digit_char (n mod 10)])"

declare show_nat.simps [simp del]

definition read_digits :: "string \<Rightarrow> nat" where
  "read_digits s = foldl (\<lambda>a c. 10 * a + digit_value c) 0 s"

definition itoa :: "int \<Rightarrow> string" where
  "itoa i = (if i < 0 then CHR ''-'' # show_nat (nat (- i)) else show_nat (nat i))"

definition int64_min :: int where "int64_min = - (2 ^ 63)"
definition int64_max :: int where "int64_max = 2 ^ 63 - 1"

definition in_int64 :: "int \<Rightarrow> bool" where
  "in_int64 i = (int64_min \<le> i \<and> i \<le> int64_max)"

text \<open>\<open>strconv.Atoi\<close>: an optional sign, at least one digit, digits only, and a value of 64 bits.\<close>

definition atoi :: "string \<Rightarrow> int result" where
  "atoi s =
     (let neg = (case s of c # cs \<Rightarrow> c = CHR ''-'' | [] \<Rightarrow> False);
          ds = (case s of c # cs \<Rightarrow> if c = CHR ''-'' \<or> c = CHR ''+'' then cs else s | [] \<Rightarrow> []);
          v = (if neg then - int (read_digits ds) else int (read_digits ds))
      in if ds = [] \<or> \<not> list_all is_digit ds then Inl (ErrAtoiSyntax s)
         else if \<not> in_int64 v then Inl (ErrAtoiRange s)
         else Inr v)"

text \<open>Conversion of a Go \<open>int\<close> to \<open>int32\<close>: the low 32 bits, read as two's complement.\<close>

definition to_int32 :: "int \<Rightarrow> int" where
  "to_int32 i = signed_take_bit 31 i"

lemma of_digit_char: "d < 10 \<Longrightarrow> (of_char (digit_char d) :: nat) = 48 + d"
  by (simp add: digit_char_def)

lemma digit_char_simps [simp]:
  "d < 10 \<Longrightarrow> is_digit (digit_char d)" "d < 10 \<Longrightarrow> digit_value (digit_char d) = d"
  by (simp_all add: is_digit_def digit_value_def of_digit_char)

lemma not_digit_sign: "\<not> is_digit (CHR ''-'')" "\<not> is_digit (CHR ''+'')" "\<not> is_digit (CHR ''/'')"
  by (simp_all add: is_digit_def)

lemma show_nat_digits: "list_all is_digit (show_nat n)"
proof (induction n rule: show_nat.induct)
  case (1 n)
  then show ?case by (subst show_nat.simps) auto
qed

lemma show_nat_nonempty [simp]: "show_nat n \<noteq> []"
  by (subst show_nat.simps) auto

lemma read_digits_snoc: "read_digits (s @ [c]) = 10 * read_digits s + digit_value c"
  by (simp add: read_digits_def)

lemma read_show_nat [simp]: "read_digits (show_nat n) = n"
proof (induction n rule: show_nat.induct)
  case (1 n)
  show ?case
  proof (cases "n < 10")
    case True
    then show ?thesis by (subst show_nat.simps) (simp add: read_digits_def)
  next
    case False
    with 1 show ?thesis by (subst show_nat.simps) (simp add: read_digits_snoc)
  qed
qed

lemma show_nat_head: "show_nat n = c # cs \<Longrightarrow> is_digit c"
  using show_nat_digits [of n] by simp

lemma atoi_itoa:
  assumes "in_int64 i"
  shows "atoi (itoa i) = Inr i"
proof (cases "i < 0")
  case True
  with assms show ?thesis by (simp add: atoi_def itoa_def show_nat_digits Let_def)
next
  case False
  obtain c cs where s: "show_nat (nat i) = c # cs" by (cases "show_nat (nat i)") auto
  then have "c \<noteq> CHR ''-''" "c \<noteq> CHR ''+''" using show_nat_head not_digit_sign by metis+
  moreover have "list_all is_digit (c # cs)" "read_digits (c # cs) = nat i"
    using show_nat_digits [of "nat i"] read_show_nat [of "nat i"] by (simp_all add: s)
  ultimately show ?thesis using False assms by (simp add: atoi_def itoa_def s)
qed

lemma itoa_inj: "itoa i = itoa j \<Longrightarrow> in_int64 i \<Longrightarrow> in_int64 j \<Longrightarrow> i = j"
  by (metis atoi_itoa sum.inject(2))

lemma itoa_no_slash: "CHR ''/'' \<notin> set (itoa i)"
  using show_nat_digits not_digit_sign(3) by (auto simp: itoa_def list_all_iff)

lemma to_int32_id: "- (2 ^ 31) \<le> i \<Longrightarrow> i < 2 ^ 31 \<Longrightarrow> to_int32 i = i"
  unfolding to_int32_def by (rule signed_take_bit_int_eq_self) auto

section \<open>Package strings\<close>

definition has_prefix :: "string \<Rightarrow> string \<Rightarrow> bool" where
  "has_prefix p s = (take (length p) s = p)"

fun contains_str :: "string \<Rightarrow> string \<Rightarrow> bool" where
  "contains_str [] sub = (sub = [])"
| "contains_str (c # cs) sub = (has_prefix sub (c # cs) \<or> contains_str cs sub)"

fun join_with :: "string \<Rightarrow> string list \<Rightarrow> string" where
  "join_with sep [] = []"
| "join_with sep [s] = s"
| "join_with sep (s # ss) = s @ sep @ join_with sep ss"

text \<open>\<open>strings.ReplaceAll\<close> with a one-byte old string.\<close>

definition replace_all :: "char \<Rightarrow> string \<Rightarrow> string \<Rightarrow> string" where
  "replace_all old new s = concat (map (\<lambda>c. if c = old then new else [c]) s)"

lemma replace_all_removes: "c \<notin> set new \<Longrightarrow> c \<notin> set (replace_all c new s)"
  by (auto simp: replace_all_def)

text \<open>
  \<open>strings.TrimSpace\<close> removes the runes of \<open>unicode.IsSpace\<close> at both ends; here each such rune is
  its UTF-8 encoding.
\<close>

definition space_runes :: "string list" where
  "space_runes =
     [[CHR 0x09], [CHR 0x0A], [CHR 0x0B], [CHR 0x0C], [CHR 0x0D], [CHR 0x20],
      [CHR 0xC2, CHR 0x85], [CHR 0xC2, CHR 0xA0], [CHR 0xE1, CHR 0x9A, CHR 0x80],
      [CHR 0xE2, CHR 0x80, CHR 0x80], [CHR 0xE2, CHR 0x80, CHR 0x81],
      [CHR 0xE2, CHR 0x80, CHR 0x82], [CHR 0xE2, CHR 0x80, CHR 0x83],
      [CHR 0xE2, CHR 0x80, CHR 0x84], [CHR 0xE2, CHR 0x80, CHR 0x85],
      [CHR 0xE2, CHR 0x80, CHR 0x86], [CHR 0xE2, CHR 0x80, CHR 0x87],
      [CHR 0xE2, CHR 0x80, CHR 0x88], [CHR 0xE2, CHR 0x80, CHR 0x89],
      [CHR 0xE2, CHR 0x80, CHR 0x8A], [CHR 0xE2, CHR 0x80, CHR 0xA8],
      [CHR 0xE2, CHR 0x80, CHR 0xA9], [CHR 0xE2, CHR 0x80, CHR 0xAF],
      [CHR 0xE2, CHR 0x81, CHR 0x9F], [CHR 0xE3, CHR 0x80, CHR 0x80]]"

function trim_left :: "string list \<Rightarrow> string \<Rightarrow> string" where
  "trim_left ps s =
     (case find (\<lambda>p. p \<noteq> [] \<and> has_prefix p s) ps of
        None \<Rightarrow> s
      | Some p \<Rightarrow> trim_left ps (drop (length p) s))"
  by pat_completeness auto
termination
proof (relation "measure (\<lambda>(ps, s). length s)", simp)
  fix ps :: "string list" and s p
  assume "find (\<lambda>p. p \<noteq> [] \<and> has_prefix p s) ps = Some p"
  then have "p \<noteq> []" "has_prefix p s" by (auto dest!: find_Some_split)
  then have "s \<noteq> []" by (auto simp: has_prefix_def)
  with \<open>p \<noteq> []\<close> show "((ps, drop (length p) s), (ps, s)) \<in> measure (\<lambda>(ps, s). length s)"
    by simp
qed

declare trim_left.simps [simp del]

definition trim_space :: "string \<Rightarrow> string" where
  "trim_space s = rev (trim_left (map rev space_runes) (rev (trim_left space_runes s)))"

lemma trim_space_Nil [simp]: "trim_space [] = []"
  by (simp add: trim_space_def trim_left.simps [of _ "[]"] space_runes_def has_prefix_def)

text \<open>
  \<open>strings.EqualFold\<close> against an ASCII string: simple case folding maps, beside the ASCII
  capitals, the long s (U+017F) to \<open>s\<close> and the Kelvin sign (U+212A) to \<open>k\<close>.
\<close>

definition lower_ascii :: "char \<Rightarrow> char" where
  "lower_ascii c = (let n = (of_char c :: nat) in if 65 \<le> n \<and> n \<le> 90 then char_of (n + 32) else c)"

fun fold_to_ascii :: "string \<Rightarrow> string" where
  "fold_to_ascii [] = []"
| "fold_to_ascii (c # d # e # cs) =
     (if c = CHR 0xC5 \<and> d = CHR 0xBF then CHR ''s'' # fold_to_ascii (e # cs)
      else if c = CHR 0xE2 \<and> d = CHR 0x84 \<and> e = CHR 0xAA then CHR ''k'' # fold_to_ascii cs
      else lower_ascii c # fold_to_ascii (d # e # cs))"
| "fold_to_ascii [c, d] =
     (if c = CHR 0xC5 \<and> d = CHR 0xBF then [CHR ''s''] else [lower_ascii c, lower_ascii d])"
| "fold_to_ascii [c] = [lower_ascii c]"

definition equal_fold_ascii :: "string \<Rightarrow> string \<Rightarrow> bool" where
  "equal_fold_ascii s t = (fold_to_ascii s = map lower_ascii t)"

text \<open>
  The verb \<open>%q\<close> (\<open>strconv.Quote\<close>): quotes, backslashes and ASCII control bytes are escaped; bytes
  above 127 are kept, as they are where they encode a printable rune.
\<close>

definition low_hex :: "nat \<Rightarrow> char" where
  "low_hex n = (if n < 10 then char_of (48 + n) else char_of (87 + n))"

definition quote_byte :: "char \<Rightarrow> string" where
  "quote_byte c =
     (let n = (of_char c :: nat) in
      if n = 34 \<or> n = 92 then [CHR 0x5C, c]
      else if n = 7 then [CHR 0x5C, CHR ''a'']
      else if n = 8 then [CHR 0x5C, CHR ''b'']
      else if n = 9 then [CHR 0x5C, CHR ''t'']
      else if n = 10 then [CHR 0x5C, CHR ''n'']
      else if n = 11 then [CHR 0x5C, CHR ''v'']
      else if n = 12 then [CHR 0x5C, CHR ''f'']
      else if n = 13 then [CHR 0x5C, CHR ''r'']
      else if n < 32 \<or> n = 127 then [CHR 0x5C, CHR ''x'', low_hex (n div 16), low_hex (n mod 16)]
      else [c])"

definition quote :: "string \<Rightarrow> string" where
  "quote s = [CHR 0x22] @ concat (map quote_byte s) @ [CHR 0x22]"

section \<open>Error texts\<close>

text \<open>\<open>err.Error()\<close>.\<close>

fun error_text :: "go_error \<Rightarrow> string" where
  "error_text (ErrNew m) = m"
| "error_text (ErrWrap pre e post) = pre @ error_text e @ post"
| "error_text ErrNetClosed = ''use of closed network connection''"
| "error_text ErrCanceled = ''context canceled''"
| "error_text ErrDeadline = ''context deadline exceeded''"
| "error_text ErrNotExist = ''file does not exist''"
| "error_text ErrEOF = ''EOF''"
| "error_text (ErrOpenChannel m) = ''ssh: rejected: '' @ m"
| "error_text (ErrAtoiSyntax s) = ''strconv.Atoi: parsing '' @ quote s @ '': invalid syntax''"
| "error_text (ErrAtoiRange s) = ''strconv.Atoi: parsing '' @ quote s @ '': value out of range''"
| "error_text (ErrExt m) = m"
| "error_text NilDeref = ''runtime error: invalid memory address or nil pointer dereference''"

section \<open>Host and port, file paths\<close>

text \<open>\<open>net.JoinHostPort\<close> brackets a host that has a colon.\<close>

definition join_host_port :: "string \<Rightarrow> string \<Rightarrow> string" where
  "join_host_port host port =
     (if CHR '':'' \<in> set host then ''['' @ host @ '']:'' @ port else host @ '':'' @ port)"

fun split_on :: "char \<Rightarrow> string \<Rightarrow> string list" where
  "split_on d [] = [[]]"
| "split_on d (c # cs) =
     (if c = d then [] # split_on d cs
      else case split_on d cs of [] \<Rightarrow> [[c]] | w # ws \<Rightarrow> (c # w) # ws)"

text \<open>
  \<open>filepath.Clean\<close> on Unix, by path components: \<open>.\<close> and empty components are dropped, \<open>..\<close>
  removes the component before it, and disappears at the root of a rooted path. The
  accumulator holds the components kept so far, last one first.
\<close>

fun clean_components :: "bool \<Rightarrow> string list \<Rightarrow> string list \<Rightarrow> string list" where
  "clean_components rooted acc [] = rev acc"
| "clean_components rooted acc (w # ws) =
     (if w = [] \<or> w = ''.'' then clean_components rooted acc ws
      else if w = ''..'' then
        (case acc of
           [] \<Rightarrow> clean_components rooted (if rooted then [] else [w]) ws
         | a # as \<Rightarrow> if a = ''..'' then clean_components rooted (w # acc) ws
                    else clean_components rooted as ws)
      else clean_components rooted (w # acc) ws)"

definition path_rooted :: "string \<Rightarrow> bool" where
  "path_rooted p = has_prefix ''/'' p"

definition path_components :: "string \<Rightarrow> string list" where
  "path_components p = clean_components (path_rooted p) [] (split_on (CHR ''/'') p)"

definition path_of :: "bool \<Rightarrow> string list \<Rightarrow> string" where
  "path_of rooted ws =
     (let body = join_with ''/'' ws
      in if rooted then CHR ''/'' # body else if body = [] then ''.'' else body)"

definition path_clean :: "string \<Rightarrow> string" where
  "path_clean p = path_of (path_rooted p) (path_components p)"

text \<open>\<open>filepath.Join(dir, name)\<close>: empty elements at the front are ignored, the rest is cleaned.\<close>

definition path_join :: "string \<Rightarrow> string \<Rightarrow> string" where
  "path_join dir name =
     (if dir \<noteq> [] then path_clean (dir @ ''/'' @ name)
      else if name \<noteq> [] then path_clean name else [])"

lemma split_on_nonempty [simp]: "split_on d s \<noteq> []"
  by (induction s) (auto split: list.splits)

lemma split_on_word: "d \<notin> set w \<Longrightarrow> split_on d w = [w]"
  by (induction w) auto

lemma split_on_append: "split_on d (s @ d # t) = split_on d s @ split_on d t"
proof (induction s)
  case Nil
  then show ?case by simp
next
  case (Cons c s)
  then show ?case by (cases "split_on d s") auto
qed

lemma clean_components_snoc_word:
  assumes "w \<noteq> []" "w \<noteq> ''.''" "w \<noteq> ''..''"
  shows "clean_components rooted acc (ws @ [w]) = clean_components rooted acc ws @ [w]"
  using assms
  by (induction rooted acc ws rule: clean_components.induct) (auto split: list.splits)

text \<open>
  A plain file name (no separator, not empty, not a dot entry) joined to a directory stays
  directly inside it.
\<close>

definition plain_name :: "string \<Rightarrow> bool" where
  "plain_name w = (CHR ''/'' \<notin> set w \<and> w \<noteq> [] \<and> w \<noteq> ''.'' \<and> w \<noteq> ''..'')"

lemma path_join_plain:
  assumes "plain_name w" and "dir \<noteq> []"
  shows "path_join dir w = path_of (path_rooted dir) (path_components dir @ [w])"
proof -
  have r: "path_rooted (dir @ ''/'' @ w) = path_rooted dir"
    using assms(2) by (cases dir) (auto simp: path_rooted_def has_prefix_def)
  have "split_on (CHR ''/'') (dir @ ''/'' @ w) = split_on (CHR ''/'') dir @ [w]"
    using assms(1) by (simp add: split_on_append split_on_word plain_name_def)
  then have "path_components (dir @ ''/'' @ w) = path_components dir @ [w]"
    using assms(1) r by (simp add: path_components_def clean_components_snoc_word plain_name_def)
  with r assms show ?thesis by (simp add: path_join_def path_clean_def)
qed

end
