(* ===== verification/ConnServer.thy ===== *)
theory ConnServer
  imports Prelude
begin

text \<open>
  The local connection server of \<open>internal/libs/server.go\<close>: the accept loop, the connection
  handlers, \<open>Close\<close> and the cancellation hook, as a system of atomic actions. Every action is
  one step of one goroutine between two points where another goroutine may run: a critical
  section of \<open>mu\<close> is one action, except the one of \<open>Close\<close>, which holds the lock while it closes
  the connections one by one.
\<close>

section \<open>State\<close>

text \<open>
  Program points. \<open>Serve\<close>: in \<open>Accept\<close>; holding a connection it has not registered; about to
  close a connection it refused; about to run its deferred \<open>stop()\<close>; in its deferred
  \<open>wg.Wait()\<close>; returned. A handler goroutine (\<open>run\<close>): not started; in \<open>handle\<close>; before
  \<open>conn.Close()\<close>; before \<open>forget\<close>; before \<open>wg.Done()\<close>; finished. A call of \<open>Close\<close>: not made;
  before \<open>mu.Lock()\<close>; in the loop over the connections still to close; finished.
\<close>

datatype serve_pc =
    SAccepting
  | SAccepted nat
  | SRejecting nat
  | SStopping "unit result"
  | SDraining "unit result"
  | SReturned "unit result"

datatype handler_pc = HAbsent | HRunning | HReturned | HClosed | HForgot | HDone

text \<open>A handler goroutine only moves on: the order of its points.\<close>

fun handler_age :: "handler_pc \<Rightarrow> nat" where
  "handler_age HAbsent = 0"
| "handler_age HRunning = 1"
| "handler_age HReturned = 2"
| "handler_age HClosed = 3"
| "handler_age HForgot = 4"
| "handler_age HDone = 5"

lemma handler_age_inj: "handler_age h = handler_age k \<Longrightarrow> h = k"
  by (cases h; cases k) simp_all

instantiation handler_pc :: linorder
begin

definition less_eq_handler_pc :: "handler_pc \<Rightarrow> handler_pc \<Rightarrow> bool" where
  "less_eq_handler_pc h k = (handler_age h \<le> handler_age k)"

definition less_handler_pc :: "handler_pc \<Rightarrow> handler_pc \<Rightarrow> bool" where
  "less_handler_pc h k = (handler_age h < handler_age k)"

instance
  by standard (auto simp: less_eq_handler_pc_def less_handler_pc_def intro: handler_age_inj)

end

datatype close_pc = CIdle | CWant | CHold "nat set" | CDone

datatype closer = ByCancel | ByCaller

datatype after_func = Armed | Fired | Stopped

record conn_server =
  srv_closed :: bool
  srv_conns :: "nat set"
  srv_wg :: nat
  srv_mu :: "closer option"
  lst_open :: bool
  sock_open :: "nat set"
  serve_at :: serve_pc
  handler_at :: "nat \<Rightarrow> handler_pc"
  closer_at :: "closer \<Rightarrow> close_pc"
  after_at :: after_func
  ctx_done :: bool

text \<open>
  \<open>NewConnServer\<close> on an open listener, with \<open>Serve\<close> entered and its hook on the context
  installed.
\<close>

definition new_conn_server :: conn_server where
  "new_conn_server =
     \<lparr>srv_closed = False, srv_conns = {}, srv_wg = 0, srv_mu = None, lst_open = True,
      sock_open = {}, serve_at = SAccepting, handler_at = (\<lambda>_. HAbsent),
      closer_at = (\<lambda>_. CIdle), after_at = Armed, ctx_done = False\<rparr>"

section \<open>Actions\<close>

text \<open>\<open>Accept\<close> returns a new connection.\<close>

definition accept_conn :: "nat \<Rightarrow> conn_server \<Rightarrow> conn_server option" where
  "accept_conn c s =
     (if serve_at s = SAccepting \<and> lst_open s \<and> handler_at s c = HAbsent
      then Some (s\<lparr>serve_at := SAccepted c, sock_open := insert c (sock_open s)\<rparr>)
      else None)"

text \<open>
  \<open>Accept\<close> fails. A closed listener makes it fail with \<open>net.ErrClosed\<close>; an open one may fail
  with any other error.
\<close>

definition serve_error :: "conn_server \<Rightarrow> go_error \<Rightarrow> unit result" where
  "serve_error s e =
     (if ctx_done s \<or> err_is e ErrNetClosed then Inr ()
      else Inl (wrap_err ''accept local connection'' e))"

definition accept_closed :: "conn_server \<Rightarrow> conn_server option" where
  "accept_closed s =
     (if serve_at s = SAccepting \<and> \<not> lst_open s
      then Some (s\<lparr>serve_at := SStopping (serve_error s ErrNetClosed)\<rparr>)
      else None)"

definition accept_fail :: "go_error \<Rightarrow> conn_server \<Rightarrow> conn_server option" where
  "accept_fail e s =
     (if serve_at s = SAccepting \<and> lst_open s \<and> \<not> err_is e ErrNetClosed
      then Some (s\<lparr>serve_at := SStopping (serve_error s e)\<rparr>)
      else None)"

text \<open>The critical section after \<open>Accept\<close>, and \<open>go s.run(ctx, conn)\<close>.\<close>

definition serve_register :: "conn_server \<Rightarrow> conn_server option" where
  "serve_register s =
     (case serve_at s of
        SAccepted c \<Rightarrow>
          (if srv_mu s \<noteq> None then None
           else if srv_closed s then Some (s\<lparr>serve_at := SRejecting c\<rparr>)
           else Some (s\<lparr>srv_conns := insert c (srv_conns s), srv_wg := Suc (srv_wg s),
                        handler_at := (handler_at s)(c := HRunning), serve_at := SAccepting\<rparr>))
      | _ \<Rightarrow> None)"

definition serve_reject :: "conn_server \<Rightarrow> conn_server option" where
  "serve_reject s =
     (case serve_at s of
        SRejecting c \<Rightarrow> Some (s\<lparr>sock_open := sock_open s - {c}, serve_at := SStopping (Inr ())\<rparr>)
      | _ \<Rightarrow> None)"

text \<open>The deferred calls of \<open>Serve\<close>, last one first: \<open>stop()\<close>, then \<open>s.wg.Wait()\<close>.\<close>

definition serve_stop :: "conn_server \<Rightarrow> conn_server option" where
  "serve_stop s =
     (case serve_at s of
        SStopping r \<Rightarrow>
          Some (s\<lparr>after_at := (if after_at s = Armed then Stopped else after_at s),
                 serve_at := SDraining r\<rparr>)
      | _ \<Rightarrow> None)"

definition serve_return :: "conn_server \<Rightarrow> conn_server option" where
  "serve_return s =
     (case serve_at s of
        SDraining r \<Rightarrow> (if srv_wg s = 0 then Some (s\<lparr>serve_at := SReturned r\<rparr>) else None)
      | _ \<Rightarrow> None)"

text \<open>
  The context is cancelled; the hook, unless stopped, then starts \<open>s.Close\<close> in a goroutine of
  its own. The caller of \<open>Serve\<close> calls \<open>Close\<close> itself, at any time.
\<close>

definition ctx_cancel :: "conn_server \<Rightarrow> conn_server option" where
  "ctx_cancel s = (if ctx_done s then None else Some (s\<lparr>ctx_done := True\<rparr>))"

definition after_fire :: "conn_server \<Rightarrow> conn_server option" where
  "after_fire s =
     (if ctx_done s \<and> after_at s = Armed
      then Some (s\<lparr>after_at := Fired, closer_at := (closer_at s)(ByCancel := CWant)\<rparr>)
      else None)"

definition caller_close :: "conn_server \<Rightarrow> conn_server option" where
  "caller_close s =
     (if closer_at s ByCaller = CIdle
      then Some (s\<lparr>closer_at := (closer_at s)(ByCaller := CWant)\<rparr>)
      else None)"

text \<open>\<open>Close\<close>: lock and test, mark closed and close the listener; then one connection at a time.\<close>

definition close_enter :: "closer \<Rightarrow> conn_server \<Rightarrow> conn_server option" where
  "close_enter k s =
     (if closer_at s k \<noteq> CWant \<or> srv_mu s \<noteq> None then None
      else if srv_closed s then Some (s\<lparr>closer_at := (closer_at s)(k := CDone)\<rparr>)
      else Some (s\<lparr>srv_mu := Some k, srv_closed := True, lst_open := False,
                   closer_at := (closer_at s)(k := CHold (srv_conns s))\<rparr>))"

definition close_one :: "closer \<Rightarrow> nat \<Rightarrow> conn_server \<Rightarrow> conn_server option" where
  "close_one k c s =
     (case closer_at s k of
        CHold R \<Rightarrow>
          (if c \<in> R
           then Some (s\<lparr>sock_open := sock_open s - {c}, closer_at := (closer_at s)(k := CHold (R - {c}))\<rparr>)
           else None)
      | _ \<Rightarrow> None)"

definition close_leave :: "closer \<Rightarrow> conn_server \<Rightarrow> conn_server option" where
  "close_leave k s =
     (case closer_at s k of
        CHold R \<Rightarrow>
          (if R = {} then Some (s\<lparr>srv_mu := None, closer_at := (closer_at s)(k := CDone)\<rparr>) else None)
      | _ \<Rightarrow> None)"

text \<open>
  A handler goroutine. \<open>handle\<close>, which belongs to the tunnel, may return at any time or never. Then
  \<open>run\<close> executes its deferred function: close, forget (in a critical section), \<open>wg.Done()\<close>.
\<close>

definition handler_return :: "nat \<Rightarrow> conn_server \<Rightarrow> conn_server option" where
  "handler_return c s =
     (if handler_at s c = HRunning then Some (s\<lparr>handler_at := (handler_at s)(c := HReturned)\<rparr>)
      else None)"

definition run_close :: "nat \<Rightarrow> conn_server \<Rightarrow> conn_server option" where
  "run_close c s =
     (if handler_at s c = HReturned
      then Some (s\<lparr>sock_open := sock_open s - {c}, handler_at := (handler_at s)(c := HClosed)\<rparr>)
      else None)"

definition run_forget :: "nat \<Rightarrow> conn_server \<Rightarrow> conn_server option" where
  "run_forget c s =
     (if handler_at s c = HClosed \<and> srv_mu s = None
      then Some (s\<lparr>srv_conns := srv_conns s - {c}, handler_at := (handler_at s)(c := HForgot)\<rparr>)
      else None)"

definition run_done :: "nat \<Rightarrow> conn_server \<Rightarrow> conn_server option" where
  "run_done c s =
     (if handler_at s c = HForgot
      then Some (s\<lparr>srv_wg := srv_wg s - 1, handler_at := (handler_at s)(c := HDone)\<rparr>)
      else None)"

datatype conn_label =
    LAccept nat | LAcceptClosed | LAcceptFail go_error | LRegister | LReject | LStop | LReturn
  | LCancel | LFire | LCallerClose | LCloseEnter closer | LCloseOne closer nat | LCloseLeave closer
  | LHandlerReturn nat | LRunClose nat | LRunForget nat | LRunDone nat

fun conn_action :: "conn_label \<Rightarrow> conn_server \<Rightarrow> conn_server option" where
  "conn_action (LAccept c) s = accept_conn c s"
| "conn_action LAcceptClosed s = accept_closed s"
| "conn_action (LAcceptFail e) s = accept_fail e s"
| "conn_action LRegister s = serve_register s"
| "conn_action LReject s = serve_reject s"
| "conn_action LStop s = serve_stop s"
| "conn_action LReturn s = serve_return s"
| "conn_action LCancel s = ctx_cancel s"
| "conn_action LFire s = after_fire s"
| "conn_action LCallerClose s = caller_close s"
| "conn_action (LCloseEnter k) s = close_enter k s"
| "conn_action (LCloseOne k c) s = close_one k c s"
| "conn_action (LCloseLeave k) s = close_leave k s"
| "conn_action (LHandlerReturn c) s = handler_return c s"
| "conn_action (LRunClose c) s = run_close c s"
| "conn_action (LRunForget c) s = run_forget c s"
| "conn_action (LRunDone c) s = run_done c s"

definition conn_step :: "conn_server \<Rightarrow> conn_label \<Rightarrow> conn_server \<Rightarrow> bool" where
  "conn_step s l s' = (conn_action l s = Some s')"

definition conn_init :: "conn_server \<Rightarrow> bool" where
  "conn_init s = (s = new_conn_server)"

lemmas conn_action_defs =
  accept_conn_def accept_closed_def accept_fail_def serve_register_def serve_reject_def
  serve_stop_def serve_return_def ctx_cancel_def after_fire_def caller_close_def close_enter_def
  close_one_def close_leave_def handler_return_def run_close_def
  run_forget_def run_done_def

end
