(* ===== verification/ConnServerInv.thy ===== *)
theory ConnServerInv
  imports ConnServer
begin

text \<open>
  The invariant of the connection server and its consequences: what \<open>Close\<close> and the return of
  \<open>Serve\<close> promise, and termination after a cancellation. Every action preserves the invariant;
  \<open>conns\<close> and \<open>conns_live\<close> interpret the interfaces of \<open>Prelude\<close> on the model.
\<close>

section \<open>Invariant\<close>

definition seen :: "conn_server \<Rightarrow> nat set" where
  "seen s = {c. handler_at s c \<noteq> HAbsent}"

definition pending_conn :: "conn_server \<Rightarrow> nat set" where
  "pending_conn s = (case serve_at s of SAccepted c \<Rightarrow> {c} | SRejecting c \<Rightarrow> {c} | _ \<Rightarrow> {})"

fun alive :: "handler_pc \<Rightarrow> nat" where
  "alive HAbsent = 0"
| "alive HDone = 0"
| "alive _ = 1"

fun registered :: "handler_pc \<Rightarrow> bool" where
  "registered HRunning = True"
| "registered HReturned = True"
| "registered HClosed = True"
| "registered _ = False"

definition count_inv :: "conn_server \<Rightarrow> bool" where
  "count_inv s =
     (finite (seen s) \<and> srv_wg s = (\<Sum>c\<in>seen s. alive (handler_at s c)) \<and>
      srv_conns s = {c. registered (handler_at s c)} \<and>
      (\<forall>c \<in> pending_conn s. handler_at s c = HAbsent) \<and>
      (\<forall>r. serve_at s = SReturned r \<longrightarrow> srv_wg s = 0))"

text \<open>What a call of \<open>Close\<close> at its current point says of the server.\<close>

fun closer_ok :: "closer option \<Rightarrow> bool \<Rightarrow> closer \<Rightarrow> close_pc \<Rightarrow> bool" where
  "closer_ok mu cl k (CHold R) = (mu = Some k \<and> cl \<and> finite R)"
| "closer_ok mu cl k CDone = (mu = None \<and> cl)"
| "closer_ok mu cl k CWant = (mu \<noteq> Some k)"
| "closer_ok mu cl k CIdle = (mu \<noteq> Some k)"

fun serve_ok :: "bool \<Rightarrow> after_func \<Rightarrow> serve_pc \<Rightarrow> bool" where
  "serve_ok cl af (SRejecting c) = cl"
| "serve_ok cl af (SDraining r) = (af \<noteq> Armed)"
| "serve_ok cl af (SReturned r) = (af \<noteq> Armed)"
| "serve_ok cl af p = True"

definition lock_inv :: "conn_server \<Rightarrow> bool" where
  "lock_inv s =
     ((\<forall>k. closer_ok (srv_mu s) (srv_closed s) k (closer_at s k)) \<and>
      lst_open s = (\<not> srv_closed s) \<and>
      serve_ok (srv_closed s) (after_at s) (serve_at s) \<and>
      (closer_at s ByCancel = CIdle \<longleftrightarrow> after_at s \<noteq> Fired))"

lemma lock_invD:
  assumes "lock_inv s"
  shows "closer_ok (srv_mu s) (srv_closed s) k (closer_at s k)"
    and "lst_open s = (\<not> srv_closed s)"
    and "serve_ok (srv_closed s) (after_at s) (serve_at s)"
    and "closer_at s ByCancel = CIdle \<longleftrightarrow> after_at s \<noteq> Fired"
  using assms by (simp_all add: lock_inv_def)

text \<open>The connections \<open>Close\<close> has still to close, while it holds the lock.\<close>

definition to_close :: "conn_server \<Rightarrow> nat set" where
  "to_close s =
     (case srv_mu s of
        None \<Rightarrow> {}
      | Some k \<Rightarrow> (case closer_at s k of CHold R \<Rightarrow> R | _ \<Rightarrow> {}))"

fun owns_sock :: "handler_pc \<Rightarrow> bool" where
  "owns_sock HRunning = True"
| "owns_sock HReturned = True"
| "owns_sock _ = False"

definition sock_inv :: "conn_server \<Rightarrow> bool" where
  "sock_inv s =
     (sock_open s \<subseteq> {c. owns_sock (handler_at s c)} \<union> pending_conn s \<and>
      (srv_closed s \<longrightarrow> srv_conns s \<inter> sock_open s \<subseteq> to_close s))"

definition conn_inv :: "conn_server \<Rightarrow> bool" where
  "conn_inv s = (count_inv s \<and> lock_inv s \<and> sock_inv s)"

lemma conn_inv_init: "conn_init s \<Longrightarrow> conn_inv s"
  by (auto simp: conn_init_def new_conn_server_def conn_inv_def count_inv_def lock_inv_def
      sock_inv_def seen_def pending_conn_def)

lemma registered_alive: "registered h \<Longrightarrow> alive h = 1"
  by (cases h) auto

lemma seen_upd: "x \<noteq> HAbsent \<Longrightarrow> seen (s\<lparr>handler_at := (handler_at s)(c := x)\<rparr>) = insert c (seen s)"
  by (auto simp: seen_def)

subsection \<open>Counting\<close>

text \<open>A handler that moves from one live point to the next, or to its end.\<close>

lemma sum_handler_move:
  fixes f :: "handler_pc \<Rightarrow> nat"
  assumes "finite (seen s)" and "handler_at s c \<noteq> HAbsent" and "x \<noteq> HAbsent"
  shows "(\<Sum>d \<in> {d. ((handler_at s)(c := x)) d \<noteq> HAbsent}. f (((handler_at s)(c := x)) d))
           + f (handler_at s c)
         = (\<Sum>d \<in> seen s. f (handler_at s d)) + f x"
proof -
  have "{d. ((handler_at s)(c := x)) d \<noteq> HAbsent} = seen s"
    using assms by (auto simp: seen_def)
  moreover have "c \<in> seen s" using assms(2) by (simp add: seen_def)
  ultimately show ?thesis using sum_fun_upd [OF assms(1), of c f "handler_at s" x] by simp
qed

lemma sum_handler_start:
  fixes f :: "handler_pc \<Rightarrow> nat"
  assumes "finite (seen s)" and "handler_at s c = HAbsent"
  shows "(\<Sum>d \<in> {d. ((handler_at s)(c := HRunning)) d \<noteq> HAbsent}. f (((handler_at s)(c := HRunning)) d))
         = (\<Sum>d \<in> seen s. f (handler_at s d)) + f HRunning"
proof -
  have "{d. ((handler_at s)(c := HRunning)) d \<noteq> HAbsent} = insert c (seen s)"
    by (auto simp: seen_def)
  moreover have "c \<notin> seen s" using assms(2) by (simp add: seen_def)
  ultimately show ?thesis
    using sum_fun_upd_insert [OF assms(1), of c f "handler_at s" HRunning] by simp
qed

lemma alive_le_wg:
  assumes "count_inv s" shows "alive (handler_at s c) \<le> srv_wg s"
proof (cases "c \<in> seen s")
  case True
  with assms show ?thesis
    by (auto simp: count_inv_def intro: member_le_sum)
next
  case False
  then show ?thesis by (simp add: seen_def)
qed

lemma finite_seen_upd:
  "finite (seen s) \<Longrightarrow> finite {d. ((handler_at s)(c := x)) d \<noteq> HAbsent}"
  by (rule finite_subset [of _ "insert c (seen s)"]) (auto simp: seen_def)

text \<open>An action that changes neither the handlers nor the count keeps the counting invariant.\<close>

lemma count_inv_frame:
  assumes "count_inv s" "handler_at s' = handler_at s" "srv_wg s' = srv_wg s"
    "srv_conns s' = srv_conns s" "\<forall>c \<in> pending_conn s'. handler_at s c = HAbsent"
    "\<forall>r. serve_at s' = SReturned r \<longrightarrow> srv_wg s = 0"
  shows "count_inv s'"
  using assms by (simp add: count_inv_def seen_def)

lemma count_inv_quiet:
  assumes "count_inv s" "handler_at s' = handler_at s" "srv_wg s' = srv_wg s"
    "srv_conns s' = srv_conns s" "\<And>c. c \<in> pending_conn s' \<Longrightarrow> c \<notin> pending_conn s \<Longrightarrow> handler_at s c = HAbsent"
    "\<And>r. serve_at s' = SReturned r \<Longrightarrow> serve_at s = serve_at s'"
  shows "count_inv s'"
proof (rule count_inv_frame [OF assms(1-4)])
  show "\<forall>c \<in> pending_conn s'. handler_at s c = HAbsent"
    using assms(1,5) by (auto simp: count_inv_def)
  show "\<forall>r. serve_at s' = SReturned r \<longrightarrow> srv_wg s = 0"
    using assms(1,6) by (auto simp: count_inv_def)
qed

lemma count_inv_handler:
  assumes inv: "count_inv s" and h: "handler_at s c \<noteq> HAbsent" and x: "x \<noteq> HAbsent"
    and s': "handler_at s' = (handler_at s)(c := x)" "serve_at s' = serve_at s"
    and wg: "srv_wg s' + alive (handler_at s c) = srv_wg s + alive x"
    and le: "srv_wg s' \<le> srv_wg s"
    and cs: "srv_conns s' = (if registered x then insert c (srv_conns s) else srv_conns s - {c})"
  shows "count_inv s'"
proof -
  have fin: "finite (seen s)" using inv by (simp add: count_inv_def)
  have "finite (seen s')" using finite_seen_upd [OF fin, of c x] s'(1) by (simp add: seen_def)
  moreover have "srv_wg s' = (\<Sum>d\<in>seen s'. alive (handler_at s' d))"
    using sum_handler_move [OF fin h x, of alive] wg inv s'(1) by (simp add: seen_def count_inv_def)
  moreover have "srv_conns s' = {c. registered (handler_at s' c)}"
    using inv cs s'(1) by (auto simp: count_inv_def)
  moreover have "\<forall>d \<in> pending_conn s'. handler_at s' d = HAbsent"
    using inv h s' by (auto simp: count_inv_def pending_conn_def split: serve_pc.splits)
  moreover have "\<forall>r. serve_at s' = SReturned r \<longrightarrow> srv_wg s' = 0"
    using inv s'(2) le by (auto simp: count_inv_def)
  ultimately show ?thesis by (simp add: count_inv_def)
qed

lemma count_inv_register:
  assumes "count_inv s" "serve_at s = SAccepted c"
  shows "count_inv (s\<lparr>srv_conns := insert c (srv_conns s), srv_wg := Suc (srv_wg s),
     handler_at := (handler_at s)(c := HRunning), serve_at := SAccepting\<rparr>)" (is "count_inv ?t")
proof -
  have h: "handler_at s c = HAbsent" and fin: "finite (seen s)"
    using assms by (auto simp: count_inv_def pending_conn_def)
  have "srv_wg ?t = (\<Sum>d\<in>seen ?t. alive (handler_at ?t d))"
    using sum_handler_start [OF fin h, of alive] assms(1) by (simp add: seen_def count_inv_def)
  moreover have "finite (seen ?t)"
    using finite_seen_upd [OF fin, of c HRunning] by (simp add: seen_def)
  moreover have "srv_conns ?t = {c. registered (handler_at ?t c)}"
    using assms(1) by (auto simp: count_inv_def)
  ultimately show ?thesis by (simp add: count_inv_def pending_conn_def)
qed

lemma registered_absorb:
  "count_inv s \<Longrightarrow> registered (handler_at s c) \<Longrightarrow> insert c (srv_conns s) = srv_conns s"
  by (auto simp: count_inv_def)

lemma unregistered_absorb:
  "count_inv s \<Longrightarrow> \<not> registered (handler_at s c) \<Longrightarrow> srv_conns s - {c} = srv_conns s"
  by (auto simp: count_inv_def)

lemma count_inv_handler_step:
  assumes "conn_action l s = Some s'" and "count_inv s"
    and l: "l \<in> {LHandlerReturn c, LRunClose c, LRunForget c, LRunDone c}"
  shows "count_inv s'"
proof -
  consider "l = LHandlerReturn c" | "l = LRunClose c" | "l = LRunForget c" | "l = LRunDone c"
    using l by blast
  then show ?thesis
  proof cases
    case 1
    then have "handler_at s c = HRunning" "s' = s\<lparr>handler_at := (handler_at s)(c := HReturned)\<rparr>"
      using assms(1) by (auto simp: handler_return_def split: if_splits)
    with count_inv_handler [OF assms(2), of c HReturned s'] registered_absorb [OF assms(2), of c]
    show ?thesis by simp
  next
    case 2
    then have "handler_at s c = HReturned"
      and "s' = s\<lparr>sock_open := sock_open s - {c}, handler_at := (handler_at s)(c := HClosed)\<rparr>"
      using assms(1) by (auto simp: run_close_def split: if_splits)
    with count_inv_handler [OF assms(2), of c HClosed s'] registered_absorb [OF assms(2), of c]
    show ?thesis by simp
  next
    case 3
    then have "handler_at s c = HClosed"
      and "s' = s\<lparr>srv_conns := srv_conns s - {c}, handler_at := (handler_at s)(c := HForgot)\<rparr>"
      using assms(1) by (auto simp: run_forget_def split: if_splits)
    with count_inv_handler [OF assms(2), of c HForgot s'] show ?thesis by simp
  next
    case 4
    then have h: "handler_at s c = HForgot"
      and s': "s' = s\<lparr>srv_wg := srv_wg s - 1, handler_at := (handler_at s)(c := HDone)\<rparr>"
      using assms(1) by (auto simp: run_done_def split: if_splits)
    have "1 \<le> srv_wg s" using alive_le_wg [OF assms(2), of c] h by simp
    then show ?thesis
      using count_inv_handler [OF assms(2), of c HDone s'] unregistered_absorb [OF assms(2), of c] h s'
      by simp
  qed
qed

lemma count_inv_step:
  assumes "conn_action l s = Some s'" and "count_inv s"
  shows "count_inv s'"
proof (cases l)
  case LRegister
  then obtain c where c: "serve_at s = SAccepted c" "srv_mu s = None"
    using assms by (auto simp: serve_register_def split: serve_pc.splits if_splits)
  show ?thesis
  proof (cases "srv_closed s")
    case True
    with c LRegister assms have "s' = s\<lparr>serve_at := SRejecting c\<rparr>"
      by (simp add: serve_register_def)
    with c assms(2) show ?thesis by (simp add: count_inv_def pending_conn_def seen_def)
  next
    case False
    then have "s' = s\<lparr>srv_conns := insert c (srv_conns s), srv_wg := Suc (srv_wg s),
        handler_at := (handler_at s)(c := HRunning), serve_at := SAccepting\<rparr>"
      using c LRegister assms by (simp add: serve_register_def)
    with count_inv_register [OF assms(2) c(1)] show ?thesis by simp
  qed
next
  case (LHandlerReturn c)
  then show ?thesis using count_inv_handler_step [OF assms] by blast
next
  case (LRunClose c)
  then show ?thesis using count_inv_handler_step [OF assms] by blast
next
  case (LRunForget c)
  then show ?thesis using count_inv_handler_step [OF assms] by blast
next
  case (LRunDone c)
  then show ?thesis using count_inv_handler_step [OF assms] by blast
next
  case LReturn
  with assms show ?thesis
    by (auto simp: serve_return_def split: serve_pc.splits if_splits
        intro!: count_inv_frame [OF assms(2)]) (auto simp: pending_conn_def)
qed (use assms(1) in \<open>auto simp: conn_action_defs pending_conn_def
      split: serve_pc.splits close_pc.splits if_splits intro!: count_inv_quiet [OF assms(2)]\<close>)

subsection \<open>Lock and sockets\<close>

lemma lock_inv_frame:
  assumes "lock_inv s" "srv_mu s' = srv_mu s" "srv_closed s' = srv_closed s" "lst_open s' = lst_open s"
    "closer_at s' = closer_at s" "after_at s' = after_at s"
    "serve_ok (srv_closed s) (after_at s) (serve_at s')"
  shows "lock_inv s'"
  using assms by (simp add: lock_inv_def)

lemma closer_ok_closing: "closer_ok None False j p \<Longrightarrow> j \<noteq> k \<Longrightarrow> closer_ok (Some k) True j p"
  by (cases p) auto

lemma closer_ok_leaving: "closer_ok (Some k) cl j p \<Longrightarrow> j \<noteq> k \<Longrightarrow> closer_ok None cl j p"
  by (cases p) auto

lemma serve_ok_mono: "serve_ok cl af p \<Longrightarrow> cl \<longrightarrow> cl' \<Longrightarrow> serve_ok cl' af p"
  by (cases p) auto

lemma lock_inv_closer_step:
  assumes step: "conn_action l s = Some s'" and inv: "count_inv s" "lock_inv s"
    and l: "l = LCloseEnter k \<or> l = LCloseOne k c \<or> l = LCloseLeave k"
  shows "lock_inv s'"
proof -
  note ok = lock_invD [OF inv(2)]
  have fin: "finite (srv_conns s)"
    using inv(1) by (auto simp: count_inv_def seen_def elim!: rev_finite_subset)
  from l consider "l = LCloseEnter k" | "l = LCloseOne k c" | "l = LCloseLeave k" by blast
  then show ?thesis
  proof cases
    case 1
    then have w: "closer_at s k = CWant" "srv_mu s = None"
      using step by (auto simp: close_enter_def split: if_splits)
    show ?thesis
    proof (cases "srv_closed s")
      case True
      with 1 w step ok show ?thesis by (auto simp: close_enter_def lock_inv_def split: if_splits)
    next
      case False
      with 1 w step have s': "s' = s\<lparr>srv_mu := Some k, srv_closed := True, lst_open := False,
          closer_at := (closer_at s)(k := CHold (srv_conns s))\<rparr>"
        by (simp add: close_enter_def)
      have "closer_ok (Some k) True j (closer_at s j)" if "j \<noteq> k" for j
        using closer_ok_closing that ok(1) [of j] w(2) False by simp
      with ok w fin show ?thesis
        by (auto simp: s' lock_inv_def intro: serve_ok_mono)
    qed
  next
    case 2
    then obtain R where R: "closer_at s k = CHold R"
      and s': "s' = s\<lparr>sock_open := sock_open s - {c}, closer_at := (closer_at s)(k := CHold (R - {c}))\<rparr>"
      using step by (auto simp: close_one_def split: close_pc.splits if_splits)
    have "srv_mu s = Some k \<and> srv_closed s \<and> finite R" using ok(1) [of k] by (simp add: R)
    with ok R show ?thesis by (auto simp: s' lock_inv_def)
  next
    case 3
    then obtain R where R: "closer_at s k = CHold R"
      and s': "s' = s\<lparr>srv_mu := None, closer_at := (closer_at s)(k := CDone)\<rparr>"
      using step by (auto simp: close_leave_def split: close_pc.splits if_splits)
    have mu: "srv_mu s = Some k \<and> srv_closed s" using ok(1) [of k] by (simp add: R)
    then have "closer_ok None (srv_closed s) j (closer_at s j)" if "j \<noteq> k" for j
      using closer_ok_leaving that ok(1) [of j] by metis
    with ok R mu show ?thesis by (auto simp: s' lock_inv_def)
  qed
qed

lemma lock_inv_step:
  assumes step: "conn_action l s = Some s'" and inv: "conn_inv s"
  shows "lock_inv s'"
proof -
  have c: "count_inv s" and k: "lock_inv s" using inv by (simp_all add: conn_inv_def)
  note ok = lock_invD [OF k] and closer = lock_inv_closer_step [OF step c k]
  show ?thesis
  proof (cases l)
    case LStop
    then obtain r where "serve_at s = SStopping r"
      and "s' = s\<lparr>after_at := (if after_at s = Armed then Stopped else after_at s),
                 serve_at := SDraining r\<rparr>"
      using step by (auto simp: serve_stop_def split: serve_pc.splits)
    with ok show ?thesis by (auto simp: lock_inv_def)
  next
    case LFire
    then have a: "after_at s = Armed"
      and s': "s' = s\<lparr>after_at := Fired, closer_at := (closer_at s)(ByCancel := CWant)\<rparr>"
      using step by (auto simp: after_fire_def split: if_splits)
    have "serve_ok (srv_closed s) Fired (serve_at s)" using ok(3) a by (cases "serve_at s") auto
    moreover have i: "closer_at s ByCancel = CIdle" using ok(4) a by simp
    then have "srv_mu s \<noteq> Some ByCancel" using ok(1) [of ByCancel] by simp
    ultimately show ?thesis using ok by (auto simp: s' lock_inv_def)
  next
    case LCallerClose
    then have a: "closer_at s ByCaller = CIdle"
      and s': "s' = s\<lparr>closer_at := (closer_at s)(ByCaller := CWant)\<rparr>"
      using step by (auto simp: caller_close_def split: if_splits)
    then have "srv_mu s \<noteq> Some ByCaller" using ok(1) [of ByCaller] by simp
    with ok show ?thesis by (auto simp: s' lock_inv_def)
  next
    case LReturn
    with step show ?thesis
      using ok(3) by (auto simp: serve_return_def intro!: lock_inv_frame [OF k]
          split: serve_pc.splits if_splits)
  next
    case (LCloseEnter x)
    then show ?thesis using closer by blast
  next
    case (LCloseOne x d)
    then show ?thesis using closer by blast
  next
    case (LCloseLeave x)
    then show ?thesis using closer by blast
  qed (use step ok(3) in \<open>auto simp: conn_action_defs intro!: lock_inv_frame [OF k]
         split: if_splits serve_pc.splits\<close>)
qed

text \<open>A connection not yet registered is none of the connections with a handler.\<close>

lemma pending_not_conn: "count_inv s \<Longrightarrow> c \<in> pending_conn s \<Longrightarrow> c \<notin> srv_conns s"
  by (auto simp: count_inv_def)

lemma held_mu: "lock_inv s \<Longrightarrow> closer_at s k = CHold R \<Longrightarrow> srv_mu s = Some k"
  using lock_invD(1) [of s k] by simp

lemma to_close_held: "lock_inv s \<Longrightarrow> closer_at s k = CHold R \<Longrightarrow> to_close s = R"
  by (simp add: held_mu to_close_def)

lemma to_close_free: "srv_mu s = None \<Longrightarrow> to_close s = {}"
  by (simp add: to_close_def)

lemma to_close_frame:
  "srv_mu s' = srv_mu s \<Longrightarrow> (\<And>k. srv_mu s = Some k \<Longrightarrow> closer_at s' k = closer_at s k) \<Longrightarrow>
   to_close s' = to_close s"
  by (auto simp: to_close_def split: option.splits)

text \<open>Actions that neither open a socket nor touch \<open>Close\<close>'s loop.\<close>

lemma sock_inv_frame:
  assumes "sock_inv s" "sock_open s' \<subseteq> sock_open s" "srv_closed s' = srv_closed s"
    "srv_conns s' \<inter> sock_open s' \<subseteq> srv_conns s" "to_close s' = to_close s"
    "\<And>c. c \<in> sock_open s' \<Longrightarrow> owns_sock (handler_at s c) \<or> c \<in> pending_conn s \<Longrightarrow>
       owns_sock (handler_at s' c) \<or> c \<in> pending_conn s'"
  shows "sock_inv s'"
  using assms unfolding sock_inv_def by blast

lemma sock_inv_closer_step:
  assumes step: "conn_action l s = Some s'" and inv: "conn_inv s"
    and l: "l \<in> {LCloseEnter x, LCloseOne x d, LCloseLeave x}"
  shows "sock_inv s'"
proof -
  have k: "lock_inv s" and o: "sock_inv s" using inv by (simp_all add: conn_inv_def)
  consider "l = LCloseEnter x" | "l = LCloseOne x d" | "l = LCloseLeave x" using l by blast
  then show ?thesis
  proof cases
    case 1
    show ?thesis
    proof (cases "srv_closed s")
      case True
      with \<open>l = LCloseEnter x\<close> step o k show ?thesis
        by (auto simp: close_enter_def to_close_def pending_conn_def
            intro!: sock_inv_frame [OF o] split: if_splits)
    next
      case False
      with \<open>l = LCloseEnter x\<close> step o show ?thesis
        by (auto simp: close_enter_def sock_inv_def pending_conn_def to_close_def split: if_splits)
    qed
  next
    case 2
    then obtain R where R: "closer_at s x = CHold R" "d \<in> R"
      and s': "s' = s\<lparr>sock_open := sock_open s - {d},
                      closer_at := (closer_at s)(x := CHold (R - {d}))\<rparr>"
      using step by (auto simp: close_one_def split: close_pc.splits if_splits)
    have mu: "srv_mu s = Some x" using k R held_mu by blast
    from o to_close_held [OF k R(1)] show ?thesis
      by (auto simp: s' sock_inv_def pending_conn_def to_close_def mu)
  next
    case 3
    then obtain R where R: "closer_at s x = CHold R" "R = {}"
      and s': "s' = s\<lparr>srv_mu := None, closer_at := (closer_at s)(x := CDone)\<rparr>"
      using step by (auto simp: close_leave_def split: close_pc.splits if_splits)
    from o to_close_held [OF k R(1)] R(2) show ?thesis
      by (auto simp: s' sock_inv_def pending_conn_def to_close_def)
  qed
qed

lemma sock_inv_step:
  assumes step: "conn_action l s = Some s'" and inv: "conn_inv s"
  shows "sock_inv s'"
proof -
  have c: "count_inv s" and k: "lock_inv s" and o: "sock_inv s"
    using inv by (simp_all add: conn_inv_def)
  note closer = sock_inv_closer_step [OF step inv]
  show ?thesis
  proof (cases l)
    case (LAccept d)
    with step c o k show ?thesis
      by (auto simp: accept_conn_def sock_inv_def pending_conn_def count_inv_def lock_inv_def
          split: if_splits)
  next
    case LRegister
    then obtain d where d: "serve_at s = SAccepted d" "srv_mu s = None"
      using step by (auto simp: serve_register_def split: serve_pc.splits if_splits)
    show ?thesis
    proof (cases "srv_closed s")
      case True
      with d LRegister step o show ?thesis
        by (auto simp: serve_register_def sock_inv_def pending_conn_def to_close_def)
    next
      case False
      with d LRegister step o show ?thesis
        by (auto simp: serve_register_def sock_inv_def pending_conn_def)
    qed
  next
    case LReject
    then obtain d where d: "serve_at s = SRejecting d"
      and s': "s' = s\<lparr>sock_open := sock_open s - {d}, serve_at := SStopping (Inr ())\<rparr>"
      using step by (auto simp: serve_reject_def split: serve_pc.splits)
    have "to_close s' = to_close s" by (rule to_close_frame) (simp_all add: s')
    with d o show ?thesis
      by (auto simp: s' pending_conn_def sock_inv_def)
  next
    case (LCloseEnter x)
    then show ?thesis using closer by blast
  next
    case (LCloseOne x d)
    then show ?thesis using closer by blast
  next
    case (LCloseLeave x)
    then show ?thesis using closer by blast
  next
    case (LRunForget d)
    with step show ?thesis
      by (auto simp: run_forget_def to_close_def pending_conn_def
          intro!: sock_inv_frame [OF o] split: if_splits)
  next
    case LFire
    with step lock_invD(1) [OF k, of ByCancel] lock_invD(4) [OF k] show ?thesis
      by (auto simp: after_fire_def pending_conn_def
          intro!: sock_inv_frame [OF o] to_close_frame split: if_splits)
  next
    case LCallerClose
    with step lock_invD(1) [OF k, of ByCaller] show ?thesis
      by (auto simp: caller_close_def pending_conn_def
          intro!: sock_inv_frame [OF o] to_close_frame split: if_splits)
  qed (use step in \<open>auto simp: conn_action_defs pending_conn_def
         intro!: sock_inv_frame [OF o] to_close_frame split: if_splits serve_pc.splits\<close>)
qed

lemma conn_inv_step: "conn_step s l s' \<Longrightarrow> conn_inv s \<Longrightarrow> conn_inv s'"
  by (metis conn_inv_def conn_step_def count_inv_step lock_inv_step sock_inv_step)

interpretation conns: invariant_system conn_init conn_step conn_inv
  by unfold_locales (rule conn_inv_init, assumption, rule conn_inv_step)

section \<open>Consequences\<close>

lemma finite_conns: "count_inv s \<Longrightarrow> finite (srv_conns s)"
  by (auto simp: count_inv_def seen_def elim!: rev_finite_subset)

lemma drained_handlers:
  assumes "count_inv s" "srv_wg s = 0"
  shows "handler_at s c = HAbsent \<or> handler_at s c = HDone"
  using alive_le_wg [OF assms(1), of c] assms(2) by (cases "handler_at s c") auto

lemma returned_released:
  assumes "conn_inv s" and "serve_at s = SReturned r"
  shows "sock_open s = {}" "srv_conns s = {}" "handler_at s c = HAbsent \<or> handler_at s c = HDone"
proof -
  have inv: "count_inv s" "sock_inv s" using assms(1) by (simp_all add: conn_inv_def)
  then have "srv_wg s = 0" using assms(2) unfolding count_inv_def by blast
  note h = drained_handlers [OF inv(1) this]
  show "handler_at s c = HAbsent \<or> handler_at s c = HDone" by (rule h)
  have no: "\<not> owns_sock (handler_at s d)" "\<not> registered (handler_at s d)" for d
    using h [of d] by auto
  show "srv_conns s = {}" using inv(1) no by (auto simp: count_inv_def)
  show "sock_open s = {}" using inv(2) no assms(2) by (auto simp: sock_inv_def pending_conn_def)
qed

lemma closed_released:
  assumes "conn_inv s" and "closer_at s k = CDone"
  shows "\<not> lst_open s" "srv_conns s \<inter> sock_open s = {}" "sock_open s \<subseteq> pending_conn s \<union> {c. c \<in> srv_conns s}"
proof -
  have inv: "lock_inv s" "sock_inv s" "count_inv s" using assms(1) by (simp_all add: conn_inv_def)
  have cl: "srv_mu s = None" "srv_closed s" using lock_invD(1) [OF inv(1), of k] assms(2) by auto
  show "\<not> lst_open s" using lock_invD(2) [OF inv(1)] cl by simp
  show "srv_conns s \<inter> sock_open s = {}"
    using inv(2) cl by (simp add: sock_inv_def to_close_free)
  have "owns_sock h \<Longrightarrow> registered h" for h by (cases h) auto
  then show "sock_open s \<subseteq> pending_conn s \<union> {c. c \<in> srv_conns s}"
    using inv(2,3) by (auto simp: sock_inv_def count_inv_def)
qed

section \<open>Termination after a cancellation\<close>

text \<open>
  The actions of the server's own goroutines. Accepting, failing to accept, cancelling, the call of
  \<open>Close\<close> and the return of \<open>handle\<close> belong to the environment.
\<close>

fun server_action :: "conn_label \<Rightarrow> bool" where
  "server_action (LAccept c) = False"
| "server_action (LAcceptFail e) = False"
| "server_action LCancel = False"
| "server_action LCallerClose = False"
| "server_action (LHandlerReturn c) = False"
| "server_action l = True"

fun accepting :: "serve_pc \<Rightarrow> bool" where
  "accepting SAccepting = True"
| "accepting (SAccepted c) = True"
| "accepting p = False"

text \<open>
  \<open>Close\<close> has run, or is about to, or the cancelled context will call it: its hook is still
  installed and \<open>Serve\<close> is still in its loop.
\<close>

definition closing :: "conn_server \<Rightarrow> bool" where
  "closing s =
     (srv_closed s \<or> closer_at s ByCancel = CWant \<or> closer_at s ByCaller = CWant \<or>
      (ctx_done s \<and> after_at s = Armed \<and> accepting (serve_at s)))"

definition serve_returned :: "conn_server \<Rightarrow> bool" where
  "serve_returned s = (case serve_at s of SReturned r \<Rightarrow> True | _ \<Rightarrow> False)"

fun handler_rank :: "handler_pc \<Rightarrow> nat" where
  "handler_rank HRunning = 4"
| "handler_rank HReturned = 3"
| "handler_rank HClosed = 2"
| "handler_rank HForgot = 1"
| "handler_rank _ = 0"

fun serve_rank :: "serve_pc \<Rightarrow> nat" where
  "serve_rank (SAccepted c) = 12"
| "serve_rank SAccepting = 6"
| "serve_rank (SRejecting c) = 4"
| "serve_rank (SStopping r) = 3"
| "serve_rank (SDraining r) = 2"
| "serve_rank (SReturned r) = 0"

fun close_rank :: "nat \<Rightarrow> close_pc \<Rightarrow> nat" where
  "close_rank n CWant = 2 + n"
| "close_rank n (CHold R) = 1 + card R"
| "close_rank n p = 0"

definition conns_bound :: "conn_server \<Rightarrow> nat" where
  "conns_bound s = card (srv_conns s) + (case serve_at s of SAccepted c \<Rightarrow> 1 | _ \<Rightarrow> 0)"

definition conn_rank :: "conn_server \<Rightarrow> nat" where
  "conn_rank s =
     (\<Sum>c\<in>seen s. handler_rank (handler_at s c)) + serve_rank (serve_at s) +
     close_rank (conns_bound s) (closer_at s ByCancel) +
     close_rank (conns_bound s) (closer_at s ByCaller) +
     (if after_at s = Armed then 3 + conns_bound s else 0)"

lemma close_rank_mono: "m \<le> n \<Longrightarrow> close_rank m p \<le> close_rank n p"
  by (cases p) auto

definition handlers_rank :: "conn_server \<Rightarrow> nat" where
  "handlers_rank s = (\<Sum>c\<in>seen s. handler_rank (handler_at s c))"

lemma conn_rank_split:
  "conn_rank s = handlers_rank s + serve_rank (serve_at s) +
     close_rank (conns_bound s) (closer_at s ByCancel) +
     close_rank (conns_bound s) (closer_at s ByCaller) +
     (if after_at s = Armed then 3 + conns_bound s else 0)"
  by (simp add: conn_rank_def handlers_rank_def)

text \<open>Actions of \<open>Serve\<close> and of the handlers: the calls of \<open>Close\<close> stand still.\<close>

lemma rank_serve_less:
  assumes "handlers_rank s' + serve_rank (serve_at s') < handlers_rank s + serve_rank (serve_at s)"
    and "closer_at s' = closer_at s" and "conns_bound s' \<le> conns_bound s"
    and "after_at s' = Armed \<longrightarrow> after_at s = Armed"
  shows "conn_rank s' < conn_rank s"
  using assms close_rank_mono [OF assms(3), of "closer_at s ByCancel"]
    close_rank_mono [OF assms(3), of "closer_at s ByCaller"]
  by (simp add: conn_rank_split)

text \<open>Actions of a call of \<open>Close\<close>.\<close>

lemma rank_close_less:
  assumes "handler_at s' = handler_at s" "serve_at s' = serve_at s" "srv_conns s' = srv_conns s"
    "after_at s' = after_at s" "closer_at s' = (closer_at s)(k := p)"
    "close_rank (conns_bound s) p < close_rank (conns_bound s) (closer_at s k)"
  shows "conn_rank s' < conn_rank s"
proof -
  have "conns_bound s' = conns_bound s" "handlers_rank s' = handlers_rank s"
    using assms by (simp_all add: conns_bound_def handlers_rank_def seen_def)
  with assms show ?thesis by (cases k) (auto simp: conn_rank_split)
qed

lemma rank_handler_less:
  assumes "finite (seen s)" "handler_at s c \<noteq> HAbsent" "x \<noteq> HAbsent"
    "handler_rank x < handler_rank (handler_at s c)"
    and s': "handler_at s' = (handler_at s)(c := x)" "serve_at s' = serve_at s"
      "closer_at s' = closer_at s" "after_at s' = after_at s"
      "srv_conns s' \<subseteq> srv_conns s" "finite (srv_conns s)"
  shows "conn_rank s' < conn_rank s"
proof (rule rank_serve_less)
  have "handlers_rank s' + handler_rank (handler_at s c) = handlers_rank s + handler_rank x"
    using sum_handler_move [OF assms(1-3), of handler_rank] s'(1)
    by (simp add: handlers_rank_def seen_def)
  with assms(4) s'(2)
  show "handlers_rank s' + serve_rank (serve_at s') < handlers_rank s + serve_rank (serve_at s)"
    by simp
  show "conns_bound s' \<le> conns_bound s"
    using s' by (auto simp: conns_bound_def card_mono split: serve_pc.splits)
qed (use s' in simp_all)

lemma rank_register:
  assumes "count_inv s" "serve_at s = SAccepted c"
  shows "conn_rank (s\<lparr>srv_conns := insert c (srv_conns s), srv_wg := Suc (srv_wg s),
     handler_at := (handler_at s)(c := HRunning), serve_at := SAccepting\<rparr>) < conn_rank s"
    (is "conn_rank ?t < _")
proof (rule rank_serve_less)
  have h: "handler_at s c = HAbsent" "finite (seen s)"
    using assms by (auto simp: count_inv_def pending_conn_def)
  have "handlers_rank ?t = handlers_rank s + 4"
    using sum_handler_start [OF h(2,1), of handler_rank] by (simp add: handlers_rank_def seen_def)
  then show "handlers_rank ?t + serve_rank (serve_at ?t) < handlers_rank s + serve_rank (serve_at s)"
    using assms(2) by simp
  have "c \<notin> srv_conns s" using h(1) assms(1) by (auto simp: count_inv_def)
  then show "conns_bound ?t \<le> conns_bound s"
    using assms(2) finite_conns [OF assms(1)] by (simp add: conns_bound_def)
qed simp_all

text \<open>The rank falls with every action of a handler, of a closer, and of \<open>Serve\<close> itself.\<close>

lemma handlers_decrease:
  assumes inv: "conn_inv s" and act: "conn_action l s = Some s'"
    and l: "l \<in> {LHandlerReturn d, LRunClose d, LRunForget d, LRunDone d}"
  shows "conn_rank s' < conn_rank s"
proof -
  have c: "count_inv s" using inv by (simp add: conn_inv_def)
  have fin: "finite (seen s)" "finite (srv_conns s)"
    using c finite_conns by (simp_all add: count_inv_def)
  note less = rank_handler_less [OF fin(1)]
  consider "l = LHandlerReturn d" | "l = LRunClose d" | "l = LRunForget d" | "l = LRunDone d" using l by blast
  then show ?thesis
  proof cases
    case 1
    with act fin show ?thesis
      by (auto simp: handler_return_def split: if_splits intro!: less [of d HReturned])
  next
    case 2
    with act fin show ?thesis by (auto simp: run_close_def split: if_splits intro!: less [of d HClosed])
  next
    case 3
    with act fin show ?thesis by (auto simp: run_forget_def split: if_splits intro!: less [of d HForgot])
  next
    case 4
    with act fin show ?thesis by (auto simp: run_done_def split: if_splits intro!: less [of d HDone])
  qed
qed

lemma closers_decrease:
  assumes inv: "conn_inv s" and act: "conn_action l s = Some s'"
    and l: "l \<in> {LFire, LCloseEnter x, LCloseOne x d, LCloseLeave x}"
  shows "conn_rank s' < conn_rank s"
proof -
  have c: "count_inv s" and k: "lock_inv s" using inv by (simp_all add: conn_inv_def)
  have fin: "finite (srv_conns s)" using c finite_conns by (simp add: count_inv_def)
  consider "l = LFire" | "l = LCloseEnter x" | "l = LCloseOne x d" | "l = LCloseLeave x" using l by blast
  then show ?thesis
  proof cases
    case 1
    then have a: "after_at s = Armed"
      and s': "s' = s\<lparr>after_at := Fired, closer_at := (closer_at s)(ByCancel := CWant)\<rparr>"
      using act by (auto simp: after_fire_def split: if_splits)
    have "handlers_rank s' = handlers_rank s" by (simp add: s' handlers_rank_def seen_def)
    moreover have "closer_at s ByCancel = CIdle" using lock_invD(4) [OF k] a by simp
    ultimately show ?thesis using a by (simp add: s' conn_rank_split conns_bound_def)
  next
    case 2
    with act fin show ?thesis
      by (auto simp: close_enter_def conns_bound_def split: if_splits intro!: rank_close_less [of _ _ x])
  next
    case 3
    then obtain R where R: "closer_at s x = CHold R" "d \<in> R"
      and s': "s' = s\<lparr>sock_open := sock_open s - {d}, closer_at := (closer_at s)(x := CHold (R - {d}))\<rparr>"
      using act by (auto simp: close_one_def split: close_pc.splits if_splits)
    have "finite R" using lock_invD(1) [OF k, of x] R by simp
    with R have "card (R - {d}) < card R" by (intro card_Diff1_less)
    with R show ?thesis by (auto simp: s' intro!: rank_close_less [of _ _ x])
  next
    case 4
    with act show ?thesis
      by (auto simp: close_leave_def split: close_pc.splits if_splits intro!: rank_close_less [of _ _ x])
  qed
qed

lemma serve_decreases:
  assumes inv: "conn_inv s" and act: "conn_action l s = Some s'"
    and l: "l \<in> {LRegister, LAcceptClosed, LReject, LStop, LReturn}"
  shows "conn_rank s' < conn_rank s"
proof -
  have c: "count_inv s" using inv by (simp add: conn_inv_def)
  have same: "handlers_rank s' = handlers_rank s" if "handler_at s' = handler_at s"
    using that by (simp add: handlers_rank_def seen_def)
  show ?thesis
  proof (cases "l = LRegister")
    case True
    then obtain d where d: "serve_at s = SAccepted d" "srv_mu s = None"
      using act by (auto simp: serve_register_def split: serve_pc.splits if_splits)
    show ?thesis
    proof (cases "srv_closed s")
      case True
      with \<open>l = LRegister\<close> d act have "s' = s\<lparr>serve_at := SRejecting d\<rparr>" by (simp add: serve_register_def)
      with d same show ?thesis by (auto intro!: rank_serve_less simp: conns_bound_def)
    next
      case False
      with rank_register [OF c d(1)] \<open>l = LRegister\<close> d act show ?thesis by (simp add: serve_register_def)
    qed
  next
    case False
    with l act same show ?thesis
      by (elim insertE emptyE)
        (auto simp: accept_closed_def serve_reject_def serve_stop_def serve_return_def conns_bound_def
          split: serve_pc.splits if_splits intro!: rank_serve_less)
  qed
qed

text \<open>
  A shutdown: the actions of the server, and the only thing it asks of the handlers, that \<open>handle\<close>
  returns after its connection was closed. No code of the server makes it return: this is the obligation of the
  tunnel that provides \<open>handle\<close>.
\<close>

definition shutdown_step :: "conn_server \<Rightarrow> conn_label \<Rightarrow> conn_server \<Rightarrow> bool" where
  "shutdown_step s l t \<longleftrightarrow> conn_step s l t \<and> (server_action l \<or> (\<exists>c. l = LHandlerReturn c \<and> c \<notin> sock_open s))"

text \<open>All that is left to \<open>Serve\<close> is to wait for handlers whose connections are closed.\<close>

definition awaits_handlers :: "conn_server \<Rightarrow> bool" where
  "awaits_handlers s \<longleftrightarrow> (\<exists>r. serve_at s = SDraining r) \<and> \<not> lst_open s \<and> sock_open s = {} \<and>
     (\<forall>c. handler_at s c \<in> {HAbsent, HRunning, HDone}) \<and> (\<exists>c. handler_at s c = HRunning)"

lemma conn_decreases:
  assumes inv: "conn_inv s" and int: "server_action l \<or> (\<exists>c. l = LHandlerReturn c)" and step: "conn_step s l s'"
  shows "conn_rank s' < conn_rank s"
proof -
  have act: "conn_action l s = Some s'" using step by (simp add: conn_step_def)
  show ?thesis
    using int handlers_decrease [OF inv act] closers_decrease [OF inv act] serve_decreases [OF inv act]
    by (cases l) simp_all
qed

lemma conn_closing_step:
  assumes inv: "conn_inv s" and cl: "closing s" and int: "server_action l \<or> (\<exists>c. l = LHandlerReturn c)"
    and step: "conn_step s l s'"
  shows "closing s'"
proof -
  have k: "lock_inv s" using inv by (simp add: conn_inv_def)
  have act: "conn_action l s = Some s'" using step by (simp add: conn_step_def)
  have closed: "srv_closed s" if "\<not> lst_open s" using lock_invD(2) [OF k] that by simp
  show ?thesis
    using int act cl closed
    by (cases l) (auto simp: conn_action_defs closing_def
        split: serve_pc.splits close_pc.splits if_splits)
qed

text \<open>
  A server that is marked closed, with the lock free, can move unless \<open>Serve\<close> has returned or waits
  for handlers; whoever holds the lock can always move.
\<close>

lemma handler_moves:
  assumes "srv_mu s = None" and "\<not> (\<exists>l s'. server_action l \<and> conn_step s l s')"
  shows "handler_at s c \<in> {HAbsent, HRunning, HDone}"
proof (cases "handler_at s c")
  case HReturned
  then have "conn_step s (LRunClose c) (the (run_close c s))" by (simp add: conn_step_def run_close_def)
  with assms(2) show ?thesis by (metis server_action.simps)
next
  case HClosed
  with assms(1) have "conn_step s (LRunForget c) (the (run_forget c s))" by (simp add: conn_step_def run_forget_def)
  with assms(2) show ?thesis by (metis server_action.simps)
next
  case HForgot
  then have "conn_step s (LRunDone c) (the (run_done c s))" by (simp add: conn_step_def run_done_def)
  with assms(2) show ?thesis by (metis server_action.simps)
qed simp_all

lemma drain_waits:
  assumes inv: "conn_inv s" and mu: "srv_mu s = None" and cl: "srv_closed s" and d: "serve_at s = SDraining r"
    and stuck: "\<not> (\<exists>l s'. server_action l \<and> conn_step s l s')"
  shows "awaits_handlers s"
proof -
  have parts: "count_inv s" "lock_inv s" "sock_inv s" using inv by (simp_all add: conn_inv_def)
  note h = handler_moves [OF mu stuck]
  have "conn_step s LReturn (s\<lparr>serve_at := SReturned r\<rparr>)" if "srv_wg s = 0"
    using d that by (simp add: conn_step_def serve_return_def)
  with stuck have "srv_wg s \<noteq> 0" by (metis server_action.simps)
  moreover have "srv_wg s = (\<Sum>c\<in>seen s. alive (handler_at s c))"
    using parts(1) unfolding count_inv_def by blast
  ultimately have "(\<Sum>c\<in>seen s. alive (handler_at s c)) \<noteq> 0" by metis
  then obtain c where "alive (handler_at s c) \<noteq> 0" by (meson sum.neutral)
  with h [of c] have running: "handler_at s c = HRunning" by auto
  have "c \<notin> sock_open s" for c
  proof
    assume "c \<in> sock_open s"
    moreover from this have "owns_sock (handler_at s c)" using parts(3) d by (auto simp: sock_inv_def pending_conn_def)
    then have "c \<in> srv_conns s" using parts(1) h [of c] by (auto simp: count_inv_def)
    ultimately show False using parts(3) cl mu by (auto simp: sock_inv_def to_close_free)
  qed
  then have "sock_open s = {}" by blast
  with running h d lock_invD(2) [OF parts(2)] cl show ?thesis by (auto simp: awaits_handlers_def)
qed

lemma serve_progress:
  assumes inv: "conn_inv s" and mu: "srv_mu s = None" and cl: "srv_closed s" and nf: "\<not> serve_returned s"
  shows "(\<exists>l s'. server_action l \<and> conn_step s l s') \<or> awaits_handlers s"
proof (cases "serve_at s")
  case SAccepting
  have "\<not> lst_open s" using inv lock_invD(2) [of s] cl by (simp add: conn_inv_def)
  with SAccepting show ?thesis
    by (intro disjI1 exI [of _ LAcceptClosed]) (simp add: conn_step_def accept_closed_def)
next
  case (SAccepted c)
  with mu cl show ?thesis
    by (intro disjI1 exI [of _ LRegister]) (simp add: conn_step_def serve_register_def)
next
  case (SRejecting c)
  then show ?thesis
    by (intro disjI1 exI [of _ LReject]) (simp add: conn_step_def serve_reject_def)
next
  case (SStopping r)
  then show ?thesis
    by (intro disjI1 exI [of _ LStop]) (simp add: conn_step_def serve_stop_def)
next
  case (SDraining r)
  then show ?thesis using drain_waits [OF inv mu cl] by blast
qed (use nf in \<open>simp add: serve_returned_def\<close>)

lemma close_progress:
  assumes "lock_inv s" "srv_mu s = Some k"
  shows "\<exists>l s'. server_action l \<and> conn_step s l s'"
proof -
  have "\<exists>R. closer_at s k = CHold R"
    using lock_invD(1) [OF assms(1), of k] assms(2) by (cases "closer_at s k") auto
  then obtain R where R: "closer_at s k = CHold R" by blast
  show ?thesis
  proof (cases "R = {}")
    case True
    with R show ?thesis
      by (intro exI [of _ "LCloseLeave k"]) (simp add: conn_step_def close_leave_def)
  next
    case False
    then obtain c where "c \<in> R" by blast
    with R show ?thesis
      by (intro exI [of _ "LCloseOne k c"]) (simp add: conn_step_def close_one_def)
  qed
qed

lemma conn_progress:
  assumes inv: "conn_inv s" and cl: "closing s" and nf: "\<not> serve_returned s"
  shows "(\<exists>l s'. server_action l \<and> conn_step s l s') \<or> awaits_handlers s"
proof (cases "srv_mu s")
  case (Some k)
  with inv close_progress show ?thesis by (simp add: conn_inv_def)
next
  case None
  show ?thesis
  proof (cases "srv_closed s")
    case True
    with serve_progress [OF inv None] nf show ?thesis by blast
  next
    case False
    then consider k where "closer_at s k = CWant" | "ctx_done s" "after_at s = Armed"
      using cl by (auto simp: closing_def)
    then show ?thesis
    proof cases
      case 1
      with None False show ?thesis
        by (intro disjI1 exI [of _ "LCloseEnter k"]) (simp add: conn_step_def close_enter_def)
    next
      case 2
      then show ?thesis
        by (intro disjI1 exI [of _ LFire]) (simp add: conn_step_def after_fire_def)
    qed
  qed
qed

lemma awaited_returns: "awaits_handlers s \<Longrightarrow> \<exists>c t. shutdown_step s (LHandlerReturn c) t"
  by (auto simp: awaits_handlers_def shutdown_step_def conn_step_def handler_return_def)

lemma shutdown_step_kind:
  "shutdown_step s l t \<Longrightarrow> conn_step s l t \<and> (server_action l \<or> (\<exists>c. l = LHandlerReturn c))"
  by (auto simp: shutdown_step_def)

interpretation conns_live:
  terminating_system conn_init shutdown_step conn_inv "\<lambda>_. True" closing serve_returned conn_rank
proof unfold_locales
  fix s l s'
  show "conn_inv s \<Longrightarrow> closing s \<Longrightarrow> \<not> serve_returned s \<Longrightarrow> \<exists>l s'. True \<and> shutdown_step s l s'"
    using conn_progress [of s] awaited_returns [of s] by (auto simp: shutdown_step_def)
  show "conn_init s \<Longrightarrow> conn_inv s" by (rule conn_inv_init)
  show "shutdown_step s l s' \<Longrightarrow> conn_inv s \<Longrightarrow> conn_inv s'" using conn_inv_step [of s l s'] by (simp add: shutdown_step_def)
  show "conn_inv s \<Longrightarrow> True \<Longrightarrow> shutdown_step s l s' \<Longrightarrow> conn_rank s' < conn_rank s"
    using conn_decreases [of s l s'] shutdown_step_kind [of s l s'] by blast
  show "conn_inv s \<Longrightarrow> closing s \<Longrightarrow> True \<Longrightarrow> shutdown_step s l s' \<Longrightarrow> closing s'"
    using conn_closing_step [of s l s'] shutdown_step_kind [of s l s'] by blast
qed

text \<open>While \<open>Serve\<close> is in its loop its hook on the context is not removed, so a cancelled context closes.\<close>

lemma hook_kept: "reach conn_init conn_step s \<Longrightarrow> accepting (serve_at s) \<Longrightarrow> after_at s \<noteq> Stopped"
proof (induction rule: reach.induct)
  case (reach_step s l t)
  then show ?case
    by (cases l) (auto simp: conn_step_def conn_action_defs split: if_splits serve_pc.splits close_pc.splits)
qed (simp add: conn_init_def new_conn_server_def)

lemma interrupted_closing:
  assumes "reach conn_init conn_step s"
    and "ctx_done s \<and> accepting (serve_at s) \<or> after_at s = Fired \<or> closer_at s ByCaller \<noteq> CIdle"
  shows "closing s"
proof -
  have k: "lock_inv s" using conns.reach_inv [OF assms(1)] by (simp add: conn_inv_def)
  have "closing s" if "closer_at s x \<noteq> CIdle" for x
    using lock_invD(1) [OF k, of x] that by (cases x; cases "closer_at s x") (auto simp: closing_def)
  then show ?thesis
    using assms(2) hook_kept [OF assms(1)] lock_invD(4) [OF k] by (cases "after_at s") (auto simp: closing_def)
qed

section \<open>Properties\<close>

text \<open>C1: when \<open>Serve\<close> has returned, every connection it ever accepted is closed, no connection is
  registered and no handler goroutine is left running.\<close>

theorem serve_returns_clean:
  assumes "reach conn_init conn_step s" and "serve_at s = SReturned r"
  shows "sock_open s = {} \<and> srv_conns s = {} \<and> (\<forall>c. handler_at s c = HAbsent \<or> handler_at s c = HDone)"
  using returned_released [OF conns.reach_inv [OF assms(1)] assms(2)] by blast

definition clean_run :: "conn_label list" where
  "clean_run =
     [LAccept 7, LRegister, LAccept 8, LRegister, LHandlerReturn 8, LCancel, LFire,
      LCloseEnter ByCancel, LCloseOne ByCancel 7, LCloseOne ByCancel 8, LCloseLeave ByCancel,
      LAcceptClosed, LStop, LHandlerReturn 7, LRunClose 7, LRunClose 8, LRunForget 7,
      LRunDone 7, LRunForget 8, LRunDone 8, LReturn]"

lemma conn_exec_reach:
  "exec_labels conn_action ls new_conn_server = Some t \<Longrightarrow> reach conn_init conn_step t"
  using exec_labels_reach [of conn_action ls new_conn_server t conn_init]
  by (simp add: conn_init_def conn_step_def [abs_def])

lemma clean_run_exec:
  "\<exists>t. exec_labels conn_action clean_run new_conn_server = Some t \<and> serve_at t = SReturned (Inr ())"
  by (simp add: clean_run_def new_conn_server_def conn_action_defs serve_error_def insert_Diff_if)

theorem serve_returns_clean_witness:
  "\<exists>t. exec_labels conn_action clean_run new_conn_server = Some t \<and> sock_open t = {} \<and> srv_conns t = {}"
proof -
  obtain t where t: "exec_labels conn_action clean_run new_conn_server = Some t"
    "serve_at t = SReturned (Inr ())"
    using clean_run_exec by blast
  with serve_returns_clean [OF conn_exec_reach [OF t(1)] t(2)] show ?thesis by blast
qed

text \<open>once a call of \<open>Close\<close> has finished, the listener is closed, every registered
  connection is closed, and a connection accepted too late is refused instead of registered.\<close>

lemma close_drops_connections:
  assumes "reach conn_init conn_step s" and "closer_at s k = CDone"
  shows "\<not> lst_open s \<and> srv_conns s \<inter> sock_open s = {} \<and>
    (\<forall>c. serve_at s = SAccepted c \<longrightarrow> conn_action LRegister s = Some (s\<lparr>serve_at := SRejecting c\<rparr>))"
proof -
  have inv: "conn_inv s" by (rule conns.reach_inv [OF assms(1)])
  then have "srv_mu s = None \<and> srv_closed s"
    using lock_invD(1) [of s k] assms(2) by (simp add: conn_inv_def)
  with closed_released [OF inv assms(2)] show ?thesis by (simp add: serve_register_def)
qed

definition late_run :: "conn_label list" where
  "late_run =
     [LAccept 1, LRegister, LAccept 2, LCallerClose, LCloseEnter ByCaller, LCloseOne ByCaller 1,
      LCloseLeave ByCaller]"

lemma close_drops_connections_witness:
  "\<exists>t. exec_labels conn_action late_run new_conn_server = Some t \<and> closer_at t ByCaller = CDone \<and>
     serve_at t = SAccepted 2 \<and> \<not> lst_open t \<and> srv_conns t \<inter> sock_open t = {}"
proof -
  have "\<exists>t. exec_labels conn_action late_run new_conn_server = Some t \<and>
      closer_at t ByCaller = CDone \<and> serve_at t = SAccepted 2"
    by (simp add: late_run_def new_conn_server_def conn_action_defs)
  then obtain t where t: "exec_labels conn_action late_run new_conn_server = Some t"
    "closer_at t ByCaller = CDone" "serve_at t = SAccepted 2" by blast
  with close_drops_connections [OF conn_exec_reach [OF t(1)] t(2)] show ?thesis by blast
qed

text \<open>C17: Shutdown, and all it rests on. When the context is cancelled while \<open>Serve\<close> is in its
  loop, or its hook has started \<open>Close\<close>, or the caller of \<open>Serve\<close> has called \<open>Close\<close>: if every handler
  whose connection is closed returns, \<open>Serve\<close> returns. No run of the server's actions and of such
  returns is longer than the rank of the state, and at every point of one \<open>Serve\<close> has returned, or some goroutine of the
  server can move, or the listener and every connection are closed and \<open>Serve\<close> waits for nothing
  but handlers that are still in \<open>handle\<close>.\<close>

theorem shutdown_terminates:
  assumes "reach conn_init conn_step s"
    and "ctx_done s \<and> accepting (serve_at s) \<or> after_at s = Fired \<or> closer_at s ByCaller \<noteq> CIdle"
  shows "(\<exists>ls t. path shutdown_step s ls t \<and> serve_returned t) \<and>
    (\<forall>ls t. path shutdown_step s ls t \<longrightarrow> length ls \<le> conn_rank s \<and>
       (serve_returned t \<or> (\<exists>l u. server_action l \<and> conn_step t l u) \<or> awaits_handlers t))"
proof -
  note inv = conns.reach_inv [OF assms(1)] and closing = interrupted_closing [OF assms]
  have "length ls \<le> conn_rank s" "conn_inv t" "closing t" if "path shutdown_step s ls t" for ls t
    using conns_live.internal_run_bounded [OF that inv] conns_live.path_inv [OF that inv]
      conns_live.live_path [OF that inv closing] by simp_all
  then show ?thesis using conns_live.reaches_final [OF inv closing] conn_progress by blast
qed

text \<open>A connection is handled when the context is cancelled.\<close>

definition handling_run :: "conn_label list" where
  "handling_run = [LAccept 3, LRegister, LCancel]"

theorem shutdown_terminates_witness:
  "\<exists>t. exec_labels conn_action handling_run new_conn_server = Some t \<and> handler_at t 3 = HRunning \<and>
     (\<exists>ls u. path shutdown_step t ls u \<and> serve_returned u)"
proof -
  have "\<exists>t. exec_labels conn_action handling_run new_conn_server = Some t \<and> handler_at t 3 = HRunning \<and>
      ctx_done t \<and> accepting (serve_at t)"
    by (simp add: handling_run_def new_conn_server_def conn_action_defs)
  then obtain t where t: "exec_labels conn_action handling_run new_conn_server = Some t"
    "handler_at t 3 = HRunning" "ctx_done t \<and> accepting (serve_at t)" by blast
  with shutdown_terminates [OF conn_exec_reach [OF t(1)]] show ?thesis by blast
qed

text \<open>after \<open>Accept\<close> failed with an error of its own, \<open>Serve\<close> has removed its cancellation
  hook and waits for the handlers: cancelling the context then closes nothing, and no action of
  the server is possible until the peers of the open connections go away.\<close>

lemma accept_failure_ignores_cancel:
  "\<exists>s. reach conn_init conn_step s \<and> ctx_done s \<and> 0 \<in> sock_open s \<and> handler_at s 0 = HRunning \<and>
     serve_at s = SDraining (Inl (wrap_err ''accept local connection'' (ErrExt ''too many open files''))) \<and>
     \<not> (\<exists>l s'. server_action l \<and> conn_step s l s')"
proof -
  let ?ls = "[LAccept 0, LRegister, LAcceptFail (ErrExt ''too many open files''), LStop, LCancel]"
  let ?s = "\<lparr>srv_closed = False, srv_conns = {0}, srv_wg = 1, srv_mu = None, lst_open = True,
     sock_open = {0},
     serve_at = SDraining (Inl (wrap_err ''accept local connection'' (ErrExt ''too many open files''))),
     handler_at = (\<lambda>_. HAbsent)(0 := HRunning), closer_at = (\<lambda>_. CIdle), after_at = Stopped,
     ctx_done = True\<rparr>"
  have "exec_labels conn_action ?ls new_conn_server = Some ?s"
    by (simp add: new_conn_server_def conn_action_defs serve_error_def)
  then have "reach conn_init conn_step ?s" by (rule conn_exec_reach)
  moreover have "\<not> conn_step ?s l s'" if "server_action l" for l s'
    using that by (cases l) (auto simp: conn_step_def conn_action_defs)
  ultimately show ?thesis by (intro exI [of _ ?s]) auto
qed

end
