(* ===== verification/Refinement.thy ===== *)
theory Refinement
  imports Prelude
begin

text \<open>
  Refinement of transition systems: what an observer sees of a run, and the contract of a forward
  simulation, under which everything observed of the detailed system may be observed of its specification.
\<close>

section \<open>Observed runs\<close>

text \<open>\<open>observed step obs s os t\<close>: a run from \<open>s\<close> to \<open>t\<close> shows \<open>os\<close>; a step shows any number of events.\<close>

inductive observed :: "('s \<Rightarrow> 'l \<Rightarrow> 's \<Rightarrow> bool) \<Rightarrow> ('s \<Rightarrow> 'l \<Rightarrow> 'o list) \<Rightarrow> 's \<Rightarrow> 'o list \<Rightarrow> 's \<Rightarrow> bool"
  for step :: "'s \<Rightarrow> 'l \<Rightarrow> 's \<Rightarrow> bool" and obs :: "'s \<Rightarrow> 'l \<Rightarrow> 'o list" where
  observed_nil: "observed step obs s [] s"
| observed_cons: "step s l t \<Longrightarrow> observed step obs t os u \<Longrightarrow> observed step obs s (obs s l @ os) u"

lemma observed_append: "observed step obs s os t \<Longrightarrow> observed step obs t ps u \<Longrightarrow> observed step obs s (os @ ps) u"
proof (induction rule: observed.induct)
  case (observed_cons s l t os u')
  then have "observed step obs t (os @ ps) u" by simp
  from observed.observed_cons [OF observed_cons.hyps(1) this] show ?case by simp
qed simp

lemma observed_one: "step s l t \<Longrightarrow> obs s l = os \<Longrightarrow> observed step obs s os t"
  using observed_cons [OF _ observed_nil, of step s l t obs] by simp

lemma observed_then: "step s l t \<Longrightarrow> obs s l = os \<Longrightarrow> observed step obs t ps u \<Longrightarrow> observed step obs s (os @ ps) u"
  using observed_cons [of step s l t obs ps u] by simp

lemma observed_path: "path step s ls t \<Longrightarrow> \<exists>os. observed step obs s os t"
  by (induction rule: path.induct) (blast intro: observed.intros)+

lemma observed_reach: "observed step obs s os t \<Longrightarrow> reach init step s \<Longrightarrow> reach init step t"
  by (induction rule: observed.induct) (auto intro: reach_step)

text \<open>A property of the specification that is stable along its runs.\<close>

lemma observed_stable:
  assumes "observed step obs s os t" and "P s"
    and "\<And>s l t. step s l t \<Longrightarrow> P s \<Longrightarrow> P t"
  shows "P t"
  using assms(1,2) by (induction rule: observed.induct) (auto intro: assms(3))

text \<open>Where steps show one event at most, a run can be cut at any event.\<close>

lemma observed_split:
  assumes "observed step obs s (us @ e # vs) u" and short: "\<And>s l. length (obs s l) \<le> 1"
  shows "\<exists>t l t'. observed step obs s us t \<and> step t l t' \<and> obs t l = [e] \<and> observed step obs t' vs u"
  using assms(1)
proof (induction s "us @ e # vs" u arbitrary: us rule: observed.induct)
  case (observed_cons s l t os u)
  show ?case
  proof (cases "obs s l")
    case Nil
    with observed_cons obtain v k v' where "observed step obs t us v" "step v k v'" "obs v k = [e]"
      "observed step obs v' vs u" by auto
    moreover have "observed step obs s us v"
      using observed_then [OF observed_cons.hyps(1) Nil \<open>observed step obs t us v\<close>] by simp
    ultimately show ?thesis by blast
  next
    case (Cons x xs)
    then have x: "obs s l = [x]" using short [of s l] by simp
    show ?thesis
    proof (cases us)
      case Nil
      with observed_cons.hyps(1,2,4) x show ?thesis by (auto intro: observed_nil)
    next
      case (Cons y ws)
      with x observed_cons.hyps(4) have y: "y = x" "os = ws @ e # vs" by simp_all
      from observed_cons.hyps(3) [OF y(2)] obtain v k v' where v: "observed step obs t ws v" "step v k v'"
        "obs v k = [e]" "observed step obs v' vs u" by blast
      have "observed step obs s us v"
        using observed_then [OF observed_cons.hyps(1) x v(1)] Cons y(1) by simp
      with v show ?thesis by blast
    qed
  qed
qed simp

section \<open>Simulation\<close>

locale simulation = invariant_system init step inv
  for init :: "'s \<Rightarrow> bool" and step :: "'s \<Rightarrow> 'l \<Rightarrow> 's \<Rightarrow> bool" and inv :: "'s \<Rightarrow> bool" +
  fixes obs :: "'s \<Rightarrow> 'l \<Rightarrow> 'o list"
    and spec_init :: "'a \<Rightarrow> bool"
    and spec_step :: "'a \<Rightarrow> 'k \<Rightarrow> 'a \<Rightarrow> bool"
    and spec_obs :: "'a \<Rightarrow> 'k \<Rightarrow> 'o list"
    and rel :: "'s \<Rightarrow> 'a \<Rightarrow> bool"
  assumes sim_init: "init s \<Longrightarrow> \<exists>p. spec_init p \<and> rel s p"
    and sim_step: "step s l t \<Longrightarrow> inv s \<Longrightarrow> rel s p \<Longrightarrow>
      \<exists>q. observed spec_step spec_obs p (obs s l) q \<and> rel t q"
begin

lemma observed_simulated:
  "observed step obs s os t \<Longrightarrow> inv s \<Longrightarrow> rel s p \<Longrightarrow> \<exists>q. observed spec_step spec_obs p os q \<and> rel t q"
proof (induction arbitrary: p rule: observed.induct)
  case (observed_nil s)
  then show ?case by (blast intro: observed.observed_nil)
next
  case (observed_cons s l t os u)
  from sim_step [OF observed_cons.hyps(1) observed_cons.prems] obtain q
    where q: "observed spec_step spec_obs p (obs s l) q" "rel t q" by blast
  from observed_cons.IH [OF inv_step [OF observed_cons.hyps(1) observed_cons.prems(1)] q(2)] q(1)
  show ?case by (blast intro: observed_append)
qed

lemma refines:
  assumes "init s" and "observed step obs s os t"
  shows "\<exists>p q. spec_init p \<and> observed spec_step spec_obs p os q \<and> rel t q"
  using sim_init [OF assms(1)] observed_simulated [OF assms(2) inv_init [OF assms(1)]] by blast

lemma observed_inv: "init s \<Longrightarrow> observed step obs s os t \<Longrightarrow> inv t"
  by (rule observed_stable [of step obs s os t inv]) (auto intro: inv_init inv_step)

lemma reach_related:
  assumes "reach init step s"
  shows "\<exists>p. reach spec_init spec_step p \<and> rel s p"
  using assms
proof (induction rule: reach.induct)
  case (reach_init s)
  then show ?case using sim_init by (blast intro: reach.reach_init)
next
  case (reach_step s l t)
  then obtain p where p: "reach spec_init spec_step p" "rel s p" by blast
  with sim_step [OF reach_step.hyps(2) reach_inv [OF reach_step.hyps(1)]] show ?case
    by (blast intro: observed_reach)
qed

end

section \<open>Executing and observing\<close>

fun exec_observed ::
    "('l \<Rightarrow> 's \<Rightarrow> 's option) \<Rightarrow> ('s \<Rightarrow> 'l \<Rightarrow> 'o list) \<Rightarrow> 'l list \<Rightarrow> 's \<Rightarrow> ('o list \<times> 's) option" where
  "exec_observed act obs [] s = Some ([], s)"
| "exec_observed act obs (l # ls) s =
     (case act l s of None \<Rightarrow> None | Some t \<Rightarrow> map_option (\<lambda>(os, u). (obs s l @ os, u)) (exec_observed act obs ls t))"

lemma exec_observed_run:
  "exec_observed act obs ls s = Some (os, t) \<Longrightarrow> observed (\<lambda>s l s'. act l s = Some s') obs s os t"
proof (induction ls arbitrary: s os)
  case (Cons l ls)
  then obtain u ps where u: "act l s = Some u" "exec_observed act obs ls u = Some (ps, t)" "os = obs s l @ ps"
    by (auto split: option.splits)
  from Cons.IH [OF u(2)] u(1,3) show ?case by (auto intro: observed_cons [where l = l])
qed (simp add: observed_nil)

lemma exec_observed_labels: "map_option snd (exec_observed act obs ls s) = exec_labels act ls s"
  by (induction ls arbitrary: s) (auto simp: option.map_comp comp_def case_prod_beta split: option.splits)

end
