(* ===== verification/ConnServerSpec.thy ===== *)
theory ConnServerSpec
  imports ConnServerInv Refinement
begin

text \<open>
  What the connection server promises the tunnel that runs it, as a scope: connections are handled
  only between its start and its closing, and \<open>Serve\<close> returns only when all handlers have. The
  server of \<open>internal/libs/server.go\<close> refines it: whatever a tunnel sees of the server, it may
  see of the scope.
\<close>

section \<open>The specification\<close>

datatype scope_phase = ScopeOpen | ScopeEnding "unit result" | ScopeOver "unit result"

record serve_scope =
  scope_at :: scope_phase
  scope_running :: "nat set"
  scope_started :: "nat set"
  scope_closed :: bool
  scope_cancelled :: bool

definition new_scope :: serve_scope where
  "new_scope = \<lparr>scope_at = ScopeOpen, scope_running = {}, scope_started = {}, scope_closed = False,
     scope_cancelled = False\<rparr>"

datatype scope_label = VStart nat | VEnd nat | VClose | VCancel | VStop "unit result" | VReturn

text \<open>The scope may end without an error once it is closed or cancelled, with one while it is not cancelled.\<close>

definition may_end :: "serve_scope \<Rightarrow> unit result \<Rightarrow> bool" where
  "may_end p r = (case r of Inr _ \<Rightarrow> scope_closed p \<or> scope_cancelled p | Inl _ \<Rightarrow> \<not> scope_cancelled p)"

fun scope_action :: "scope_label \<Rightarrow> serve_scope \<Rightarrow> serve_scope option" where
  "scope_action (VStart c) p =
     (if scope_at p = ScopeOpen \<and> \<not> scope_closed p \<and> c \<notin> scope_started p
      then Some (p\<lparr>scope_running := insert c (scope_running p), scope_started := insert c (scope_started p)\<rparr>)
      else None)"
| "scope_action (VEnd c) p =
     (if c \<in> scope_running p then Some (p\<lparr>scope_running := scope_running p - {c}\<rparr>) else None)"
| "scope_action VClose p = (if scope_closed p then None else Some (p\<lparr>scope_closed := True\<rparr>))"
| "scope_action VCancel p = (if scope_cancelled p then None else Some (p\<lparr>scope_cancelled := True\<rparr>))"
| "scope_action (VStop r) p =
     (if scope_at p = ScopeOpen \<and> may_end p r then Some (p\<lparr>scope_at := ScopeEnding r\<rparr>) else None)"
| "scope_action VReturn p =
     (case scope_at p of
        ScopeEnding r \<Rightarrow> if scope_running p = {} then Some (p\<lparr>scope_at := ScopeOver r\<rparr>) else None
      | _ \<Rightarrow> None)"

definition scope_step :: "serve_scope \<Rightarrow> scope_label \<Rightarrow> serve_scope \<Rightarrow> bool" where
  "scope_step p l q = (scope_action l p = Some q)"

definition scope_init :: "serve_scope \<Rightarrow> bool" where
  "scope_init p \<longleftrightarrow> p = new_scope"

section \<open>What the tunnel sees\<close>

datatype serve_event =
    Handling nat | Handled nat | Closing | Cancelled | ServeReturned "unit result"

fun scope_obs :: "serve_scope \<Rightarrow> scope_label \<Rightarrow> serve_event list" where
  "scope_obs p (VStart c) = [Handling c]"
| "scope_obs p (VEnd c) = [Handled c]"
| "scope_obs p VClose = [Closing]"
| "scope_obs p VCancel = [Cancelled]"
| "scope_obs p (VStop r) = []"
| "scope_obs p VReturn = (case scope_at p of ScopeEnding r \<Rightarrow> [ServeReturned r] | _ \<Rightarrow> [])"

fun conn_obs :: "conn_server \<Rightarrow> conn_label \<Rightarrow> serve_event list" where
  "conn_obs s LRegister =
     (case serve_at s of SAccepted c \<Rightarrow> if srv_closed s then [] else [Handling c] | _ \<Rightarrow> [])"
| "conn_obs s (LHandlerReturn c) = [Handled c]"
| "conn_obs s (LCloseEnter k) = (if srv_closed s then [] else [Closing])"
| "conn_obs s LCancel = [Cancelled]"
| "conn_obs s LReturn = (case serve_at s of SDraining r \<Rightarrow> [ServeReturned r] | _ \<Rightarrow> [])"
| "conn_obs s l = []"

section \<open>The simulation\<close>

fun phase_of :: "serve_pc \<Rightarrow> scope_phase" where
  "phase_of SAccepting = ScopeOpen"
| "phase_of (SAccepted c) = ScopeOpen"
| "phase_of (SRejecting c) = ScopeOpen"
| "phase_of (SStopping r) = ScopeEnding r"
| "phase_of (SDraining r) = ScopeEnding r"
| "phase_of (SReturned r) = ScopeOver r"

definition scope_of :: "conn_server \<Rightarrow> serve_scope" where
  "scope_of s =
     \<lparr>scope_at = phase_of (serve_at s), scope_running = {c. handler_at s c = HRunning},
      scope_started = {c. handler_at s c \<noteq> HAbsent}, scope_closed = srv_closed s,
      scope_cancelled = ctx_done s\<rparr>"

lemmas scope_observed_one = observed_one [where step = scope_step and obs = scope_obs]

lemma scope_of_eqI:
  assumes "phase_of (serve_at t) = phase_of (serve_at s)" "srv_closed t = srv_closed s" "ctx_done t = ctx_done s"
    and "\<And>c. handler_at t c = HRunning \<longleftrightarrow> handler_at s c = HRunning"
    and "\<And>c. handler_at t c = HAbsent \<longleftrightarrow> handler_at s c = HAbsent"
  shows "scope_of t = scope_of s"
  using assms by (simp add: scope_of_def)

text \<open>Steps the tunnel does not see, and the others.\<close>

lemma scope_quiet:
  assumes "conn_step s l t" and "l \<in> {LRegister, LStop, LFire, LCallerClose} \<union> range LAccept \<union>
      range (case_prod LCloseOne) \<union> range LCloseLeave \<union> range LRunClose \<union> range LRunForget \<union> range LRunDone \<union> range LCloseEnter"
    and "conn_obs s l = []"
  shows "scope_of t = scope_of s"
  by (rule scope_of_eqI)
    (use assms in \<open>auto simp: conn_step_def conn_action_defs split: if_split_asm serve_pc.split_asm close_pc.split_asm\<close>)

abbreviation scope_matched :: "conn_server \<Rightarrow> conn_label \<Rightarrow> conn_server \<Rightarrow> bool" where
  "scope_matched s l t \<equiv> observed scope_step scope_obs (scope_of s) (conn_obs s l) (scope_of t)"

lemma matched_quiet: "scope_of t = scope_of s \<Longrightarrow> conn_obs s l = [] \<Longrightarrow> scope_matched s l t"
  by (simp add: observed_nil)

lemma matched_one:
  "scope_action k (scope_of s) = Some (scope_of t) \<Longrightarrow> scope_obs (scope_of s) k = conn_obs s l \<Longrightarrow>
   scope_matched s l t"
  by (rule scope_observed_one [where l = k]) (simp_all add: scope_step_def)

lemma match_register:
  assumes "conn_step s LRegister t" and inv: "count_inv s"
  shows "scope_matched s LRegister t"
proof (cases "conn_obs s LRegister = []")
  case True
  with assms(1) show ?thesis by (intro matched_quiet scope_quiet) auto
next
  case False
  then obtain c where c: "serve_at s = SAccepted c" "\<not> srv_closed s"
    by (auto split: serve_pc.splits if_split_asm)
  then have "handler_at s c = HAbsent" using inv by (auto simp: count_inv_def pending_conn_def)
  with assms(1) c show ?thesis
    by (intro matched_one [where k = "VStart c"])
      (auto simp: conn_step_def serve_register_def scope_of_def split: if_split_asm)
qed

lemma match_handled:
  "handler_return c s = Some t \<Longrightarrow> conn_obs s l = [Handled c] \<Longrightarrow> scope_matched s l t"
  by (rule matched_one [where k = "VEnd c"]) (auto simp: handler_return_def scope_of_def split: if_split_asm)

lemma match_stop:
  assumes "conn_step s l t" and "l = LReject \<or> l = LAcceptClosed \<or> l = LAcceptFail e" and inv: "lock_inv s"
  shows "scope_matched s l t"
proof -
  from assms(1,2) lock_invD(2,3) [OF inv] obtain r where r: "phase_of (serve_at s) = ScopeOpen"
    "phase_of (serve_at t) = ScopeEnding r" "may_end (scope_of s) r" and "srv_closed t = srv_closed s"
    "ctx_done t = ctx_done s" "handler_at t = handler_at s"
    by (auto simp: conn_step_def serve_reject_def accept_closed_def accept_fail_def serve_error_def may_end_def
        scope_of_def split: serve_pc.split_asm if_split_asm)
  then have "scope_action (VStop r) (scope_of s) = Some (scope_of t)" by (simp add: scope_of_def)
  then show ?thesis by (rule matched_one) (use assms(2) in auto)
qed

lemma match_return:
  assumes "conn_step s LReturn t" and inv: "count_inv s"
  shows "scope_matched s LReturn t"
proof -
  from assms(1) obtain r where r: "serve_at s = SDraining r" "srv_wg s = 0" "t = s\<lparr>serve_at := SReturned r\<rparr>"
    by (auto simp: conn_step_def serve_return_def split: serve_pc.split_asm if_split_asm)
  have "handler_at s c \<noteq> HRunning" for c using drained_handlers [OF inv r(2), of c] by auto
  with r show ?thesis by (intro matched_one [where k = VReturn]) (auto simp: scope_of_def)
qed

lemma match_shut:
  assumes "conn_step s (LCloseEnter k) t"
  shows "scope_matched s (LCloseEnter k) t"
proof (cases "srv_closed s")
  case True
  with assms show ?thesis by (intro matched_quiet scope_quiet) auto
next
  case False
  with assms show ?thesis
    by (intro matched_one [where k = VClose])
      (auto simp: conn_step_def close_enter_def scope_of_def split: if_split_asm)
qed

lemma match_cancelled: "conn_step s LCancel t \<Longrightarrow> scope_matched s LCancel t"
  by (rule matched_one [where k = VCancel])
    (auto simp: conn_step_def ctx_cancel_def scope_of_def split: if_split_asm)

lemma conn_step_matched:
  assumes "conn_step s l t" and "conn_inv s"
  shows "scope_matched s l t"
proof -
  have inv: "count_inv s" "lock_inv s" using assms(2) by (simp_all add: conn_inv_def)
  have quiet: "l \<in> {LStop, LFire, LCallerClose} \<union> range LAccept \<union> range (case_prod LCloseOne) \<union>
      range LCloseLeave \<union> range LRunClose \<union> range LRunForget \<union> range LRunDone \<Longrightarrow> scope_matched s l t"
    by (rule matched_quiet [OF scope_quiet [OF assms(1)]]) auto
  show ?thesis
  proof (cases l)
    case (LHandlerReturn c)
    with assms(1) show ?thesis by (intro match_handled [of c]) (auto simp: conn_step_def)
  next
    case (LCloseOne k c)
    then have "l \<in> range (case_prod LCloseOne)" by (simp add: image_iff)
    then show ?thesis using quiet by blast
  qed (use assms(1) inv quiet match_register match_stop match_return match_shut match_cancelled in blast)+
qed

interpretation conn_sim: simulation conn_init conn_step conn_inv conn_obs scope_init scope_step scope_obs
  "\<lambda>s p. p = scope_of s"
proof unfold_locales
  show "conn_init s \<Longrightarrow> \<exists>p. scope_init p \<and> p = scope_of s" for s
    by (simp add: conn_init_def scope_init_def scope_of_def new_conn_server_def new_scope_def)
qed (auto intro: conn_step_matched)

section \<open>What the specification says\<close>

lemma scope_obs_short: "length (scope_obs p l) \<le> 1"
  by (cases l) (auto split: scope_phase.split)

text \<open>After its closing, and after its return, a scope starts nothing.\<close>

definition shut_scope :: "serve_scope \<Rightarrow> bool" where
  "shut_scope p \<longleftrightarrow> scope_closed p \<or> (\<exists>r. scope_at p = ScopeOver r)"

lemma shut_scope_step:
  "scope_step p l q \<Longrightarrow> shut_scope p \<Longrightarrow> shut_scope q \<and> Handling c \<notin> set (scope_obs p l)"
  by (cases l) (auto simp: scope_step_def shut_scope_def split: if_split_asm scope_phase.split_asm scope_phase.split)

lemma shut_scope_run: "observed scope_step scope_obs p os q \<Longrightarrow> shut_scope p \<Longrightarrow> Handling c \<notin> set os"
  by (induction rule: observed.induct) (simp_all, use shut_scope_step in blast)

lemma scope_ends:
  assumes "scope_step p l q" and "e \<in> set (scope_obs p l)" and "e = Closing \<or> e = ServeReturned r"
  shows "shut_scope q"
  using assms by (cases l) (auto simp: scope_step_def shut_scope_def split: if_split_asm scope_phase.split_asm)

text \<open>What started is running or has ended.\<close>

lemma scope_running_step:
  "scope_step p l q \<Longrightarrow> c \<in> scope_running p \<or> Handling c \<in> set (scope_obs p l) \<Longrightarrow>
   c \<in> scope_running q \<or> Handled c \<in> set (scope_obs p l)"
  by (cases l) (auto simp: scope_step_def split: if_split_asm scope_phase.split_asm)

lemma scope_running_run:
  "observed scope_step scope_obs p os q \<Longrightarrow> c \<in> scope_running p \<or> Handling c \<in> set os \<Longrightarrow>
   c \<in> scope_running q \<or> Handled c \<in> set os"
proof (induction rule: observed.induct)
  case (observed_cons p l q os u)
  then show ?case using scope_running_step [OF observed_cons.hyps(1), of c] by auto
qed simp

lemma scope_bracket:
  assumes run: "observed scope_step scope_obs p (us @ e # vs) q" and e: "e = Closing \<or> e = ServeReturned r"
  shows "Handling c \<notin> set vs" and "e = ServeReturned r \<Longrightarrow> Handling c \<in> set us \<Longrightarrow> Handled c \<in> set us"
proof -
  from observed_split [OF run scope_obs_short] obtain t l t' where
    us: "observed scope_step scope_obs p us t" and l: "scope_step t l t'" "scope_obs t l = [e]" and
    vs: "observed scope_step scope_obs t' vs q" by blast
  show "Handling c \<notin> set vs"
    by (rule shut_scope_run [OF vs scope_ends [OF l(1) _ e]]) (simp add: l(2))
  show "Handled c \<in> set us" if "e = ServeReturned r" "Handling c \<in> set us"
  proof -
    have "scope_running t = {}"
      using l that(1) by (cases l) (auto simp: scope_step_def split: scope_phase.split_asm if_split_asm)
    then show ?thesis using scope_running_run [OF us] that(2) by blast
  qed
qed

section \<open>Handlers only move on\<close>

lemma handler_moves_on:
  assumes "conn_step s l t" and "conn_inv s"
  shows "handler_at s c \<le> handler_at t c"
proof -
  have "handler_at s d = HAbsent" if "serve_at s = SAccepted d" for d
    using assms(2) that by (auto simp: conn_inv_def count_inv_def pending_conn_def)
  with assms(1) show ?thesis
    by (cases l; auto simp: conn_step_def conn_action_defs less_eq_handler_pc_def
        split: if_split_asm serve_pc.split_asm close_pc.split_asm)
qed

lemma handlers_move_on: "path conn_step s ls t \<Longrightarrow> conn_inv s \<Longrightarrow> handler_at s c \<le> handler_at t c"
proof (induction rule: path.induct)
  case (path_cons s l t ls u)
  then show ?case using handler_moves_on [of s l t c] conn_inv_step [of s l t] by (metis order_trans)
qed simp

text \<open>Once a handler is over, its connection is never handled again.\<close>

lemma handled_once:
  assumes "path conn_step s ls t" and "conn_inv s" and "handler_at s c = HDone"
  shows "handler_at t c = HDone"
  using handlers_move_on [OF assms(1,2), of c] assms(3)
  by (cases "handler_at t c") (simp_all add: less_eq_handler_pc_def)

section \<open>Properties\<close>

text \<open>C6: The server refines a scope. Whatever is seen of a run of the server, in handlers that start and
  end, the closing, the cancellation and the return of \<open>Serve\<close>, may be seen of the specification. So no
  handler starts after the closing or the return, and when \<open>Serve\<close> returns every handler that started
  has ended.\<close>

theorem server_refines_scope:
  assumes "conn_init s" and "observed conn_step conn_obs s os t"
  shows "observed scope_step scope_obs new_scope os (scope_of t) \<and>
    (\<forall>us vs c. os = us @ Closing # vs \<longrightarrow> Handling c \<notin> set vs) \<and>
    (\<forall>us r vs c. os = us @ ServeReturned r # vs \<longrightarrow>
       Handling c \<notin> set vs \<and> (Handling c \<in> set us \<longrightarrow> Handled c \<in> set us))"
proof -
  have run: "observed scope_step scope_obs new_scope os (scope_of t)"
    using conn_sim.refines [OF assms] by (auto simp: scope_init_def)
  moreover have "Handling c \<notin> set vs" if "os = us @ Closing # vs" for us vs c
    by (rule scope_bracket(1) [OF run [unfolded that]]) simp
  moreover have "Handling c \<notin> set vs \<and> (Handling c \<in> set us \<longrightarrow> Handled c \<in> set us)"
    if "os = us @ ServeReturned r # vs" for us r vs c
    using scope_bracket [OF run [unfolded that], of r c] by simp
  ultimately show ?thesis by blast
qed

theorem server_refines_scope_witness:
  "\<exists>t. observed scope_step scope_obs new_scope
     [Handling 7, Handling 8, Handled 8, Cancelled, Closing, Handled 7, ServeReturned (Inr ())] t \<and>
     scope_at t = ScopeOver (Inr ())"
proof -
  let ?os = "[Handling 7, Handling 8, Handled 8, Cancelled, Closing, Handled 7, ServeReturned (Inr ())]"
  obtain t where t: "exec_observed conn_action conn_obs clean_run new_conn_server = Some (?os, t)"
    "serve_at t = SReturned (Inr ())"
    by (simp add: clean_run_def new_conn_server_def conn_action_defs serve_error_def insert_Diff_if)
  have "observed conn_step conn_obs new_conn_server ?os t"
    using exec_observed_run [OF t(1)] unfolding conn_step_def .
  then have "observed scope_step scope_obs new_scope ?os (scope_of t)"
    using server_refines_scope [of new_conn_server ?os t] by (simp add: conn_init_def)
  with t(2) show ?thesis by (auto simp: scope_of_def)
qed

end
