(* ===== verification/Streams.thy ===== *)
theory Streams
  imports Prelude "HOL-Library.Word"
begin

text \<open>
  Byte streams: the contracts of \<open>io.Reader\<close> and \<open>io.Writer\<close> as locales, \<open>io.Copy\<close>, and what
  the contracts give about it (it returns once its source has ended, delivers everything on success and a
  prefix on failure). A TCP connection is a reader and a writer; the WebSocket adapter of
  \<open>AzureStream\<close> is another.
\<close>

type_synonym bytes = "8 word list"

text \<open>A read on an open stream without data waits: \<open>None\<close>. A write returns, with an error or without.\<close>

type_synonym 's read_fun = "'s \<Rightarrow> nat \<Rightarrow> ((bytes \<times> go_error option) \<times> 's) option"
type_synonym 'd write_fun = "'d \<Rightarrow> bytes \<Rightarrow> (nat \<times> go_error option) \<times> 'd"

section \<open>io.Copy\<close>

text \<open>
  The loop of \<open>io.Copy\<close> with its 32 KiB buffer. The result is the error (\<open>None\<close> at the end of
  the source) and the two streams; it does not return when a read waits for good, or when the source never ends.
\<close>

definition copy_buffer :: nat where
  "copy_buffer = 32768"

definition end_of_copy :: "go_error \<Rightarrow> go_error option" where
  "end_of_copy e = (if e = ErrEOF then None else Some e)"

partial_function (option) io_copy ::
  "'s read_fun \<Rightarrow> 'd write_fun \<Rightarrow> 's \<Rightarrow> 'd \<Rightarrow> (go_error option \<times> 's \<times> 'd) option" where
  "io_copy rd wr s d =
     (case rd s copy_buffer of
        None \<Rightarrow> None
      | Some ((bs, er), s') \<Rightarrow>
        if bs = []
        then (case er of None \<Rightarrow> io_copy rd wr s' d | Some e \<Rightarrow> Some (end_of_copy e, s', d))
        else (case wr d bs of ((n, ew), d') \<Rightarrow>
          (case ew of
             Some e \<Rightarrow> Some (Some e, s', d')
           | None \<Rightarrow>
               if n \<noteq> length bs then Some (Some (ErrNew ''short write''), s', d')
               else (case er of None \<Rightarrow> io_copy rd wr s' d'
                       | Some e \<Rightarrow> Some (end_of_copy e, s', d')))))"

text \<open>Reads into buffers of the given sizes, until one of them reports an error.\<close>

fun read_all :: "'s read_fun \<Rightarrow> nat list \<Rightarrow> 's \<Rightarrow> ((bytes \<times> go_error option) \<times> 's) option" where
  "read_all rd [] s = Some (([], None), s)"
| "read_all rd (k # ks) s =
     (case rd s k of
        None \<Rightarrow> None
      | Some ((bs, Some e), s') \<Rightarrow> Some ((bs, Some e), s')
      | Some ((bs, None), s') \<Rightarrow> map_option (\<lambda>((cs, e), t). ((bs @ cs, e), t)) (read_all rd ks s'))"

section \<open>Contracts\<close>

text \<open>
  \<open>io.Writer\<close>: a write reports how many bytes of the buffer it took, and takes all of them when
  it reports no error. \<open>sent d\<close> is what has been written to \<open>d\<close>.
\<close>

locale byte_writer =
  fixes wr :: "'d write_fun" and sent :: "'d \<Rightarrow> bytes"
  assumes write_taken: "wr d bs = ((n, e), d') \<Longrightarrow> n \<le> length bs \<and> sent d' = sent d @ take n bs"
    and write_all: "wr d bs = ((n, None), d') \<Longrightarrow> n = length bs"

text \<open>
  \<open>io.Reader\<close>: a read returns the next bytes of the stream, at most as many as asked for; the end
  of the stream is reported when nothing is left; every read without an error makes progress, and a
  read waits only on a stream that has no end. \<open>remaining s\<close> is what the stream still delivers, \<open>todo s\<close>
  bounds the reads that return, and \<open>ends s\<close> says that the stream ends or fails after it.
\<close>

locale byte_reader =
  fixes rd :: "'s read_fun" and remaining :: "'s \<Rightarrow> bytes" and todo :: "'s \<Rightarrow> nat" and ends :: "'s \<Rightarrow> bool"
  assumes read_next: "0 < k \<Longrightarrow> rd s k = Some ((bs, e), s') \<Longrightarrow>
      length bs \<le> k \<and> remaining s = bs @ remaining s' \<and> (ends s' \<longleftrightarrow> ends s)"
    and read_eof: "0 < k \<Longrightarrow> rd s k = Some ((bs, Some x), s') \<Longrightarrow> ends s \<and> (x = ErrEOF \<longrightarrow> remaining s' = [])"
    and read_progress: "0 < k \<Longrightarrow> rd s k = Some ((bs, None), s') \<Longrightarrow> todo s' < todo s"
    and read_waits: "0 < k \<Longrightarrow> rd s k = None \<Longrightarrow> \<not> ends s"
begin

lemma read_all_next:
  "read_all rd ks s = Some ((bs, e), t) \<Longrightarrow> \<forall>k \<in> set ks. 0 < k \<Longrightarrow>
     remaining s = bs @ remaining t \<and> (e = Some ErrEOF \<longrightarrow> remaining t = [])"
proof (induction ks arbitrary: s bs)
  case (Cons k ks)
  then obtain cs er u where r: "rd s k = Some ((cs, er), u)" by (auto split: option.splits)
  note one = read_next [OF _ r]
  show ?case
  proof (cases er)
    case None
    with Cons.prems r obtain ds where "read_all rd ks u = Some ((ds, e), t)" "bs = cs @ ds" by auto
    with Cons.IH [of u ds] Cons.prems(2) one show ?thesis by simp
  next
    case (Some x)
    with Cons.prems r one read_eof [of k s cs x u] show ?thesis by auto
  qed
qed simp

lemma read_all_returns: "ends s \<Longrightarrow> \<forall>k \<in> set ks. 0 < k \<Longrightarrow> \<exists>r. read_all rd ks s = Some r"
proof (induction ks arbitrary: s)
  case (Cons k ks)
  then have k: "0 < k" by simp
  obtain bs er u where r: "rd s k = Some ((bs, er), u)"
    using read_waits [OF k, of s] Cons.prems(1) by (cases "rd s k") auto
  with Cons.IH [of u] read_next [OF k r] Cons.prems show ?case by (cases er) auto
qed simp

lemma read_all_ends:
  "ends s \<Longrightarrow> \<forall>k \<in> set ks. 0 < k \<Longrightarrow> todo s < length ks \<Longrightarrow>
     \<exists>bs e t. read_all rd ks s = Some ((bs, Some e), t)"
proof (induction ks arbitrary: s)
  case (Cons k ks)
  then have k: "0 < k" by simp
  obtain bs er u where r: "rd s k = Some ((bs, er), u)"
    using read_waits [OF k, of s] Cons.prems(1) by (cases "rd s k") auto
  show ?case
  proof (cases er)
    case None
    with read_progress [OF k] r Cons.prems have "todo u < length ks" by fastforce
    with Cons.IH [of u] read_next [OF k r] Cons.prems obtain cs e t
      where "read_all rd ks u = Some ((cs, Some e), t)" by auto
    with r None show ?thesis by simp
  qed (use r in simp)
qed simp

end

locale byte_copy = byte_reader rd remaining todo ends + byte_writer wr sent
  for rd :: "'s read_fun" and remaining :: "'s \<Rightarrow> bytes" and todo :: "'s \<Rightarrow> nat" and ends :: "'s \<Rightarrow> bool"
    and wr :: "'d write_fun" and sent :: "'d \<Rightarrow> bytes"
begin

lemma copy_buffer_pos: "0 < copy_buffer"
  by (simp add: copy_buffer_def)

text \<open>What a copy has done when it returns, and what is sure when its source ends.\<close>

definition copied :: "'s \<Rightarrow> 'd \<Rightarrow> go_error option \<times> 's \<times> 'd \<Rightarrow> bool" where
  "copied s d r = (case r of (e, s', d') \<Rightarrow>
     (\<exists>k. sent d' = sent d @ take k (remaining s)) \<and>
     (e = None \<longrightarrow> ends s \<and> sent d' = sent d @ remaining s \<and> remaining s' = []))"

lemma copied_end:
  assumes "rd s copy_buffer = Some ((bs, Some e), s')" and "sent d' = sent d @ bs"
  shows "copied s d (end_of_copy e, s', d')"
  using read_next [OF copy_buffer_pos assms(1)] read_eof [OF copy_buffer_pos assms(1)] assms(2)
  by (auto simp: copied_def end_of_copy_def intro: exI [of _ "length bs"])

lemma copied_more:
  assumes "rd s copy_buffer = Some ((bs, None), s')" and "sent d' = sent d @ bs" and "copied s' d' r"
  shows "copied s d r"
proof -
  obtain e u v where r: "r = (e, u, v)" by (metis prod.collapse)
  note one = read_next [OF copy_buffer_pos assms(1)]
  from assms(3) obtain k where "sent v = sent d' @ take k (remaining s')" by (auto simp: copied_def r)
  with assms(2) one have "sent v = sent d @ take (length bs + k) (remaining s)" by simp
  then have "\<exists>j. sent v = sent d @ take j (remaining s)" by blast
  with assms(2,3) one show ?thesis by (simp add: copied_def r)
qed

lemma copy_spec: "(\<forall>r. io_copy rd wr s d = Some r \<longrightarrow> copied s d r) \<and> (ends s \<longrightarrow> io_copy rd wr s d \<noteq> None)"
proof (induction "todo s" arbitrary: s d rule: less_induct)
  case less
  show ?case
  proof (cases "rd s copy_buffer")
    case None
    then show ?thesis using read_waits [OF copy_buffer_pos] by (simp add: io_copy.simps [of rd wr s d])
  next
    case (Some q)
    then obtain bs er s1 where r: "rd s copy_buffer = Some ((bs, er), s1)" by (metis prod.collapse)
    note one = read_next [OF copy_buffer_pos r] and step = io_copy.simps [of rd wr s d]
    have more: "(\<forall>r. io_copy rd wr s d = Some r \<longrightarrow> copied s d r) \<and> (ends s \<longrightarrow> io_copy rd wr s d \<noteq> None)"
      if "io_copy rd wr s d = io_copy rd wr s1 d1" "er = None" "sent d1 = sent d @ bs" for d1
    proof -
      have "todo s1 < todo s" using read_progress [OF copy_buffer_pos] r that(2) by blast
      from less.hyps [OF this, of d1] that one copied_more [of s bs s1 d1 d] r show ?thesis by auto
    qed
    show ?thesis
    proof (cases "bs = []")
      case True
      show ?thesis
      proof (cases er)
        case None
        with step r True more [of d] show ?thesis by simp
      next
        case (Some e)
        with step r True copied_end [of s bs e s1 d d] show ?thesis by simp
      qed
    next
      case False
      obtain n ew d1 where w: "wr d bs = ((n, ew), d1)" by (metis prod.collapse)
      note taken = write_taken [OF w]
      then have part: "sent d1 = sent d @ take n (remaining s)" using one by simp
      show ?thesis
      proof (cases ew)
        case (Some e)
        with step r w False part show ?thesis by (auto simp: copied_def)
      next
        case ok: None
        then have n: "n = length bs" using write_all w by blast
        with taken have all: "sent d1 = sent d @ bs" by simp
        show ?thesis
        proof (cases er)
          case None
          with step r w False ok n more [of d1] all show ?thesis by simp
        next
          case (Some e)
          with step r w False ok n copied_end [of s bs e s1 d1 d] all show ?thesis by simp
        qed
      qed
    qed
  qed
qed

lemma copy_result:
  assumes "io_copy rd wr s d = Some (e, s', d')"
  shows "\<exists>k. sent d' = sent d @ take k (remaining s)"
    and "e = None \<Longrightarrow> ends s \<and> sent d' = sent d @ remaining s \<and> remaining s' = []"
  using copy_spec [of s d] assms by (auto simp: copied_def)

lemma copy_returns: "ends s \<Longrightarrow> \<exists>r. io_copy rd wr s d = Some r"
  using copy_spec [of s d] by auto

end

section \<open>A TCP connection\<close>

text \<open>
  The local end of a tunnel, as its peer and the network drive it: the chunks that will arrive, what
  comes after them (the end of the stream, an error, or nothing: the peer is idle and a read waits), the
  number of bytes the connection still takes before a write fails, and what has been written.
\<close>

record tcp_conn =
  tcp_in :: "bytes list"
  tcp_end :: "go_error option"
  tcp_room :: nat
  tcp_out :: bytes

fun tcp_read :: "tcp_conn read_fun" where
  "tcp_read c k =
     (case tcp_in c of
        [] \<Rightarrow> map_option (\<lambda>e. (([], Some e), c)) (tcp_end c)
      | b # bs \<Rightarrow>
          Some ((take k b, None), c\<lparr>tcp_in := (if drop k b = [] then bs else drop k b # bs)\<rparr>))"

fun tcp_write :: "tcp_conn write_fun" where
  "tcp_write c bs =
     ((min (tcp_room c) (length bs),
       if length bs \<le> tcp_room c then None else Some (ErrExt ''broken pipe'')),
      c\<lparr>tcp_room := tcp_room c - length bs, tcp_out := tcp_out c @ take (tcp_room c) bs\<rparr>)"

definition tcp_remaining :: "tcp_conn \<Rightarrow> bytes" where
  "tcp_remaining c = concat (tcp_in c)"

definition tcp_todo :: "tcp_conn \<Rightarrow> nat" where
  "tcp_todo c = length (tcp_in c) + length (concat (tcp_in c))"

definition tcp_ends :: "tcp_conn \<Rightarrow> bool" where
  "tcp_ends c \<longleftrightarrow> tcp_end c \<noteq> None"

interpretation tcp_writer: byte_writer tcp_write tcp_out
  by unfold_locales (auto split: if_splits simp: min_def)

interpretation tcp_reader: byte_reader tcp_read tcp_remaining tcp_todo tcp_ends
  by unfold_locales (auto simp: tcp_remaining_def tcp_todo_def tcp_ends_def split: list.splits if_splits)

end
