(* ===== verification/Relay.thy ===== *)
theory Relay
  imports Streams
begin

text \<open>
  The relay of \<open>internal/libs/relay.go\<close>: two pumps, one per direction, and the goroutine that
  runs the second one and then waits, with or without a grace period. A step is one call on a
  stream or one channel operation.
\<close>

section \<open>State\<close>

datatype side = SideA | SideB

fun other :: "side \<Rightarrow> side" where
  "other SideA = SideB"
| "other SideB = SideA"

text \<open>
  A stream: whether its type has \<open>CloseWrite\<close> (\<open>halfCloser\<close>), whether a read after \<open>Close\<close>
  reports the end of the stream instead of an error (\<open>wsStream\<close> does), whether it is open, and
  the bytes it has taken.
\<close>

record relay_stream =
  ep_half :: bool
  ep_masks :: bool
  ep_open :: bool
  ep_wr :: bool
  ep_out :: bytes

text \<open>
  A pump (\<open>pipe(dst, src)\<close>, named by its source): reading; holding bytes to write; about to close
  the destination, then the source, after an error; about to half-close the destination at the
  end of the source; finished, and whether the source had ended.
\<close>

datatype pump_pc = PRead | PWrite bytes | PFailDst | PFailSrc | PEof | PDone bool

text \<open>
  \<open>RelayDrain\<close>: running its own pump, waiting with the grace timer, waiting without it, closing
  \<open>a\<close>, closing \<open>b\<close>, returned. \<open>relay_failed\<close> records that some call failed or that another
  goroutine closed a stream.
\<close>

datatype main_pc = MPump | MGrace | MWait | MCloseA | MCloseB | MReturned

record relay =
  ep :: "side \<Rightarrow> relay_stream"
  pump :: "side \<Rightarrow> pump_pc"
  taken :: "side \<Rightarrow> bytes"
  main_at :: main_pc
  grace :: bool
  timer_fired :: bool
  relay_failed :: bool

definition fresh_endpoint :: "bool \<Rightarrow> bool \<Rightarrow> relay_stream" where
  "fresh_endpoint half masks =
     \<lparr>ep_half = half, ep_masks = masks, ep_open = True, ep_wr = True, ep_out = []\<rparr>"

text \<open>\<open>RelayDrain(a, b, g)\<close> entered, both pumps started; \<open>Relay\<close> is the case without grace.\<close>

definition RelayDrain :: "relay_stream \<Rightarrow> relay_stream \<Rightarrow> bool \<Rightarrow> relay" where
  "RelayDrain a b g =
     \<lparr>ep = (\<lambda>x. case x of SideA \<Rightarrow> a | SideB \<Rightarrow> b), pump = (\<lambda>_. PRead), taken = (\<lambda>_. []),
      main_at = MPump, grace = g, timer_fired = False, relay_failed = False\<rparr>"

definition Relay :: "relay_stream \<Rightarrow> relay_stream \<Rightarrow> relay" where
  "Relay a b = RelayDrain a b False"

definition relay_init :: "relay \<Rightarrow> bool" where
  "relay_init s = (\<exists>ha ma hb mb g. s = RelayDrain (fresh_endpoint ha ma) (fresh_endpoint hb mb) g)"

section \<open>Actions\<close>

definition close_ep :: "side \<Rightarrow> relay \<Rightarrow> relay" where
  "close_ep x s = s\<lparr>ep := (ep s)(x := (ep s x)\<lparr>ep_open := False\<rparr>)\<rparr>"

definition set_pump :: "side \<Rightarrow> pump_pc \<Rightarrow> relay \<Rightarrow> relay" where
  "set_pump x p s = s\<lparr>pump := (pump s)(x := p)\<rparr>"

definition take_bytes :: "side \<Rightarrow> bytes \<Rightarrow> relay \<Rightarrow> relay" where
  "take_bytes x bs s = s\<lparr>ep := (ep s)(x := (ep s x)\<lparr>ep_out := ep_out (ep s x) @ bs\<rparr>)\<rparr>"

definition fail_pump :: "side \<Rightarrow> relay \<Rightarrow> relay" where
  "fail_pump x s = set_pump x PFailDst (s\<lparr>relay_failed := True\<rparr>)"

text \<open>\<open>io.Copy\<close>: a read returns bytes, the end of the stream, or an error, when the peer makes it; a write
  takes the bytes or fails after some of them. A write that blocks for good is a pump whose next action
  (\<open>pump_write\<close> or \<open>pump_write_error\<close>) is never taken.\<close>

definition pump_read :: "side \<Rightarrow> bytes \<Rightarrow> relay \<Rightarrow> relay option" where
  "pump_read x bs s =
     (if pump s x = PRead \<and> ep_open (ep s x) \<and> bs \<noteq> []
      then Some (set_pump x (PWrite bs) (s\<lparr>taken := (taken s)(x := taken s x @ bs)\<rparr>))
      else None)"

definition pump_eof :: "side \<Rightarrow> relay \<Rightarrow> relay option" where
  "pump_eof x s = (if pump s x = PRead \<and> ep_open (ep s x) then Some (set_pump x PEof s) else None)"

definition pump_read_error :: "side \<Rightarrow> relay \<Rightarrow> relay option" where
  "pump_read_error x s = (if pump s x = PRead \<and> ep_open (ep s x) then Some (fail_pump x s) else None)"

definition pump_read_closed :: "side \<Rightarrow> relay \<Rightarrow> relay option" where
  "pump_read_closed x s =
     (if pump s x = PRead \<and> \<not> ep_open (ep s x)
      then Some (if ep_masks (ep s x) then set_pump x PEof s else fail_pump x s)
      else None)"

definition pump_write :: "side \<Rightarrow> relay \<Rightarrow> relay option" where
  "pump_write x s =
     (case pump s x of
        PWrite bs \<Rightarrow>
          Some (if ep_open (ep s (other x)) \<and> ep_wr (ep s (other x))
                then set_pump x PRead (take_bytes (other x) bs s) else fail_pump x s)
      | _ \<Rightarrow> None)"

definition pump_write_error :: "side \<Rightarrow> nat \<Rightarrow> relay \<Rightarrow> relay option" where
  "pump_write_error x n s =
     (case pump s x of
        PWrite bs \<Rightarrow>
          (if ep_open (ep s (other x)) \<and> n < length bs
           then Some (fail_pump x (take_bytes (other x) (take n bs) s)) else None)
      | _ \<Rightarrow> None)"

text \<open>The rest of \<open>pipe\<close>: both streams are closed after an error, in this order.\<close>

definition pump_fail_dst :: "side \<Rightarrow> relay \<Rightarrow> relay option" where
  "pump_fail_dst x s =
     (if pump s x = PFailDst then Some (set_pump x PFailSrc (close_ep (other x) s)) else None)"

definition pump_fail_src :: "side \<Rightarrow> relay \<Rightarrow> relay option" where
  "pump_fail_src x s =
     (if pump s x = PFailSrc then Some (set_pump x (PDone False) (close_ep x s)) else None)"

text \<open>
  \<open>HalfClose(dst)\<close>: \<open>CloseWrite\<close> where the type has it, and whether it worked. On an open stream
  \<open>CloseWrite\<close> itself may report an error (\<open>works\<close> is false); on a closed one it always does.
\<close>

definition HalfClose :: "bool \<Rightarrow> relay_stream \<Rightarrow> bool \<times> relay_stream" where
  "HalfClose works e =
     (if \<not> ep_half e then (False, e)
      else if ep_open e \<and> works then (True, e\<lparr>ep_wr := False\<rparr>)
      else (False, e))"

definition pump_half_close :: "side \<Rightarrow> bool \<Rightarrow> relay \<Rightarrow> relay option" where
  "pump_half_close x works s =
     (if pump s x = PEof
      then (let (ok, e) = HalfClose works (ep s (other x)); t = s\<lparr>ep := (ep s)(other x := e)\<rparr>
            in Some (set_pump x (PDone True)
                 (if ok then t else (close_ep (other x) t)\<lparr>relay_failed := relay_failed s \<or> \<not> works\<rparr>)))
      else None)"

text \<open>\<open>RelayDrain\<close> after its own pump: wait for the other one, for at most the grace period.\<close>

definition pump_done :: "pump_pc \<Rightarrow> bool" where
  "pump_done p = (case p of PDone b \<Rightarrow> True | _ \<Rightarrow> False)"

definition main_join :: "relay \<Rightarrow> relay option" where
  "main_join s =
     (if main_at s = MPump \<and> pump_done (pump s SideB)
      then Some (s\<lparr>main_at := (if grace s then MGrace else MWait)\<rparr>) else None)"

definition main_drained :: "relay \<Rightarrow> relay option" where
  "main_drained s =
     (if main_at s = MGrace \<and> pump_done (pump s SideA) then Some (s\<lparr>main_at := MCloseA\<rparr>) else None)"

definition main_timer :: "relay \<Rightarrow> relay option" where
  "main_timer s =
     (if main_at s = MGrace
      then Some ((close_ep SideA s)\<lparr>main_at := MWait, timer_fired := True\<rparr>) else None)"

definition main_waited :: "relay \<Rightarrow> relay option" where
  "main_waited s =
     (if main_at s = MWait \<and> pump_done (pump s SideA) then Some (s\<lparr>main_at := MCloseA\<rparr>) else None)"

definition main_close_a :: "relay \<Rightarrow> relay option" where
  "main_close_a s =
     (if main_at s = MCloseA then Some ((close_ep SideA s)\<lparr>main_at := MCloseB\<rparr>) else None)"

definition main_close_b :: "relay \<Rightarrow> relay option" where
  "main_close_b s =
     (if main_at s = MCloseB then Some ((close_ep SideB s)\<lparr>main_at := MReturned\<rparr>) else None)"

text \<open>Another goroutine closes the local stream: the connection server on shutdown.\<close>

definition shutdown_a :: "relay \<Rightarrow> relay option" where
  "shutdown_a s = (if ep_open (ep s SideA) then Some ((close_ep SideA s)\<lparr>relay_failed := True\<rparr>) else None)"

datatype relay_label =
    RRead side bytes | REof side | RReadErr side | RReadClosed side | RWrite side
  | RWriteErr side nat | RFailDst side | RFailSrc side | RHalf side bool
  | RJoin | RDrained | RTimer | RWaited | RCloseA | RCloseB | RShutdown

fun relay_action :: "relay_label \<Rightarrow> relay \<Rightarrow> relay option" where
  "relay_action (RRead x bs) s = pump_read x bs s"
| "relay_action (REof x) s = pump_eof x s"
| "relay_action (RReadErr x) s = pump_read_error x s"
| "relay_action (RReadClosed x) s = pump_read_closed x s"
| "relay_action (RWrite x) s = pump_write x s"
| "relay_action (RWriteErr x n) s = pump_write_error x n s"
| "relay_action (RFailDst x) s = pump_fail_dst x s"
| "relay_action (RFailSrc x) s = pump_fail_src x s"
| "relay_action (RHalf x w) s = pump_half_close x w s"
| "relay_action RJoin s = main_join s"
| "relay_action RDrained s = main_drained s"
| "relay_action RTimer s = main_timer s"
| "relay_action RWaited s = main_waited s"
| "relay_action RCloseA s = main_close_a s"
| "relay_action RCloseB s = main_close_b s"
| "relay_action RShutdown s = shutdown_a s"

definition relay_step :: "relay \<Rightarrow> relay_label \<Rightarrow> relay \<Rightarrow> bool" where
  "relay_step s l s' = (relay_action l s = Some s')"

lemmas relay_action_defs =
  pump_read_def pump_eof_def pump_read_error_def pump_read_closed_def pump_write_def
  pump_write_error_def pump_fail_dst_def pump_fail_src_def pump_half_close_def main_join_def
  main_drained_def main_timer_def main_waited_def main_close_a_def main_close_b_def shutdown_a_def

lemmas relay_update_defs = close_ep_def set_pump_def take_bytes_def fail_pump_def HalfClose_def

end
