(* ===== verification/RelayInv.thy ===== *)
theory RelayInv
  imports Relay
begin

text \<open>
  The invariant of the relay, its progress measure, and what they give: nothing is lost or
  reordered, both streams are closed on return, half-close leaves the other direction open, and
  when the relay is sure to return.
\<close>

section \<open>The invariant\<close>

fun other_pump_ok :: "pump_pc \<Rightarrow> bytes \<Rightarrow> bytes \<Rightarrow> bool" where
  "other_pump_ok PRead out tk = (out = tk)"
| "other_pump_ok PEof out tk = (out = tk)"
| "other_pump_ok (PDone b) out tk = (if b then out = tk else (\<exists>r. out @ r = tk))"
| "other_pump_ok (PWrite bs) out tk = (out @ bs = tk)"
| "other_pump_ok PFailDst out tk = (\<exists>r. out @ r = tk)"
| "other_pump_ok PFailSrc out tk = (\<exists>r. out @ r = tk)"

definition pump_inv :: "side \<Rightarrow> relay \<Rightarrow> bool" where
  "pump_inv x s \<longleftrightarrow>
     other_pump_ok (pump s x) (ep_out (ep s (other x))) (taken s x) \<and>
     (pump s x = PFailSrc \<longrightarrow> \<not> ep_open (ep s (other x))) \<and>
     (pump s x = PDone False \<longrightarrow> \<not> ep_open (ep s (other x)) \<and> \<not> ep_open (ep s x)) \<and>
     (pump s x = PDone True \<longrightarrow> \<not> ep_open (ep s (other x)) \<or>
        ep_half (ep s (other x)) \<and> \<not> ep_wr (ep s (other x))) \<and>
     (pump s x \<noteq> PDone True \<longrightarrow> ep_wr (ep s (other x))) \<and>
     (pump s x \<in> {PFailDst, PFailSrc, PDone False} \<longrightarrow> relay_failed s)"

definition main_inv :: "relay \<Rightarrow> bool" where
  "main_inv s \<longleftrightarrow>
     (main_at s \<noteq> MPump \<longrightarrow> pump_done (pump s SideB)) \<and>
     (main_at s \<in> {MCloseA, MCloseB, MReturned} \<longrightarrow> pump_done (pump s SideA)) \<and>
     (main_at s \<in> {MCloseB, MReturned} \<longrightarrow> \<not> ep_open (ep s SideA)) \<and>
     (main_at s = MReturned \<longrightarrow> \<not> ep_open (ep s SideB)) \<and>
     (main_at s = MGrace \<longrightarrow> grace s) \<and>
     (timer_fired s \<longrightarrow> \<not> ep_open (ep s SideA) \<and> main_at s \<notin> {MPump, MGrace}) \<and>
     (grace s \<and> main_at s = MWait \<longrightarrow> timer_fired s)"

definition open_inv :: "relay \<Rightarrow> bool" where
  "open_inv s \<longleftrightarrow>
     (\<forall>x. \<not> relay_failed s \<and> \<not> timer_fired s \<and> main_at s \<notin> {MCloseB, MReturned} \<and>
        ep_half (ep s x) \<longrightarrow> ep_open (ep s x))"

definition relay_inv :: "relay \<Rightarrow> bool" where
  "relay_inv s \<longleftrightarrow> pump_inv SideA s \<and> pump_inv SideB s \<and> main_inv s \<and> open_inv s"

lemma pump_done_simps [simp]:
  "pump_done (PDone b)" "\<not> pump_done PRead" "\<not> pump_done (PWrite bs)" "\<not> pump_done PEof"
  "\<not> pump_done PFailDst" "\<not> pump_done PFailSrc"
  by (simp_all add: pump_done_def)

lemma pump_done_iff: "pump_done p \<longleftrightarrow> (\<exists>b. p = PDone b)"
  by (cases p) auto

lemma other_other [simp]: "other (other x) = x"
  by (cases x) auto

lemma other_neq [simp]: "other x \<noteq> x" "x \<noteq> other x"
  by (cases x; simp)+

lemma side_eq_other: "y = x \<or> y = other x"
  by (cases x; cases y; simp)

lemma inv_sides: "pump_inv SideA s \<and> pump_inv SideB s \<longleftrightarrow> pump_inv x s \<and> pump_inv (other x) s"
  by (cases x) auto


section \<open>Every action keeps it\<close>

lemma relay_inv_init: "relay_init s \<Longrightarrow> relay_inv s"
  unfolding relay_init_def relay_inv_def
  by (elim exE, hypsubst) (simp add: RelayDrain_def fresh_endpoint_def pump_inv_def
      main_inv_def open_inv_def split: side.split)

lemma pump_inv_fields [simp]:
  "pump_inv x (s\<lparr>main_at := m\<rparr>) = pump_inv x s"
  "pump_inv x (s\<lparr>timer_fired := b\<rparr>) = pump_inv x s"
  by (simp_all add: pump_inv_def)

lemma pump_inv_failed [simp]: "pump_inv x s \<Longrightarrow> pump_inv x (s\<lparr>relay_failed := True\<rparr>)"
  by (auto simp: pump_inv_def)

lemma pump_inv_close [simp]: "pump_inv x s \<Longrightarrow> pump_inv x (close_ep y s)"
  using side_eq_other [of y x] by (auto simp: pump_inv_def close_ep_def)

lemma pump_inv_other [simp]: "pump_inv (other x) (set_pump x p s) = pump_inv (other x) s"
  "pump_inv x (set_pump (other x) p s) = pump_inv x s"
  by (simp_all add: pump_inv_def set_pump_def)

lemma pump_inv_taken_other [simp]:
  "pump_inv (other x) (s\<lparr>taken := (taken s)(x := b)\<rparr>) = pump_inv (other x) s"
  by (simp add: pump_inv_def)

lemma pump_inv_take_other [simp]:
  "pump_inv (other x) (take_bytes (other x) bs s) = pump_inv (other x) s"
  by (simp add: pump_inv_def take_bytes_def)

lemma pump_inv_fail: "pump_inv x s \<Longrightarrow> pump s x = PRead \<Longrightarrow> pump_inv x (fail_pump x s)"
  by (simp add: pump_inv_def fail_pump_def set_pump_def)

lemma pump_inv_fail_w: "pump_inv x s \<Longrightarrow> pump s x = PWrite bs \<Longrightarrow> pump_inv x (fail_pump x s)"
  by (auto simp: pump_inv_def fail_pump_def set_pump_def)

lemma pump_inv_fail_other: "pump_inv (other x) s \<Longrightarrow> pump_inv (other x) (fail_pump x s)"
  by (simp add: fail_pump_def)

lemmas pump_inv_fails = pump_inv_fail pump_inv_fail_w pump_inv_fail_other Let_def

lemma taken_part [intro]: "out @ bs = tk \<Longrightarrow> \<exists>r. out @ take n bs @ r = tk"
  by (rule exI [of _ "drop n bs"]) simp

lemma other_cases: "(y = x \<Longrightarrow> P) \<Longrightarrow> (y = other x \<Longrightarrow> P) \<Longrightarrow> P"
  using side_eq_other by blast


lemma pump_read_inv: "pump_read x bs s = Some s' \<Longrightarrow> pump_inv y s \<Longrightarrow> pump_inv y s'"
  by (rule other_cases [of y x];
      clarsimp simp: pump_read_def pump_inv_fails split: if_split_asm pump_pc.split_asm;
      auto simp: pump_inv_def relay_update_defs)

lemma pump_eof_inv: "pump_eof x s = Some s' \<Longrightarrow> pump_inv y s \<Longrightarrow> pump_inv y s'"
  by (rule other_cases [of y x];
      clarsimp simp: pump_eof_def pump_inv_fails split: if_split_asm pump_pc.split_asm;
      auto simp: pump_inv_def relay_update_defs)

lemma pump_read_error_inv: "pump_read_error x s = Some s' \<Longrightarrow> pump_inv y s \<Longrightarrow> pump_inv y s'"
  by (rule other_cases [of y x];
      clarsimp simp: pump_read_error_def pump_inv_fails split: if_split_asm pump_pc.split_asm;
      auto simp: pump_inv_def relay_update_defs)

lemma pump_read_closed_inv: "pump_read_closed x s = Some s' \<Longrightarrow> pump_inv y s \<Longrightarrow> pump_inv y s'"
  by (rule other_cases [of y x];
      clarsimp simp: pump_read_closed_def pump_inv_fails split: if_split_asm pump_pc.split_asm;
      auto simp: pump_inv_def relay_update_defs)

lemma pump_write_inv: "pump_write x s = Some s' \<Longrightarrow> pump_inv y s \<Longrightarrow> pump_inv y s'"
  by (rule other_cases [of y x];
      clarsimp simp: pump_write_def pump_inv_fails split: if_split_asm pump_pc.split_asm;
      auto simp: pump_inv_def relay_update_defs)

lemma pump_write_error_inv: "pump_write_error x n s = Some s' \<Longrightarrow> pump_inv y s \<Longrightarrow> pump_inv y s'"
  by (rule other_cases [of y x];
      clarsimp simp: pump_write_error_def pump_inv_fails split: if_split_asm pump_pc.split_asm;
      auto simp: pump_inv_def relay_update_defs)

lemma pump_fail_dst_inv: "pump_fail_dst x s = Some s' \<Longrightarrow> pump_inv y s \<Longrightarrow> pump_inv y s'"
  by (rule other_cases [of y x];
      clarsimp simp: pump_fail_dst_def pump_inv_fails split: if_split_asm pump_pc.split_asm;
      auto simp: pump_inv_def relay_update_defs)

lemma pump_fail_src_inv: "pump_fail_src x s = Some s' \<Longrightarrow> pump_inv y s \<Longrightarrow> pump_inv y s'"
  by (rule other_cases [of y x];
      clarsimp simp: pump_fail_src_def pump_inv_fails split: if_split_asm pump_pc.split_asm;
      auto simp: pump_inv_def relay_update_defs)

lemma pump_half_close_inv: "pump_half_close x w s = Some s' \<Longrightarrow> pump_inv y s \<Longrightarrow> pump_inv y s'"
  by (rule other_cases [of y x];
      clarsimp simp: pump_half_close_def pump_inv_fails HalfClose_def split: if_split_asm pump_pc.split_asm;
      auto simp: pump_inv_def relay_update_defs)

lemma pump_read_main: "pump_read x bs s = Some s' \<Longrightarrow> main_inv s \<Longrightarrow> main_inv s'"
  by (cases x; clarsimp simp: pump_read_def Let_def HalfClose_def split: if_split_asm pump_pc.split_asm;
      auto simp: main_inv_def relay_update_defs pump_done_def)

lemma pump_eof_main: "pump_eof x s = Some s' \<Longrightarrow> main_inv s \<Longrightarrow> main_inv s'"
  by (cases x; clarsimp simp: pump_eof_def Let_def HalfClose_def split: if_split_asm pump_pc.split_asm;
      auto simp: main_inv_def relay_update_defs pump_done_def)

lemma pump_read_error_main: "pump_read_error x s = Some s' \<Longrightarrow> main_inv s \<Longrightarrow> main_inv s'"
  by (cases x; clarsimp simp: pump_read_error_def Let_def HalfClose_def split: if_split_asm pump_pc.split_asm;
      auto simp: main_inv_def relay_update_defs pump_done_def)

lemma pump_read_closed_main: "pump_read_closed x s = Some s' \<Longrightarrow> main_inv s \<Longrightarrow> main_inv s'"
  by (cases x; clarsimp simp: pump_read_closed_def Let_def HalfClose_def split: if_split_asm pump_pc.split_asm;
      auto simp: main_inv_def relay_update_defs pump_done_def)

lemma pump_write_main: "pump_write x s = Some s' \<Longrightarrow> main_inv s \<Longrightarrow> main_inv s'"
  by (cases x; clarsimp simp: pump_write_def Let_def HalfClose_def split: if_split_asm pump_pc.split_asm;
      auto simp: main_inv_def relay_update_defs pump_done_def)

lemma pump_write_error_main: "pump_write_error x n s = Some s' \<Longrightarrow> main_inv s \<Longrightarrow> main_inv s'"
  by (cases x; clarsimp simp: pump_write_error_def Let_def HalfClose_def split: if_split_asm pump_pc.split_asm;
      auto simp: main_inv_def relay_update_defs pump_done_def)

lemma pump_fail_dst_main: "pump_fail_dst x s = Some s' \<Longrightarrow> main_inv s \<Longrightarrow> main_inv s'"
  by (cases x; clarsimp simp: pump_fail_dst_def Let_def HalfClose_def split: if_split_asm pump_pc.split_asm;
      auto simp: main_inv_def relay_update_defs pump_done_def)

lemma pump_fail_src_main: "pump_fail_src x s = Some s' \<Longrightarrow> main_inv s \<Longrightarrow> main_inv s'"
  by (cases x; clarsimp simp: pump_fail_src_def Let_def HalfClose_def split: if_split_asm pump_pc.split_asm;
      auto simp: main_inv_def relay_update_defs pump_done_def)

lemma pump_half_close_main: "pump_half_close x w s = Some s' \<Longrightarrow> main_inv s \<Longrightarrow> main_inv s'"
  by (cases x; clarsimp simp: pump_half_close_def Let_def HalfClose_def split: if_split_asm pump_pc.split_asm;
      auto simp: main_inv_def relay_update_defs pump_done_def)

lemma pump_read_open: "pump_read x bs s = Some s' \<Longrightarrow> pump_inv x s \<Longrightarrow> open_inv s \<Longrightarrow> open_inv s'"
  by (clarsimp simp: pump_read_def Let_def HalfClose_def split: if_split_asm pump_pc.split_asm;
      auto simp: open_inv_def pump_inv_def relay_update_defs)

lemma pump_eof_open: "pump_eof x s = Some s' \<Longrightarrow> pump_inv x s \<Longrightarrow> open_inv s \<Longrightarrow> open_inv s'"
  by (clarsimp simp: pump_eof_def Let_def HalfClose_def split: if_split_asm pump_pc.split_asm;
      auto simp: open_inv_def pump_inv_def relay_update_defs)

lemma pump_read_error_open: "pump_read_error x s = Some s' \<Longrightarrow> pump_inv x s \<Longrightarrow> open_inv s \<Longrightarrow> open_inv s'"
  by (clarsimp simp: pump_read_error_def Let_def HalfClose_def split: if_split_asm pump_pc.split_asm;
      auto simp: open_inv_def pump_inv_def relay_update_defs)

lemma pump_read_closed_open: "pump_read_closed x s = Some s' \<Longrightarrow> pump_inv x s \<Longrightarrow> open_inv s \<Longrightarrow> open_inv s'"
  by (clarsimp simp: pump_read_closed_def Let_def HalfClose_def split: if_split_asm pump_pc.split_asm;
      auto simp: open_inv_def pump_inv_def relay_update_defs)

lemma pump_write_open: "pump_write x s = Some s' \<Longrightarrow> pump_inv x s \<Longrightarrow> open_inv s \<Longrightarrow> open_inv s'"
  by (clarsimp simp: pump_write_def Let_def HalfClose_def split: if_split_asm pump_pc.split_asm;
      auto simp: open_inv_def pump_inv_def relay_update_defs)

lemma pump_write_error_open: "pump_write_error x n s = Some s' \<Longrightarrow> pump_inv x s \<Longrightarrow> open_inv s \<Longrightarrow> open_inv s'"
  by (clarsimp simp: pump_write_error_def Let_def HalfClose_def split: if_split_asm pump_pc.split_asm;
      auto simp: open_inv_def pump_inv_def relay_update_defs)

lemma pump_fail_dst_open: "pump_fail_dst x s = Some s' \<Longrightarrow> pump_inv x s \<Longrightarrow> open_inv s \<Longrightarrow> open_inv s'"
  by (clarsimp simp: pump_fail_dst_def Let_def HalfClose_def split: if_split_asm pump_pc.split_asm;
      auto simp: open_inv_def pump_inv_def relay_update_defs)

lemma pump_fail_src_open: "pump_fail_src x s = Some s' \<Longrightarrow> pump_inv x s \<Longrightarrow> open_inv s \<Longrightarrow> open_inv s'"
  by (clarsimp simp: pump_fail_src_def Let_def HalfClose_def split: if_split_asm pump_pc.split_asm;
      auto simp: open_inv_def pump_inv_def relay_update_defs)

lemma pump_half_close_open: "pump_half_close x w s = Some s' \<Longrightarrow> pump_inv x s \<Longrightarrow> open_inv s \<Longrightarrow> open_inv s'"
  by (clarsimp simp: pump_half_close_def Let_def HalfClose_def split: if_split_asm pump_pc.split_asm;
      auto simp: open_inv_def pump_inv_def relay_update_defs)

lemma main_join_inv: "main_join s = Some s' \<Longrightarrow> relay_inv s \<Longrightarrow> relay_inv s'"
  by (clarsimp simp: main_join_def relay_inv_def split: if_split_asm;
      auto simp: main_inv_def open_inv_def close_ep_def pump_done_def)

lemma main_drained_inv: "main_drained s = Some s' \<Longrightarrow> relay_inv s \<Longrightarrow> relay_inv s'"
  by (clarsimp simp: main_drained_def relay_inv_def split: if_split_asm;
      auto simp: main_inv_def open_inv_def close_ep_def pump_done_def)

lemma main_timer_inv: "main_timer s = Some s' \<Longrightarrow> relay_inv s \<Longrightarrow> relay_inv s'"
  by (clarsimp simp: main_timer_def relay_inv_def split: if_split_asm;
      auto simp: main_inv_def open_inv_def close_ep_def pump_done_def)

lemma main_waited_inv: "main_waited s = Some s' \<Longrightarrow> relay_inv s \<Longrightarrow> relay_inv s'"
  by (clarsimp simp: main_waited_def relay_inv_def split: if_split_asm;
      auto simp: main_inv_def open_inv_def close_ep_def pump_done_def)

lemma main_close_a_inv: "main_close_a s = Some s' \<Longrightarrow> relay_inv s \<Longrightarrow> relay_inv s'"
  by (clarsimp simp: main_close_a_def relay_inv_def split: if_split_asm;
      auto simp: main_inv_def open_inv_def close_ep_def pump_done_def)

lemma main_close_b_inv: "main_close_b s = Some s' \<Longrightarrow> relay_inv s \<Longrightarrow> relay_inv s'"
  by (clarsimp simp: main_close_b_def relay_inv_def split: if_split_asm;
      auto simp: main_inv_def open_inv_def close_ep_def pump_done_def)

lemmas pump_invs = pump_read_inv pump_eof_inv pump_read_error_inv pump_read_closed_inv
  pump_write_inv pump_write_error_inv pump_fail_dst_inv pump_fail_src_inv pump_half_close_inv

lemmas pump_mains = pump_read_main pump_eof_main pump_read_error_main pump_read_closed_main
  pump_write_main pump_write_error_main pump_fail_dst_main pump_fail_src_main
  pump_half_close_main

lemmas pump_opens = pump_read_open pump_eof_open pump_read_error_open pump_read_closed_open
  pump_write_open pump_write_error_open pump_fail_dst_open pump_fail_src_open
  pump_half_close_open

lemma shutdown_a_inv: "shutdown_a s = Some s' \<Longrightarrow> relay_inv s \<Longrightarrow> relay_inv s'"
  by (clarsimp simp: shutdown_a_def relay_inv_def split: if_split_asm;
      auto simp: main_inv_def open_inv_def close_ep_def)

lemma relay_inv_pump: "relay_inv s \<Longrightarrow> pump_inv x s"
  by (cases x) (simp_all add: relay_inv_def)

lemma relay_inv_parts:
  "(\<And>y. pump_inv y s \<Longrightarrow> pump_inv y s') \<Longrightarrow> (main_inv s \<Longrightarrow> main_inv s') \<Longrightarrow>
   (pump_inv x s \<Longrightarrow> open_inv s \<Longrightarrow> open_inv s') \<Longrightarrow> relay_inv s \<Longrightarrow> relay_inv s'"
  using relay_inv_pump [of s x] by (simp add: relay_inv_def)

lemma relay_inv_step: "relay_step s l s' \<Longrightarrow> relay_inv s \<Longrightarrow> relay_inv s'"
  by (cases l; simp add: relay_step_def; (erule (1) main_join_inv main_drained_inv main_timer_inv
      main_waited_inv main_close_a_inv main_close_b_inv shutdown_a_inv)?;
      rule relay_inv_parts; (erule (1) pump_invs pump_mains | erule (2) pump_opens)?; assumption)

interpretation relays: invariant_system relay_init relay_step relay_inv
  by unfold_locales (auto intro: relay_inv_init relay_inv_step)

section \<open>Progress\<close>

text \<open>
  The relay's own actions: everything but the data and failures of the peers. They are always
  enabled by the state of the program alone, the grace timer included. Completing a write is one of
  them: what is proved about their runs assumes that the streams take, or refuse, what is written to them.
\<close>

fun relay_internal :: "relay_label \<Rightarrow> bool" where
  "relay_internal (RRead x bs) = False"
| "relay_internal (REof x) = False"
| "relay_internal (RReadErr x) = False"
| "relay_internal (RWriteErr x n) = False"
| "relay_internal RShutdown = False"
| "relay_internal l = True"

text \<open>When the relay is sure to return: the pump from \<open>b\<close> has ended and there is a grace period,
  or \<open>a\<close> is closed and \<open>b\<close> has no half-close.\<close>

definition relay_live :: "relay \<Rightarrow> bool" where
  "relay_live s \<longleftrightarrow> grace s \<and> pump_done (pump s SideB) \<or>
     \<not> ep_open (ep s SideA) \<and> \<not> ep_half (ep s SideB)"

definition relay_final :: "relay \<Rightarrow> bool" where
  "relay_final s \<longleftrightarrow> main_at s = MReturned"

fun pump_rank :: "pump_pc \<Rightarrow> nat" where
  "pump_rank (PWrite bs) = 6"
| "pump_rank PRead = 5"
| "pump_rank PFailDst = 4"
| "pump_rank PFailSrc = 3"
| "pump_rank PEof = 2"
| "pump_rank (PDone b) = 0"

fun main_rank :: "main_pc \<Rightarrow> nat" where
  "main_rank MPump = 6"
| "main_rank MGrace = 5"
| "main_rank MWait = 4"
| "main_rank MCloseA = 3"
| "main_rank MCloseB = 2"
| "main_rank MReturned = 0"

definition relay_rank :: "relay \<Rightarrow> nat" where
  "relay_rank s = pump_rank (pump s SideA) + pump_rank (pump s SideB) + main_rank (main_at s)"

lemma pump_moves:
  assumes "\<not> pump_done (pump s x)" and "pump s x = PRead \<Longrightarrow> \<not> ep_open (ep s x)"
  shows "\<exists>l s'. relay_internal l \<and> relay_step s l s'"
proof (cases "pump s x")
  case PRead
  then show ?thesis using assms(2)
    by (intro exI [of _ "RReadClosed x"]) (simp add: relay_step_def pump_read_closed_def)
next
  case (PWrite bs)
  then show ?thesis by (intro exI [of _ "RWrite x"]) (simp add: relay_step_def pump_write_def)
next
  case PFailDst
  then show ?thesis by (intro exI [of _ "RFailDst x"]) (simp add: relay_step_def pump_fail_dst_def)
next
  case PFailSrc
  then show ?thesis by (intro exI [of _ "RFailSrc x"]) (simp add: relay_step_def pump_fail_src_def)
next
  case PEof
  then show ?thesis
    by (intro exI [of _ "RHalf x True"]) (simp add: relay_step_def pump_half_close_def Let_def case_prod_unfold)
next
  case (PDone b)
  with assms(1) show ?thesis by simp
qed

lemma pump_a_done_closes:
  "pump_inv SideA s \<Longrightarrow> pump_done (pump s SideA) \<Longrightarrow> \<not> ep_half (ep s SideB) \<Longrightarrow> \<not> ep_open (ep s SideB)"
  by (auto simp: pump_inv_def pump_done_iff)

lemma main_moves:
  assumes "pump_done (pump s SideA)" and "pump_done (pump s SideB)" and "main_at s \<noteq> MReturned"
  shows "\<exists>l s'. relay_internal l \<and> relay_step s l s'"
proof (cases "main_at s")
  case MPump
  with assms show ?thesis by (intro exI [of _ RJoin]) (simp add: relay_step_def main_join_def)
next
  case MGrace
  with assms show ?thesis by (intro exI [of _ RDrained]) (simp add: relay_step_def main_drained_def)
next
  case MWait
  with assms show ?thesis by (intro exI [of _ RWaited]) (simp add: relay_step_def main_waited_def)
next
  case MCloseA
  then show ?thesis by (intro exI [of _ RCloseA]) (simp add: relay_step_def main_close_a_def)
next
  case MCloseB
  then show ?thesis by (intro exI [of _ RCloseB]) (simp add: relay_step_def main_close_b_def)
next
  case MReturned
  with assms(3) show ?thesis by simp
qed

lemma relay_progress:
  assumes "relay_inv s" and "relay_live s" and "\<not> relay_final s"
  shows "\<exists>l s'. relay_internal l \<and> relay_step s l s'"
proof (cases "pump_done (pump s SideB)")
  case False
  with assms(2) have a: "\<not> ep_open (ep s SideA)" "\<not> ep_half (ep s SideB)"
    by (auto simp: relay_live_def)
  show ?thesis
  proof (cases "pump_done (pump s SideA)")
    case True
    with a assms(1) have "\<not> ep_open (ep s SideB)"
      using pump_a_done_closes [of s] by (simp add: relay_inv_def)
    with False show ?thesis using pump_moves [of s SideB] by blast
  next
    case False
    with a show ?thesis using pump_moves [of s SideA] by blast
  qed
next
  case b: True
  show ?thesis
  proof (cases "pump_done (pump s SideA)")
    case True
    with b assms(3) show ?thesis by (intro main_moves) (simp_all add: relay_final_def)
  next
    case False
    have "main_at s = MPump \<or> main_at s = MGrace \<or> \<not> ep_open (ep s SideA)"
      using assms False by (cases "main_at s") (auto simp: relay_inv_def main_inv_def relay_live_def)
    with b show ?thesis
    proof (elim disjE)
      assume "main_at s = MPump"
      with b show ?thesis by (intro exI [of _ RJoin]) (simp add: relay_step_def main_join_def)
    next
      assume "main_at s = MGrace"
      then show ?thesis by (intro exI [of _ RTimer]) (simp add: relay_step_def main_timer_def)
    next
      assume "\<not> ep_open (ep s SideA)"
      with False show ?thesis using pump_moves [of s SideA] by blast
    qed
  qed
qed

lemma relay_rank_side:
  "relay_rank s = pump_rank (pump s x) + pump_rank (pump s (other x)) + main_rank (main_at s)"
  by (cases x) (simp_all add: relay_rank_def)

lemma relay_decreases:
  assumes "relay_internal l" and "relay_step s l s'"
  shows "relay_rank s' < relay_rank s"
proof -
  have pumps: "\<And>x. pump_read_closed x s = Some s' \<or> pump_write x s = Some s' \<or>
      pump_fail_dst x s = Some s' \<or> pump_fail_src x s = Some s' \<or>
      (\<exists>w. pump_half_close x w s = Some s') \<Longrightarrow> relay_rank s' < relay_rank s"
    subgoal for x
      unfolding relay_rank_side [where x = x]
      by (elim disjE exE; clarsimp simp: relay_action_defs Let_def HalfClose_def
          split: if_split_asm pump_pc.split_asm; simp add: relay_update_defs)
    done
  have mains: "main_join s = Some s' \<or> main_drained s = Some s' \<or> main_timer s = Some s' \<or>
      main_waited s = Some s' \<or> main_close_a s = Some s' \<or> main_close_b s = Some s' \<Longrightarrow>
      relay_rank s' < relay_rank s"
    by (elim disjE; clarsimp simp: relay_action_defs relay_rank_def split: if_split_asm;
        simp add: relay_update_defs)
  from assms show ?thesis
    by (cases l) (auto simp: relay_step_def intro: pumps mains)
qed

lemma relay_frame:
  assumes "relay_step s l s'"
  shows "grace s' = grace s" "ep_half (ep s' x) = ep_half (ep s x)"
    "pump_done (pump s x) \<Longrightarrow> pump_done (pump s' x)"
    "\<not> ep_open (ep s x) \<Longrightarrow> \<not> ep_open (ep s' x)"
  by (use assms in \<open>cases l; clarsimp simp: relay_step_def relay_action_defs relay_update_defs Let_def
      split: if_split_asm pump_pc.split_asm\<close>)+

lemma relay_live_step: "relay_live s \<Longrightarrow> relay_step s l s' \<Longrightarrow> relay_live s'"
  unfolding relay_live_def using relay_frame by blast

interpretation relays_live: terminating_system relay_init relay_step relay_inv
  relay_internal relay_live relay_final relay_rank
  by unfold_locales (erule (2) relay_progress, erule (1) relay_decreases, erule (1) relay_live_step)

lemma relay_rank_bound: "relay_rank s \<le> 18"
proof -
  have p: "pump_rank p \<le> 6" for p by (cases p) simp_all
  have m: "main_rank m \<le> 6" for m by (cases m) simp_all
  show ?thesis
    using p [of "pump s SideA"] p [of "pump s SideB"] m [of "main_at s"] by (simp add: relay_rank_def)
qed

section \<open>Properties\<close>

lemma relay_over:
  assumes "pump_done (pump s SideA)" and "pump_done (pump s SideB)" and "main_at s = MReturned"
    and "\<And>y. \<not> ep_open (ep s y)"
  shows "\<not> relay_step s l t"
proof -
  have "pump_done (pump s y)" for y using assms(1,2) by (cases y) simp_all
  then have "pump s y \<noteq> PRead" "pump s y \<noteq> PWrite bs" "pump s y \<noteq> PFailDst" "pump s y \<noteq> PFailSrc" "pump s y \<noteq> PEof"
    for y bs by (metis pump_done_simps)+
  with assms(3,4) show ?thesis
    by (cases l) (auto simp: relay_step_def relay_action_defs split: pump_pc.split)
qed

text \<open>C11: When the relay has returned, both pumps have ended, both streams are closed and no step of it
  is left; each side has received a prefix of what was read from the other, in order, and all of it
  where the copy ended with the end of its source. Unless a call failed or somebody else closed a
  stream, both copies ended that way, so nothing that was read is lost.\<close>

theorem relay_returns_clean:
  assumes "reach relay_init relay_step s" and "main_at s = MReturned"
  shows "pump_done (pump s SideA) \<and> pump_done (pump s SideB) \<and>
    \<not> ep_open (ep s SideA) \<and> \<not> ep_open (ep s SideB) \<and> \<not> (\<exists>l t. relay_step s l t) \<and>
    (\<exists>rest. ep_out (ep s (other x)) @ rest = taken s x \<and> (pump s x = PDone True \<longrightarrow> rest = [])) \<and>
    (\<not> relay_failed s \<longrightarrow> pump s x = PDone True \<and> ep_out (ep s (other x)) = taken s x)"
proof -
  have "relay_inv s" using assms(1) by (rule relays.reach_inv)
  then have m: "main_inv s" and p: "pump_inv y s" for y by (auto simp: relay_inv_def intro: relay_inv_pump)
  with assms(2) have closed: "\<not> ep_open (ep s y)" and ended: "pump_done (pump s y)" for y
    by (cases y; auto simp: main_inv_def)+
  from ended [of x] obtain b where b: "pump s x = PDone b" by (auto simp: pump_done_iff)
  with p [of x] have "\<exists>rest. ep_out (ep s (other x)) @ rest = taken s x \<and> (pump s x = PDone True \<longrightarrow> rest = [])"
    and "\<not> relay_failed s \<longrightarrow> pump s x = PDone True \<and> ep_out (ep s (other x)) = taken s x"
    by (cases b; auto simp: pump_inv_def)+
  with closed ended relay_over [OF ended ended assms(2) closed] show ?thesis by blast
qed

text \<open>Both ends half-closable: data from the client, its end, data from the server, its end.\<close>

definition relay_session :: "relay_label list" where
  "relay_session =
     [RRead SideA [1, 2], RWrite SideA, REof SideA, RHalf SideA True, RRead SideB [3], RWrite SideB,
      REof SideB, RHalf SideB True, RJoin, RWaited, RCloseA, RCloseB]"

definition tcp_relay :: relay where
  "tcp_relay = Relay (fresh_endpoint True False) (fresh_endpoint True False)"

lemma tcp_relay_init: "relay_init tcp_relay"
  unfolding relay_init_def tcp_relay_def Relay_def by (intro exI) (rule refl)

lemma relay_exec_reach:
  "exec_labels relay_action ls s = Some t \<Longrightarrow> relay_init s \<Longrightarrow> reach relay_init relay_step t"
  unfolding relay_step_def by (rule exec_labels_reach)

definition relay_session_end :: relay where
  "relay_session_end = the (exec_labels relay_action relay_session tcp_relay)"

lemmas relay_eval = relay_action_defs relay_update_defs RelayDrain_def Relay_def fresh_endpoint_def
  pump_done_def Let_def

lemma relay_session_runs: "exec_labels relay_action relay_session tcp_relay = Some relay_session_end"
  by (simp add: relay_session_end_def relay_session_def tcp_relay_def relay_eval)

lemma relay_session_result:
  "main_at relay_session_end = MReturned" "ep_out (ep relay_session_end SideB) = [1, 2]"
  "ep_out (ep relay_session_end SideA) = [3]" "pump relay_session_end SideA = PDone True"
  by (simp_all add: relay_session_end_def relay_session_def tcp_relay_def relay_eval)

theorem relay_returns_clean_witness:
  "\<not> ep_open (ep relay_session_end SideA) \<and> pump_done (pump relay_session_end SideA) \<and>
   ep_out (ep relay_session_end SideB) = [1, 2]"
  using relay_returns_clean [OF relay_exec_reach [OF relay_session_runs tcp_relay_init]
      relay_session_result(1)] relay_session_result(2) by simp

text \<open>Half-close is preserved: as long as nothing failed, nobody else closed a stream and the
  grace timer did not fire, the end of one direction never closes a stream that has
  \<open>CloseWrite\<close>, and the other direction can still deliver whatever it holds.\<close>

lemma half_close_keeps_other_direction:
  assumes "reach relay_init relay_step s" and "\<not> relay_failed s" and "\<not> timer_fired s"
    and "ep_half (ep s SideA)" and "ep_half (ep s SideB)" and "pump s (other x) = PWrite bs"
  shows "ep_open (ep s SideA) \<and> ep_open (ep s SideB) \<and>
    (\<exists>t. relay_step s (RWrite (other x)) t \<and> ep_out (ep t x) = taken s (other x))"
proof -
  have inv: "relay_inv s" using assms(1) by (rule relays.reach_inv)
  have "main_at s \<notin> {MCloseB, MReturned}"
    using inv assms(6) by (cases x) (auto simp: relay_inv_def main_inv_def)
  with inv assms have o: "ep_open (ep s SideA) \<and> ep_open (ep s SideB)"
    by (simp add: relay_inv_def open_inv_def)
  then have "ep_open (ep s x)" by (cases x) auto
  moreover have "ep_wr (ep s x)" and "ep_out (ep s x) @ bs = taken s (other x)"
    using relay_inv_pump [OF inv, of "other x"] assms(6) by (auto simp: pump_inv_def)
  ultimately show ?thesis
    using assms(6) o by (simp add: relay_step_def pump_write_def relay_update_defs)
qed

definition half_closed_session :: relay where
  "half_closed_session =
     the (exec_labels relay_action [REof SideA, RHalf SideA True, RRead SideB [7]] tcp_relay)"

lemma half_closed_runs:
  "exec_labels relay_action [REof SideA, RHalf SideA True, RRead SideB [7]] tcp_relay =
     Some half_closed_session"
  by (simp add: half_closed_session_def tcp_relay_def relay_eval)

lemma half_close_keeps_other_direction_witness:
  "\<exists>t. relay_step half_closed_session (RWrite SideB) t \<and> ep_out (ep t SideA) = [7]"
  using half_close_keeps_other_direction [of half_closed_session SideA "[7]",
      OF relay_exec_reach [OF half_closed_runs tcp_relay_init]]
  by (simp add: half_closed_session_def tcp_relay_def relay_eval)

text \<open>C29: The drain is bounded, given that no write blocks for good (\<open>blocked_write_outlives_timer\<close>
  shows what one would do). Once the copy from \<open>b\<close> has ended and a grace period was given, or
  once \<open>a\<close> is closed and \<open>b\<close> (the Azure WebSocket) cannot be half-closed, the relay is
  never stuck: its own actions bring it to its return, and no run of them is longer than 18.\<close>

theorem relay_drain_terminates:
  assumes "reach relay_init relay_step s"
    and "grace s \<and> pump_done (pump s SideB) \<or> \<not> ep_open (ep s SideA) \<and> \<not> ep_half (ep s SideB)"
  shows "(\<exists>ls t. path relay_step s ls t \<and> (\<forall>l \<in> set ls. relay_internal l) \<and> main_at t = MReturned) \<and>
    (\<forall>ls t. path relay_step s ls t \<longrightarrow> (\<forall>l \<in> set ls. relay_internal l) \<longrightarrow> length ls \<le> 18)"
proof -
  have inv: "relay_inv s" using assms(1) by (rule relays.reach_inv)
  moreover have "relay_live s" using assms(2) by (simp add: relay_live_def)
  ultimately have "\<exists>ls t. path relay_step s ls t \<and> (\<forall>l \<in> set ls. relay_internal l) \<and> main_at t = MReturned"
    using relays_live.reaches_final [of s] by (simp add: relay_final_def)
  moreover have "length ls \<le> 18" if "path relay_step s ls t" "\<forall>l \<in> set ls. relay_internal l" for ls t
    using relays_live.internal_run_bounded [OF that(1) inv that(2)] relay_rank_bound [of s] by linarith
  ultimately show ?thesis by blast
qed

text \<open>The Azure relay with an idle client: the server ends, the grace period runs out.\<close>

definition azure_relay :: relay where
  "azure_relay = RelayDrain (fresh_endpoint True False) (fresh_endpoint False True) True"

definition drained_session :: relay where
  "drained_session = the (exec_labels relay_action [REof SideB, RHalf SideB True] azure_relay)"

lemma drained_runs:
  "exec_labels relay_action [REof SideB, RHalf SideB True] azure_relay = Some drained_session"
  by (simp add: drained_session_def azure_relay_def relay_eval)

lemma azure_relay_init: "relay_init azure_relay"
  unfolding relay_init_def azure_relay_def by (intro exI) (rule refl)

theorem relay_drain_terminates_witness:
  "\<exists>ls t. path relay_step drained_session ls t \<and> (\<forall>l \<in> set ls. relay_internal l) \<and> main_at t = MReturned"
  by (rule relay_drain_terminates [OF relay_exec_reach [OF drained_runs azure_relay_init], THEN conjunct1])
     (simp add: drained_session_def azure_relay_def relay_eval)

text \<open>The timer closes \<open>a\<close> only. When the pump from \<open>a\<close> is in a write to \<open>b\<close>, nothing but the end of that
  write can move the relay any further, and \<open>b\<close> is still open: a write that blocks outlives the grace period.\<close>

lemma blocked_write_outlives_timer:
  "\<exists>s. reach relay_init relay_step s \<and> timer_fired s \<and> ep_open (ep s SideB) \<and> main_at s = MWait \<and>
     (\<forall>l t. relay_step s l t \<longrightarrow> l = RWrite SideA \<or> (\<exists>n. l = RWriteErr SideA n))"
proof -
  let ?ls = "[RRead SideA [1], REof SideB, RHalf SideB True, RJoin, RTimer]"
  define s where "s = the (exec_labels relay_action ?ls azure_relay)"
  have run: "exec_labels relay_action ?ls azure_relay = Some s"
    by (simp add: s_def azure_relay_def relay_eval)
  have st: "timer_fired s" "ep_open (ep s SideB)" "main_at s = MWait" "pump s SideA = PWrite [1]"
    "pump s SideB = PDone True" "\<not> ep_open (ep s SideA)"
    by (simp_all add: s_def azure_relay_def relay_eval)
  have p: "pump s x = (case x of SideA \<Rightarrow> PWrite [1] | SideB \<Rightarrow> PDone True)" for x
    using st by (cases x) simp_all
  have "l = RWrite SideA \<or> (\<exists>n. l = RWriteErr SideA n)" if "relay_step s l t" for l t
    using that st(3,6)
    by (cases l) (auto simp: relay_step_def relay_action_defs p split: if_split_asm side.split_asm)
  with relay_exec_reach [OF run azure_relay_init] st show ?thesis by blast
qed

text \<open>Closing the local connection does not end a half-closed relay. There is a reachable state
  in which another goroutine (the connection server on shutdown) has closed \<open>a\<close>, its copy had
  ended before, \<open>b\<close> (an SSH channel) is half-closed, and no action of the relay is enabled: it
  waits for the remote end, without bound.\<close>

lemma half_closed_relay_ignores_shutdown:
  "\<exists>s. reach relay_init relay_step s \<and> \<not> ep_open (ep s SideA) \<and> pump s SideA = PDone True \<and>
       main_at s = MPump \<and> ep_open (ep s SideB) \<and>
       \<not> (\<exists>l s'. relay_internal l \<and> relay_step s l s')"
proof -
  let ?ls = "[REof SideA, RHalf SideA True, RShutdown]"
  define s where "s = the (exec_labels relay_action ?ls tcp_relay)"
  have run: "exec_labels relay_action ?ls tcp_relay = Some s"
    by (simp add: s_def tcp_relay_def relay_eval)
  have st: "\<not> ep_open (ep s SideA)" "pump s SideA = PDone True" "pump s SideB = PRead"
    "main_at s = MPump" "ep_open (ep s SideB)"
    by (simp_all add: s_def tcp_relay_def relay_eval)
  have "pump_read_closed x s = None" "pump_write x s = None" "pump_fail_dst x s = None"
    "pump_fail_src x s = None" "pump_half_close x w s = None" for x w
    by (cases x; simp add: relay_action_defs st)+
  then have "relay_action l s = None" if "relay_internal l" for l
    using that st by (cases l) (simp_all add: main_join_def main_drained_def main_timer_def
        main_waited_def main_close_a_def main_close_b_def)
  then have "\<not> (\<exists>l s'. relay_internal l \<and> relay_step s l s')" by (auto simp: relay_step_def)
  with relay_exec_reach [OF run tcp_relay_init] st show ?thesis by blast
qed

end
