(* ===== verification/Serving.thy ===== *)
theory Serving
  imports ConnServerSpec RelayInv
begin

text \<open>
  What the serving tunnels share: a connection server whose handlers are the tunnel's own code, and
  relays whose local stream is a connection of that server.
\<close>

section \<open>The connection server as a part\<close>

text \<open>
  The actions of the server that need nobody else: not the return of a handler, and not the call of
  \<open>Close\<close> by whoever called \<open>Serve\<close>.
\<close>

fun server_alone :: "conn_label \<Rightarrow> bool" where
  "server_alone LCallerClose = False"
| "server_alone (LHandlerReturn c) = False"
| "server_alone l = True"

lemma server_frame:
  assumes "conn_action l v = Some v'"
  shows "serve_at v = SReturned r \<Longrightarrow> serve_at v' = SReturned r"
    and "closer_at v ByCaller = CDone \<Longrightarrow> closer_at v' ByCaller = CDone"
    and "server_alone l \<Longrightarrow> closer_at v ByCaller = CIdle \<Longrightarrow> closer_at v' ByCaller = CIdle"
    and "server_alone l \<Longrightarrow> handler_at v c = HRunning \<Longrightarrow> handler_at v' c = HRunning"
  using assms
  by (cases l; auto simp: conn_action_defs split: if_split_asm serve_pc.split_asm close_pc.split_asm)+

lemma caller_idle_frame:
  "conn_action l v = Some v' \<Longrightarrow> closer_at v ByCaller \<noteq> CIdle \<Longrightarrow> closer_at v' ByCaller \<noteq> CIdle"
  by (cases l; auto simp: conn_action_defs split: if_split_asm serve_pc.split_asm close_pc.split_asm)

text \<open>Where a connection that is handled gets closed.\<close>

lemma server_sock_frame:
  assumes "conn_action l v = Some v'" and "count_inv v" and "handler_at v' c = HRunning" and "c \<notin> sock_open v'"
  shows "c \<notin> sock_open v \<or> (\<exists>k. l = LCloseOne k c)"
  using assms
  by (cases l; auto simp: conn_action_defs count_inv_def pending_conn_def
      split: if_split_asm serve_pc.split_asm close_pc.split_asm)

lemma server_reach:
  "reach conn_init conn_step v \<Longrightarrow> conn_action l v = Some v' \<Longrightarrow> reach conn_init conn_step v'"
  by (rule reach_step) (simp_all add: conn_step_def)

section \<open>Relays of its connections\<close>

text \<open>
  Another goroutine closes the local stream; and a relay that starts on connection \<open>c\<close>, which the
  server may have closed before.
\<close>

definition close_local :: "relay \<Rightarrow> relay" where
  "close_local r = (case relay_action RShutdown r of None \<Rightarrow> r | Some r' \<Rightarrow> r')"

definition start_relay :: "conn_server \<Rightarrow> nat \<Rightarrow> relay \<Rightarrow> relay" where
  "start_relay v c r = (if c \<in> sock_open v then r else close_local r)"

lemma relay_reach:
  "reach relay_init relay_step r \<Longrightarrow> relay_action l r = Some r' \<Longrightarrow> reach relay_init relay_step r'"
  by (rule reach_step) (simp_all add: relay_step_def)

lemma close_local_reach: "reach relay_init relay_step r \<Longrightarrow> reach relay_init relay_step (close_local r)"
  by (auto simp: close_local_def split: option.split intro: relay_reach [where l = RShutdown])

lemma start_relay_reach: "reach relay_init relay_step r \<Longrightarrow> reach relay_init relay_step (start_relay v c r)"
  by (simp add: start_relay_def close_local_reach)

lemma close_local_sel [simp]:
  "\<not> ep_open (ep (close_local r) SideA)" "grace (close_local r) = grace r" "pump (close_local r) = pump r"
  "main_at (close_local r) = main_at r" "ep_half (ep (close_local r) x) = ep_half (ep r x)"
  "relay_rank (close_local r) = relay_rank r"
  by (auto simp: close_local_def shutdown_a_def close_ep_def relay_rank_def)

section \<open>Shutdown\<close>

text \<open>The two actions that are not the server's alone keep it closing; one of them brings it forward.\<close>

lemma handler_return_less:
  assumes "conn_inv v" and "conn_action (LHandlerReturn c) v = Some v'"
  shows "conn_rank v' < conn_rank v"
proof -
  have c: "count_inv v" using assms(1) by (simp add: conn_inv_def)
  then have "finite (seen v)" "finite (srv_conns v)" using finite_conns [OF c] by (simp_all add: count_inv_def)
  with assms(2) show ?thesis
    by (auto simp: handler_return_def split: if_split_asm intro!: rank_handler_less [of v c HReturned])
qed

lemma caller_close_rank:
  assumes "conn_inv v" and "serve_at v = SReturned r" and "conn_action LCallerClose v = Some v'"
  shows "conn_rank v' \<le> conn_rank v + 2"
proof -
  have v': "closer_at v ByCaller = CIdle" "v' = v\<lparr>closer_at := (closer_at v)(ByCaller := CWant)\<rparr>"
    using assms(3) by (auto simp: caller_close_def split: if_split_asm)
  have "conns_bound v = 0" using returned_released(2) [OF assms(1,2)] assms(2) by (simp add: conns_bound_def)
  then show ?thesis using v' by (simp add: conn_rank_split handlers_rank_def seen_def conns_bound_def)
qed

lemma closing_frame:
  assumes "conn_action l v = Some v'" and "closing v" and "l = LCallerClose \<or> l = LHandlerReturn c"
  shows "closing v'"
  using assms by (auto simp: closing_def caller_close_def handler_return_def split: if_split_asm)

lemma returned_frame: "conn_action l v = Some v' \<Longrightarrow> serve_returned v \<Longrightarrow> serve_returned v'"
  by (auto simp: serve_returned_def server_frame(1) split: serve_pc.split_asm)

text \<open>A call of \<open>Close\<close> by the caller of \<open>Serve\<close> gets to its end.\<close>

lemma caller_close_progress:
  assumes "conn_inv v" and "closer_at v ByCaller \<noteq> CDone" and "closer_at v ByCaller \<noteq> CIdle"
  shows "\<exists>l v'. server_alone l \<and> server_action l \<and> conn_action l v = Some v'"
proof (cases "srv_mu v")
  case (Some k)
  have "lock_inv v" using assms(1) by (simp add: conn_inv_def)
  then have "\<exists>R. closer_at v k = CHold R"
    using lock_invD(1) [of v k] Some by (cases "closer_at v k") auto
  then obtain R where R: "closer_at v k = CHold R" by blast
  show ?thesis
  proof (cases "R = {}")
    case True
    with R show ?thesis by (intro exI [of _ "LCloseLeave k"]) (simp add: close_leave_def)
  next
    case False
    then obtain c where "c \<in> R" by blast
    with R show ?thesis by (intro exI [of _ "LCloseOne k c"]) (simp add: close_one_def)
  qed
next
  case None
  have "closer_at v ByCaller = CWant"
    using lock_invD(1) [of v ByCaller] assms None by (cases "closer_at v ByCaller") (auto simp: conn_inv_def)
  with None show ?thesis by (intro exI [of _ "LCloseEnter ByCaller"]) (simp add: close_enter_def)
qed

text \<open>
  Before \<open>Serve\<close> returns, a closing server moves by itself, or it waits for the handler of a
  connection it has closed.
\<close>

lemma serving_progress:
  assumes "conn_inv v" and "closing v" and "\<not> serve_returned v"
  shows "(\<exists>l v'. server_alone l \<and> server_action l \<and> conn_action l v = Some v') \<or>
    (\<exists>c. handler_at v c = HRunning \<and> c \<notin> sock_open v)"
proof -
  from conn_progress [OF assms] consider l v' where "server_action l" "conn_action l v = Some v'" | "awaits_handlers v"
    by (auto simp: conn_step_def)
  then show ?thesis
  proof cases
    case 1
    moreover have "server_alone l" using 1(1) by (cases l) simp_all
    ultimately show ?thesis by blast
  qed (auto simp: awaits_handlers_def)
qed

end
