(* ===== verification/SshPool.thy ===== *)
theory SshPool
  imports Prelude
begin

text \<open>
  The SSH client pool of \<open>internal/ssh/client.go\<close>: callers of \<open>get\<close> and \<open>discard\<close>, the goroutines
  \<open>tend\<close> and \<open>keepalive\<close> of every pooled client, and \<open>close\<close>. A critical section of \<open>p.mu\<close> never
  blocks inside, so it is one action; the dial, the waiting and the closing of a client outside
  the lock are actions of their own. Clients, handshakes and callers are numbered.
\<close>

section \<open>State\<close>

text \<open>
  A caller: idle; waiting for another caller's handshake; dialling; about to settle the dial
  under the lock; about to publish the result to the waiters; back from \<open>get\<close>; about to run
  \<open>discard\<close>, then its \<open>Close\<close>.
\<close>

datatype get_pc =
    GIdle
  | GWait nat
  | GDial nat
  | GSettle nat "nat result"
  | GPublish nat "nat result"
  | GDone "nat result"
  | GDiscard nat
  | GDiscardClose nat

datatype tend_pc = TAbsent | TWait | TDiscard | TClose | TDone

datatype pool_close_pc = KIdle | KClient "nat option" | KDone

text \<open>
  \<open>pool_outcome a\<close> is \<open>handshake.client\<close> and \<open>handshake.err\<close> once \<open>handshake.done\<close> is closed. The
  set \<open>pool_open\<close> holds the clients whose transport is open, \<open>pool_dialed\<close> every client ever
  dialled, \<open>pool_keeping\<close> those with a \<open>keepalive\<close> goroutine.
\<close>

record client_pool =
  pool_client :: "nat option"
  pool_inflight :: "nat option"
  pool_closed :: bool
  pool_outcome :: "nat \<Rightarrow> nat result option"
  pool_caller :: "nat \<Rightarrow> get_pc"
  pool_tender :: "nat \<Rightarrow> tend_pc"
  pool_keeping :: "nat set"
  pool_open :: "nat set"
  pool_dialed :: "nat set"
  pool_next :: nat
  pool_closer :: pool_close_pc

definition new_pool :: client_pool where
  "new_pool =
     \<lparr>pool_client = None, pool_inflight = None, pool_closed = False, pool_outcome = (\<lambda>_. None),
      pool_caller = (\<lambda>_. GIdle), pool_tender = (\<lambda>_. TAbsent), pool_keeping = {},
      pool_open = {}, pool_dialed = {}, pool_next = 0, pool_closer = KIdle\<rparr>"

definition pool_init :: "client_pool \<Rightarrow> bool" where
  "pool_init s \<longleftrightarrow> s = new_pool"

definition at_caller :: "nat \<Rightarrow> get_pc \<Rightarrow> client_pool \<Rightarrow> client_pool" where
  "at_caller c p s = s\<lparr>pool_caller := (pool_caller s)(c := p)\<rparr>"

definition at_tender :: "nat \<Rightarrow> tend_pc \<Rightarrow> client_pool \<Rightarrow> client_pool" where
  "at_tender k p s = s\<lparr>pool_tender := (pool_tender s)(k := p)\<rparr>"

definition close_client :: "nat \<Rightarrow> client_pool \<Rightarrow> client_pool" where
  "close_client k s = s\<lparr>pool_open := pool_open s - {k}\<rparr>"

section \<open>get\<close>

text \<open>The first critical section: closed, a client at hand, a handshake in flight, or a new one.\<close>

definition get_enter :: "nat \<Rightarrow> client_pool \<Rightarrow> client_pool option" where
  "get_enter c s =
     (if pool_caller s c \<noteq> GIdle then None
      else if pool_closed s then Some (at_caller c (GDone (Inl ErrNetClosed)) s)
      else (case pool_client s of
          Some k \<Rightarrow> Some (at_caller c (GDone (Inr k)) s)
        | None \<Rightarrow>
            (case pool_inflight s of
               Some a \<Rightarrow> Some (at_caller c (GWait a) s)
             | None \<Rightarrow> Some (at_caller c (GDial (pool_next s))
                 (s\<lparr>pool_inflight := Some (pool_next s), pool_next := Suc (pool_next s)\<rparr>)))))"

text \<open>Waiting: the handshake is done, or the caller's own context is.\<close>

definition get_wait_done :: "nat \<Rightarrow> client_pool \<Rightarrow> client_pool option" where
  "get_wait_done c s =
     (case pool_caller s c of
        GWait a \<Rightarrow> (case pool_outcome s a of None \<Rightarrow> None | Some r \<Rightarrow> Some (at_caller c (GDone r) s))
      | _ \<Rightarrow> None)"

definition get_wait_ctx :: "nat \<Rightarrow> go_error \<Rightarrow> client_pool \<Rightarrow> client_pool option" where
  "get_wait_ctx c e s =
     (case pool_caller s c of
        GWait a \<Rightarrow> (if e \<in> {ErrCanceled, ErrDeadline} then Some (at_caller c (GDone (Inl e)) s) else None)
      | _ \<Rightarrow> None)"

text \<open>\<open>p.dial(ctx)\<close>: a new open client, or an error.\<close>

definition get_dial_ok :: "nat \<Rightarrow> nat \<Rightarrow> client_pool \<Rightarrow> client_pool option" where
  "get_dial_ok c k s =
     (case pool_caller s c of
        GDial a \<Rightarrow>
          (if k \<notin> pool_dialed s
           then Some (at_caller c (GSettle a (Inr k))
             (s\<lparr>pool_open := insert k (pool_open s), pool_dialed := insert k (pool_dialed s)\<rparr>))
           else None)
      | _ \<Rightarrow> None)"

definition get_dial_fail :: "nat \<Rightarrow> go_error \<Rightarrow> client_pool \<Rightarrow> client_pool option" where
  "get_dial_fail c e s =
     (case pool_caller s c of
        GDial a \<Rightarrow> Some (at_caller c (GSettle a (Inl e)) s)
      | _ \<Rightarrow> None)"

text \<open>The second critical section: keep the client, or close it when the pool was closed.\<close>

definition get_settle :: "nat \<Rightarrow> client_pool \<Rightarrow> client_pool option" where
  "get_settle c s =
     (case pool_caller s c of
        GSettle a (Inl e) \<Rightarrow> Some (at_caller c (GPublish a (Inl e)) (s\<lparr>pool_inflight := None\<rparr>))
      | GSettle a (Inr k) \<Rightarrow>
          (if pool_closed s
           then Some (at_caller c (GPublish a (Inl ErrNetClosed))
             (close_client k (s\<lparr>pool_inflight := None\<rparr>)))
           else Some (at_caller c (GPublish a (Inr k)) (at_tender k TWait
             (s\<lparr>pool_inflight := None, pool_client := Some k, pool_keeping := insert k (pool_keeping s)\<rparr>))))
      | _ \<Rightarrow> None)"

text \<open>Publishing the result to the waiters, and returning it.\<close>

definition get_publish :: "nat \<Rightarrow> client_pool \<Rightarrow> client_pool option" where
  "get_publish c s =
     (case pool_caller s c of
        GPublish a r \<Rightarrow> Some (at_caller c (GDone r) (s\<lparr>pool_outcome := (pool_outcome s)(a := Some r)\<rparr>))
      | _ \<Rightarrow> None)"

text \<open>What a caller does with its client: keep it, or discard it after a transport failure.\<close>

definition get_leave :: "nat \<Rightarrow> client_pool \<Rightarrow> client_pool option" where
  "get_leave c s = (case pool_caller s c of GDone r \<Rightarrow> Some (at_caller c GIdle s) | _ \<Rightarrow> None)"

definition start_discard :: "nat \<Rightarrow> client_pool \<Rightarrow> client_pool option" where
  "start_discard c s =
     (case pool_caller s c of GDone (Inr k) \<Rightarrow> Some (at_caller c (GDiscard k) s) | _ \<Rightarrow> None)"

section \<open>discard, tend, keepalive, close\<close>

definition drop_client :: "nat \<Rightarrow> client_pool \<Rightarrow> client_pool" where
  "drop_client k s = (if pool_client s = Some k then s\<lparr>pool_client := None\<rparr> else s)"

definition discard_lock :: "nat \<Rightarrow> client_pool \<Rightarrow> client_pool option" where
  "discard_lock c s =
     (case pool_caller s c of
        GDiscard k \<Rightarrow> Some (at_caller c (GDiscardClose k) (drop_client k s)) | _ \<Rightarrow> None)"

definition discard_close :: "nat \<Rightarrow> client_pool \<Rightarrow> client_pool option" where
  "discard_close c s =
     (case pool_caller s c of
        GDiscardClose k \<Rightarrow> Some (at_caller c GIdle (close_client k s)) | _ \<Rightarrow> None)"

text \<open>The peer or the network ends a connection.\<close>

definition conn_lost :: "nat \<Rightarrow> client_pool \<Rightarrow> client_pool option" where
  "conn_lost k s = (if k \<in> pool_open s then Some (close_client k s) else None)"

text \<open>\<open>tend\<close>: \<open>client.Wait\<close> returns when the transport is closed; then \<open>discard\<close>.\<close>

definition tend_wake :: "nat \<Rightarrow> client_pool \<Rightarrow> client_pool option" where
  "tend_wake k s =
     (if pool_tender s k = TWait \<and> k \<notin> pool_open s then Some (at_tender k TDiscard s) else None)"

definition tend_lock :: "nat \<Rightarrow> client_pool \<Rightarrow> client_pool option" where
  "tend_lock k s =
     (if pool_tender s k = TDiscard then Some (at_tender k TClose (drop_client k s)) else None)"

definition tend_close :: "nat \<Rightarrow> client_pool \<Rightarrow> client_pool option" where
  "tend_close k s =
     (if pool_tender s k = TClose then Some (at_tender k TDone (close_client k s)) else None)"

text \<open>A tick of \<open>keepalive\<close>: the request fails on a closed transport and the goroutine ends.\<close>

definition keepalive_end :: "nat \<Rightarrow> client_pool \<Rightarrow> client_pool option" where
  "keepalive_end k s =
     (if k \<in> pool_keeping s \<and> k \<notin> pool_open s
      then Some (s\<lparr>pool_keeping := pool_keeping s - {k}\<rparr>) else None)"

text \<open>\<open>close\<close>: the critical section, then the client outside it.\<close>

definition pool_close_lock :: "client_pool \<Rightarrow> client_pool option" where
  "pool_close_lock s =
     (if pool_closer s = KIdle
      then Some (s\<lparr>pool_closer := KClient (pool_client s), pool_client := None, pool_closed := True\<rparr>)
      else None)"

definition pool_close_client :: "client_pool \<Rightarrow> client_pool option" where
  "pool_close_client s =
     (case pool_closer s of
        KClient (Some k) \<Rightarrow> Some ((close_client k s)\<lparr>pool_closer := KDone\<rparr>)
      | KClient None \<Rightarrow> Some (s\<lparr>pool_closer := KDone\<rparr>)
      | _ \<Rightarrow> None)"

section \<open>The transition system\<close>

datatype pool_label =
    PEnter nat | PWaitDone nat | PWaitCtx nat go_error | PDialOk nat nat | PDialFail nat go_error
  | PSettle nat | PPublish nat | PLeave nat | PStartDiscard nat | PDiscardLock nat
  | PDiscardClose nat | PConnLost nat | PTendWake nat | PTendLock nat | PTendClose nat
  | PKeepaliveEnd nat | PCloseLock | PCloseClient

fun pool_action :: "pool_label \<Rightarrow> client_pool \<Rightarrow> client_pool option" where
  "pool_action (PEnter c) s = get_enter c s"
| "pool_action (PWaitDone c) s = get_wait_done c s"
| "pool_action (PWaitCtx c e) s = get_wait_ctx c e s"
| "pool_action (PDialOk c k) s = get_dial_ok c k s"
| "pool_action (PDialFail c e) s = get_dial_fail c e s"
| "pool_action (PSettle c) s = get_settle c s"
| "pool_action (PPublish c) s = get_publish c s"
| "pool_action (PLeave c) s = get_leave c s"
| "pool_action (PStartDiscard c) s = start_discard c s"
| "pool_action (PDiscardLock c) s = discard_lock c s"
| "pool_action (PDiscardClose c) s = discard_close c s"
| "pool_action (PConnLost k) s = conn_lost k s"
| "pool_action (PTendWake k) s = tend_wake k s"
| "pool_action (PTendLock k) s = tend_lock k s"
| "pool_action (PTendClose k) s = tend_close k s"
| "pool_action (PKeepaliveEnd k) s = keepalive_end k s"
| "pool_action PCloseLock s = pool_close_lock s"
| "pool_action PCloseClient s = pool_close_client s"

definition pool_step :: "client_pool \<Rightarrow> pool_label \<Rightarrow> client_pool \<Rightarrow> bool" where
  "pool_step s l s' = (pool_action l s = Some s')"

lemmas pool_get_defs = get_enter_def get_wait_done_def get_wait_ctx_def get_dial_ok_def
  get_dial_fail_def get_settle_def get_publish_def get_leave_def start_discard_def

lemmas pool_other_defs = discard_lock_def discard_close_def conn_lost_def tend_wake_def
  tend_lock_def tend_close_def keepalive_end_def pool_close_lock_def pool_close_client_def

lemmas pool_update_defs = at_caller_def at_tender_def close_client_def drop_client_def

end
