(* ===== verification/SshPoolInv.thy ===== *)
theory SshPoolInv
  imports SshPool
begin

text \<open>
  The invariant of the client pool and its properties: one handshake at a time, no waiter
  without a result to come, no connection left open after \<open>close\<close>, no dead client kept.
\<close>

section \<open>The invariant\<close>

text \<open>
  Caller \<open>c\<close> is running handshake \<open>a\<close> (\<open>owns\<close>), and still has to publish it (\<open>holds\<close>); it waits
  for \<open>a\<close> (\<open>waits\<close>); it has dialled client \<open>k\<close> and not yet settled it (\<open>settling\<close>).
\<close>

definition owns :: "client_pool \<Rightarrow> nat \<Rightarrow> nat \<Rightarrow> bool" where
  "owns s c a \<longleftrightarrow> (case pool_caller s c of GDial b \<Rightarrow> b = a | GSettle b r \<Rightarrow> b = a | _ \<Rightarrow> False)"

definition holds :: "client_pool \<Rightarrow> nat \<Rightarrow> nat \<Rightarrow> bool" where
  "holds s c a \<longleftrightarrow> (case pool_caller s c of
     GDial b \<Rightarrow> b = a | GSettle b r \<Rightarrow> b = a | GPublish b r \<Rightarrow> b = a | _ \<Rightarrow> False)"

definition waits :: "client_pool \<Rightarrow> nat \<Rightarrow> nat \<Rightarrow> bool" where
  "waits s c a \<longleftrightarrow> pool_caller s c = GWait a"

definition settling :: "client_pool \<Rightarrow> nat \<Rightarrow> nat \<Rightarrow> bool" where
  "settling s c k \<longleftrightarrow> (case pool_caller s c of GSettle a (Inr j) \<Rightarrow> j = k | _ \<Rightarrow> False)"

definition flight_inv :: "client_pool \<Rightarrow> bool" where
  "flight_inv s \<longleftrightarrow>
     (\<forall>c a. owns s c a \<longrightarrow> pool_inflight s = Some a) \<and>
     (\<forall>a. pool_inflight s = Some a \<longrightarrow> pool_client s = None \<and> a < pool_next s \<and> (\<exists>c. owns s c a)) \<and>
     (\<forall>c d a. holds s c a \<longrightarrow> holds s d a \<longrightarrow> c = d) \<and>
     (\<forall>c a. holds s c a \<longrightarrow> a < pool_next s \<and> pool_outcome s a = None) \<and>
     (\<forall>a. pool_outcome s a \<noteq> None \<longrightarrow> a < pool_next s) \<and>
     (\<forall>c a. waits s c a \<longrightarrow> pool_outcome s a \<noteq> None \<or> (\<exists>d. holds s d a))"

text \<open>An open client is in the pool, or somebody is about to close or to settle it.\<close>

definition kept :: "client_pool \<Rightarrow> nat \<Rightarrow> bool" where
  "kept s k \<longleftrightarrow> pool_client s = Some k \<or> (\<exists>c. settling s c k) \<or>
     (\<exists>c. pool_caller s c = GDiscardClose k) \<or> pool_closer s = KClient (Some k)"

definition client_inv :: "client_pool \<Rightarrow> bool" where
  "client_inv s \<longleftrightarrow>
     pool_open s \<subseteq> pool_dialed s \<and>
     (\<forall>k \<in> pool_open s. kept s k) \<and>
     (\<forall>k. pool_client s = Some k \<longrightarrow> k \<in> pool_dialed s \<and> pool_tender s k \<in> {TWait, TDiscard}) \<and>
     (\<forall>c k. settling s c k \<longrightarrow> k \<in> pool_dialed s \<and> pool_tender s k = TAbsent)"

text \<open>A woken \<open>tend\<close> goroutine belongs to a closed client.\<close>

definition tend_inv :: "client_pool \<Rightarrow> bool" where
  "tend_inv s \<longleftrightarrow> (\<forall>k. (pool_tender s k \<noteq> TAbsent \<longrightarrow> k \<in> pool_dialed s) \<and>
     (pool_tender s k \<in> {TDiscard, TClose, TDone} \<longrightarrow> k \<notin> pool_open s))"

definition closed_inv :: "client_pool \<Rightarrow> bool" where
  "closed_inv s \<longleftrightarrow> (pool_closed s \<longleftrightarrow> pool_closer s \<noteq> KIdle) \<and> (pool_closed s \<longrightarrow> pool_client s = None)"

definition pool_inv :: "client_pool \<Rightarrow> bool" where
  "pool_inv s \<longleftrightarrow> flight_inv s \<and> client_inv s \<and> tend_inv s \<and> closed_inv s"

lemma owns_at [simp]: "owns (at_caller c p s) d a \<longleftrightarrow>
   (if d = c then (case p of GDial b \<Rightarrow> b = a | GSettle b r \<Rightarrow> b = a | _ \<Rightarrow> False) else owns s d a)"
  by (simp add: owns_def at_caller_def)

lemma holds_at [simp]: "holds (at_caller c p s) d a \<longleftrightarrow>
   (if d = c then (case p of GDial b \<Rightarrow> b = a | GSettle b r \<Rightarrow> b = a | GPublish b r \<Rightarrow> b = a | _ \<Rightarrow> False)
    else holds s d a)"
  by (simp add: holds_def at_caller_def)

lemma waits_at [simp]: "waits (at_caller c p s) d a \<longleftrightarrow> (if d = c then p = GWait a else waits s d a)"
  by (simp add: waits_def at_caller_def)

lemma settling_at [simp]: "settling (at_caller c p s) d k \<longleftrightarrow>
   (if d = c then (case p of GSettle a (Inr j) \<Rightarrow> j = k | _ \<Rightarrow> False) else settling s d k)"
  by (simp add: settling_def at_caller_def)

lemma at_caller_sel [simp]:
  "pool_client (at_caller c p s) = pool_client s"
  "pool_inflight (at_caller c p s) = pool_inflight s"
  "pool_closed (at_caller c p s) = pool_closed s"
  "pool_outcome (at_caller c p s) = pool_outcome s"
  "pool_tender (at_caller c p s) = pool_tender s"
  "pool_keeping (at_caller c p s) = pool_keeping s"
  "pool_open (at_caller c p s) = pool_open s"
  "pool_dialed (at_caller c p s) = pool_dialed s"
  "pool_next (at_caller c p s) = pool_next s"
  "pool_closer (at_caller c p s) = pool_closer s"
  "pool_caller (at_caller c p s) = (pool_caller s)(c := p)"
  by (simp_all add: at_caller_def)

lemma at_tender_sel [simp]:
  "pool_client (at_tender k q s) = pool_client s"
  "pool_inflight (at_tender k q s) = pool_inflight s"
  "pool_closed (at_tender k q s) = pool_closed s"
  "pool_outcome (at_tender k q s) = pool_outcome s"
  "pool_keeping (at_tender k q s) = pool_keeping s"
  "pool_open (at_tender k q s) = pool_open s"
  "pool_dialed (at_tender k q s) = pool_dialed s"
  "pool_next (at_tender k q s) = pool_next s"
  "pool_closer (at_tender k q s) = pool_closer s"
  "pool_tender (at_tender k q s) = (pool_tender s)(k := q)"
  "pool_caller (at_tender k q s) = pool_caller s"
  by (simp_all add: at_tender_def)

lemma close_client_sel [simp]:
  "pool_client (close_client k s) = pool_client s"
  "pool_inflight (close_client k s) = pool_inflight s"
  "pool_closed (close_client k s) = pool_closed s"
  "pool_outcome (close_client k s) = pool_outcome s"
  "pool_tender (close_client k s) = pool_tender s"
  "pool_keeping (close_client k s) = pool_keeping s"
  "pool_dialed (close_client k s) = pool_dialed s"
  "pool_next (close_client k s) = pool_next s"
  "pool_closer (close_client k s) = pool_closer s"
  "pool_open (close_client k s) = pool_open s - {k}"
  "pool_caller (close_client k s) = pool_caller s"
  by (simp_all add: close_client_def)

lemma drop_client_sel [simp]:
  "pool_inflight (drop_client k s) = pool_inflight s"
  "pool_closed (drop_client k s) = pool_closed s"
  "pool_outcome (drop_client k s) = pool_outcome s"
  "pool_tender (drop_client k s) = pool_tender s"
  "pool_keeping (drop_client k s) = pool_keeping s"
  "pool_open (drop_client k s) = pool_open s"
  "pool_dialed (drop_client k s) = pool_dialed s"
  "pool_next (drop_client k s) = pool_next s"
  "pool_closer (drop_client k s) = pool_closer s"
  "pool_client (drop_client k s) = (if pool_client s = Some k then None else pool_client s)"
  "pool_caller (drop_client k s) = pool_caller s"
  by (simp_all add: drop_client_def)

lemma owns_holds: "owns s c a \<Longrightarrow> holds s c a"
  by (auto simp: owns_def holds_def split: get_pc.splits)

lemma holds_iff:
  "holds s c a \<longleftrightarrow> pool_caller s c = GDial a \<or> (\<exists>r. pool_caller s c = GSettle a r) \<or>
     (\<exists>r. pool_caller s c = GPublish a r)"
  by (auto simp: holds_def split: get_pc.splits)

section \<open>The flight part\<close>

lemma flight_invD:
  assumes "flight_inv s"
  shows "owns s c a \<Longrightarrow> pool_inflight s = Some a"
    and "pool_inflight s = Some a \<Longrightarrow> pool_client s = None"
    and "pool_inflight s = Some a \<Longrightarrow> \<exists>c. owns s c a"
    and "pool_inflight s = Some a \<Longrightarrow> a < pool_next s"
    and "holds s c a \<Longrightarrow> holds s d a \<Longrightarrow> c = d"
    and "holds s c a \<Longrightarrow> a < pool_next s"
    and "holds s c a \<Longrightarrow> pool_outcome s a = None"
    and "waits s c a \<Longrightarrow> pool_outcome s a \<noteq> None \<or> (\<exists>d. holds s d a)"
    and "pool_outcome s a \<noteq> None \<Longrightarrow> a < pool_next s"
  using assms unfolding flight_inv_def by blast+

lemma flight_invI:
  assumes "\<And>c a. owns s c a \<Longrightarrow> pool_inflight s = Some a"
    and "\<And>a. pool_inflight s = Some a \<Longrightarrow> pool_client s = None \<and> a < pool_next s \<and> (\<exists>c. owns s c a)"
    and "\<And>c d a. holds s c a \<Longrightarrow> holds s d a \<Longrightarrow> c = d"
    and "\<And>c a. holds s c a \<Longrightarrow> a < pool_next s \<and> pool_outcome s a = None"
    and "\<And>a. pool_outcome s a \<noteq> None \<Longrightarrow> a < pool_next s"
    and "\<And>c a. waits s c a \<Longrightarrow> pool_outcome s a \<noteq> None \<or> (\<exists>d. holds s d a)"
  shows "flight_inv s"
  unfolding flight_inv_def
proof (intro conjI)
  show "\<forall>c a. owns s c a \<longrightarrow> pool_inflight s = Some a" using assms(1) by blast
  show "\<forall>a. pool_inflight s = Some a \<longrightarrow> pool_client s = None \<and> a < pool_next s \<and> (\<exists>c. owns s c a)"
    using assms(2) by blast
  show "\<forall>c d a. holds s c a \<longrightarrow> holds s d a \<longrightarrow> c = d" using assms(3) by blast
  show "\<forall>c a. holds s c a \<longrightarrow> a < pool_next s \<and> pool_outcome s a = None" using assms(4) by blast
  show "\<forall>a. pool_outcome s a \<noteq> None \<longrightarrow> a < pool_next s" using assms(5) by blast
  show "\<forall>c a. waits s c a \<longrightarrow> pool_outcome s a \<noteq> None \<or> (\<exists>d. holds s d a)" using assms(6) by blast
qed

text \<open>Only the position of the callers and four fields matter.\<close>

lemma flight_frame:
  assumes "flight_inv s"
    and "\<And>c a. owns t c a = owns s c a" "\<And>c a. holds t c a = holds s c a" "\<And>c a. waits t c a = waits s c a"
    and "pool_inflight t = pool_inflight s" "pool_next t = pool_next s" "pool_outcome t = pool_outcome s"
    and "pool_client t = pool_client s \<or> pool_client t = None"
  shows "flight_inv t"
  using assms unfolding flight_inv_def by auto

text \<open>A caller that holds no handshake moves to a place where it holds none.\<close>

lemma flight_passive:
  assumes inv: "flight_inv s" and c: "\<And>a. \<not> holds s c a"
    and p: "\<And>a. \<not> holds (at_caller c p s) c a"
    and w: "\<And>a. p = GWait a \<Longrightarrow> pool_inflight s = Some a"
  shows "flight_inv (at_caller c p s)"
proof -
  have o: "owns (at_caller c p s) d a = owns s d a" for d a
    using c [of a] p [of a] owns_holds [of s c a] owns_holds [of "at_caller c p s" c a]
    by (cases "d = c") (metis, simp)
  have h: "holds (at_caller c p s) d a = holds s d a" for d a
    using c [of a] p [of a] by (cases "d = c") (simp, simp)
  have new: "\<exists>d. holds s d a" if "p = GWait a" for a
    using flight_invD(3) [OF inv w [OF that]] owns_holds by blast
  have wt: "\<exists>d. holds s d a" if "waits (at_caller c p s) d a" "pool_outcome s a = None" for d a
    using that flight_invD(8) [OF inv, of d a] new by (auto split: if_splits)
  show ?thesis
  proof (rule flight_invI; unfold o h at_caller_sel)
    show "pool_inflight s = Some a \<Longrightarrow> pool_client s = None \<and> a < pool_next s \<and> (\<exists>c. owns s c a)" for a
      using flight_invD(2,3,4) [OF inv, of a] by blast
    show "waits (at_caller c p s) d a \<Longrightarrow> pool_outcome s a \<noteq> None \<or> (\<exists>d. holds s d a)" for d a
      using wt by blast
  qed (use inv in \<open>auto dest: flight_invD\<close>)
qed

lemma frame_owns:
  "pool_caller t = pool_caller s \<Longrightarrow> owns t c a = owns s c a"
  "pool_caller t = pool_caller s \<Longrightarrow> holds t c a = holds s c a"
  "pool_caller t = pool_caller s \<Longrightarrow> waits t c a = waits s c a"
  "pool_caller t = pool_caller s \<Longrightarrow> settling t c a = settling s c a"
  by (simp_all add: owns_def holds_def waits_def settling_def)

lemma flight_enter:
  assumes inv: "flight_inv s" and idle: "pool_caller s c = GIdle"
    and none: "pool_client s = None" "pool_inflight s = None"
  shows "flight_inv (at_caller c (GDial (pool_next s))
           (s\<lparr>pool_inflight := Some (pool_next s), pool_next := Suc (pool_next s)\<rparr>))"
proof -
  let ?u = "s\<lparr>pool_inflight := Some (pool_next s), pool_next := Suc (pool_next s)\<rparr>"
  have u: "owns ?u d a = owns s d a" "holds ?u d a = holds s d a" "waits ?u d a = waits s d a" for d a
    by (rule frame_owns, simp)+
  have no: "\<not> owns s d a" for d a using flight_invD(1) [OF inv, of d a] none(2) by auto
  have lt: "holds s d a \<Longrightarrow> a < pool_next s" for d a by (rule flight_invD(6) [OF inv])
  have hc: "\<not> holds s c a" for a using idle by (simp add: holds_def)
  have out: "pool_outcome s (pool_next s) = None" using flight_invD(9) [OF inv] by blast
  have wt: "pool_outcome s a \<noteq> None \<or> (\<exists>d. d \<noteq> c \<and> holds s d a)" if "waits s d a" for d a
    using flight_invD(8) [OF inv that] hc by metis
  show ?thesis
  proof (rule flight_invI)
    fix d e a
    assume "holds (at_caller c (GDial (pool_next s)) ?u) d a" "holds (at_caller c (GDial (pool_next s)) ?u) e a"
    then show "d = e" using lt [of d a] lt [of e a] flight_invD(5) [OF inv, of d a e]
      by (auto simp: u split: if_splits)
  next
    fix d a
    assume "waits (at_caller c (GDial (pool_next s)) ?u) d a"
    then have "waits s d a" by (auto simp: u split: if_splits)
    from wt [OF this] show "pool_outcome (at_caller c (GDial (pool_next s)) ?u) a \<noteq> None \<or>
      (\<exists>d. holds (at_caller c (GDial (pool_next s)) ?u) d a)" by (auto simp: u)
  next
    fix d a
    assume "holds (at_caller c (GDial (pool_next s)) ?u) d a"
    then show "a < pool_next (at_caller c (GDial (pool_next s)) ?u) \<and>
        pool_outcome (at_caller c (GDial (pool_next s)) ?u) a = None"
      using lt [of d a] flight_invD(7) [OF inv, of d a] out by (auto simp: u split: if_splits)
  next
    fix a
    assume "pool_outcome (at_caller c (GDial (pool_next s)) ?u) a \<noteq> None"
    then show "a < pool_next (at_caller c (GDial (pool_next s)) ?u)"
      using flight_invD(9) [OF inv, of a] by simp
  qed (use no none in \<open>auto simp: u split: if_splits\<close>)
qed

text \<open>The end of a dial leaves the handshake with its caller.\<close>

lemma flight_dialled:
  assumes "flight_inv s" and "pool_caller s c = GDial a"
  shows "flight_inv (at_caller c (GSettle a r) s)"
  by (rule flight_frame [OF assms(1)])
     (use assms(2) in \<open>auto simp: owns_def holds_def waits_def at_caller_def\<close>)

lemma flight_settled:
  assumes inv: "flight_inv s" and at: "pool_caller s c = GSettle a r"
    and u: "pool_caller u = pool_caller s" "pool_next u = pool_next s" "pool_outcome u = pool_outcome s"
      "pool_inflight u = None"
  shows "flight_inv (at_caller c (GPublish a q) u)"
proof -
  have o: "owns s c a" using at by (simp add: owns_def)
  have no: "\<not> owns (at_caller c (GPublish a q) u) d b" for d b
  proof
    assume d: "owns (at_caller c (GPublish a q) u) d b"
    then have "owns s d b" "d \<noteq> c" by (auto simp: frame_owns [OF u(1)] split: if_splits)
    moreover from this have "b = a"
      using flight_invD(1) [OF inv, of d b] flight_invD(1) [OF inv o] by simp
    ultimately show False
      using flight_invD(5) [OF inv, of d a c] o owns_holds by blast
  qed
  have h: "holds (at_caller c (GPublish a q) u) d b = holds s d b" for d b
    using at by (cases "d = c") (auto simp: holds_def at_caller_def u(1))
  have w: "waits (at_caller c (GPublish a q) u) d b = waits s d b" for d b
    using at by (cases "d = c") (auto simp: waits_def at_caller_def u(1))
  show ?thesis
  proof (rule flight_invI; unfold h w at_caller_sel u)
    show "waits s d b \<Longrightarrow> pool_outcome s b \<noteq> None \<or> (\<exists>d. holds s d b)" for d b
      by (rule flight_invD(8) [OF inv])
  qed (use no inv in \<open>auto dest: flight_invD(5,6,7,9)\<close>)
qed

lemma flight_published:
  assumes inv: "flight_inv s" and at: "pool_caller s c = GPublish a r"
  shows "flight_inv (at_caller c (GDone r) (s\<lparr>pool_outcome := (pool_outcome s)(a := Some r)\<rparr>))"
proof -
  let ?t = "at_caller c (GDone r) (s\<lparr>pool_outcome := (pool_outcome s)(a := Some r)\<rparr>)"
  have u: "owns ?t d b = owns s d b" "waits ?t d b = waits s d b" for d b
    using at by (cases "d = c"; simp add: owns_def waits_def at_caller_def)+
  have hold: "holds s c a" using at by (simp add: holds_def)
  have h: "holds ?t d b = (holds s d b \<and> d \<noteq> c)" for d b
    by (simp add: holds_def at_caller_def)
  have ha: "holds s d b \<Longrightarrow> d \<noteq> c \<Longrightarrow> b \<noteq> a" for d b
    using flight_invD(5) [OF inv hold] by blast
  have hc: "holds s c b \<Longrightarrow> b = a" for b using at by (simp add: holds_def)
  show ?thesis
  proof (rule flight_invI)
    fix d b
    assume "waits ?t d b"
    then have "waits s d b" by (simp only: u)
    from flight_invD(8) [OF inv this] show "pool_outcome ?t b \<noteq> None \<or> (\<exists>d. holds ?t d b)"
      unfolding h using hc by (cases "b = a") (simp, auto)
  next
    show "holds ?t d b \<Longrightarrow> b < pool_next ?t \<and> pool_outcome ?t b = None" for d b
      using ha [of d b] flight_invD(6,7) [OF inv, of d b] unfolding h by simp
    show "pool_outcome ?t b \<noteq> None \<Longrightarrow> b < pool_next ?t" for b
      using flight_invD(9) [OF inv, of b] flight_invD(6) [OF inv hold] by (simp split: if_splits)
    show "pool_inflight ?t = Some b \<Longrightarrow> pool_client ?t = None \<and> b < pool_next ?t \<and> (\<exists>c. owns ?t c b)" for b
      using flight_invD(2,3,4) [OF inv, of b] unfolding u by simp
    show "owns ?t d b \<Longrightarrow> pool_inflight ?t = Some b" for d b
      using flight_invD(1) [OF inv, of d b] unfolding u by simp
    show "holds ?t d b \<Longrightarrow> holds ?t e b \<Longrightarrow> d = e" for d e b
      using flight_invD(5) [OF inv, of d b e] unfolding h by blast
  qed
qed

section \<open>The client part\<close>

lemma client_invD:
  assumes "client_inv s"
  shows "k \<in> pool_open s \<Longrightarrow> k \<in> pool_dialed s" and "k \<in> pool_open s \<Longrightarrow> kept s k"
    and "pool_client s = Some k \<Longrightarrow> k \<in> pool_dialed s"
    and "pool_client s = Some k \<Longrightarrow> pool_tender s k \<in> {TWait, TDiscard}"
    and "settling s c k \<Longrightarrow> k \<in> pool_dialed s"
    and "settling s c k \<Longrightarrow> pool_tender s k = TAbsent"
  using assms unfolding client_inv_def by blast+

text \<open>Who keeps a client keeps it across a step unless the step is theirs.\<close>

lemma kept_step:
  assumes "kept s k"
    and "pool_client s = Some k \<Longrightarrow> kept t k"
    and "\<And>d. settling s d k \<Longrightarrow> settling t d k \<or> kept t k"
    and "\<And>d. pool_caller s d = GDiscardClose k \<Longrightarrow> pool_caller t d = GDiscardClose k \<or> kept t k"
    and "pool_closer t = pool_closer s"
  shows "kept t k"
proof (rule ccontr)
  assume no: "\<not> kept t k"
  with assms show False unfolding kept_def by metis
qed

lemma kept_client: "pool_client s = Some k \<Longrightarrow> kept s k"
  by (simp add: kept_def)

lemma client_invI:
  assumes "\<And>k. k \<in> pool_open s \<Longrightarrow> k \<in> pool_dialed s" and "\<And>k. k \<in> pool_open s \<Longrightarrow> kept s k"
    and "\<And>k. pool_client s = Some k \<Longrightarrow> k \<in> pool_dialed s \<and> pool_tender s k \<in> {TWait, TDiscard}"
    and "\<And>c k. settling s c k \<Longrightarrow> k \<in> pool_dialed s \<and> pool_tender s k = TAbsent"
  shows "client_inv s"
  unfolding client_inv_def
proof (intro conjI)
  show "\<forall>k \<in> pool_open s. kept s k" using assms(2) by blast
  show "\<forall>k. pool_client s = Some k \<longrightarrow> k \<in> pool_dialed s \<and> pool_tender s k \<in> {TWait, TDiscard}"
    using assms(3) by blast
  show "\<forall>c k. settling s c k \<longrightarrow> k \<in> pool_dialed s \<and> pool_tender s k = TAbsent" using assms(4) by blast
qed (use assms(1) in blast)

lemma client_frame:
  assumes inv: "client_inv s"
    and "\<And>k. k \<in> pool_open t \<Longrightarrow> k \<in> pool_open s" "pool_dialed t = pool_dialed s"
    and "pool_tender t = pool_tender s"
    and "pool_client t = pool_client s \<or> pool_client t = None"
    and "\<And>c k. settling t c k \<Longrightarrow> settling s c k"
    and "\<And>k. k \<in> pool_open t \<Longrightarrow> kept s k \<Longrightarrow> kept t k"
  shows "client_inv t"
proof (rule client_invI, unfold assms(3) assms(4))
  show "kept t k" if "k \<in> pool_open t" for k
    using client_invD(2) [OF inv assms(2) [OF that]] assms(7) [OF that] by blast
  show "k \<in> pool_dialed s \<and> pool_tender s k \<in> {TWait, TDiscard}" if "pool_client t = Some k" for k
    using that assms(5) client_invD(3,4) [OF inv, of k] by auto
  show "k \<in> pool_dialed s \<and> pool_tender s k = TAbsent" if "settling t c k" for c k
    using client_invD(5,6) [OF inv assms(6) [OF that]] by blast
qed (use client_invD(1) [OF inv] assms(2) in blast)

text \<open>A caller moves without touching a client.\<close>

lemma client_passive:
  assumes "client_inv s" and "\<And>k. \<not> settling s c k" and "\<And>k. pool_caller s c \<noteq> GDiscardClose k"
    and "\<And>k. \<not> settling (at_caller c p s) c k"
  shows "client_inv (at_caller c p s)"
proof (rule client_frame [OF assms(1)])
  show "settling s d k" if "settling (at_caller c p s) d k" for d k
    using that assms(4) by (cases "d = c") auto
  show "kept (at_caller c p s) k" if "kept s k" for k
    by (rule kept_step [OF that]) (use assms(2,3) in \<open>auto simp: kept_client\<close>)
qed simp_all

lemma client_dialled:
  assumes inv: "client_inv s" and at: "pool_caller s c = GDial a" and k: "k \<notin> pool_dialed s"
    and tn: "pool_tender s k = TAbsent"
  shows "client_inv (at_caller c (GSettle a (Inr k))
           (s\<lparr>pool_open := insert k (pool_open s), pool_dialed := insert k (pool_dialed s)\<rparr>))" (is "client_inv ?t")
proof -
  have st: "settling ?t d j \<longleftrightarrow> settling s d j \<or> d = c \<and> j = k" for d j
    using at by (auto simp: settling_def at_caller_def)
  have "kept ?t j" if "kept s j" for j
    by (rule kept_step [OF that]) (use at in \<open>auto simp: settling_def kept_client\<close>)
  moreover have "kept ?t k" unfolding kept_def st by blast
  ultimately show ?thesis
    using client_invD [OF inv] tn by (intro client_invI) (auto simp: st simp del: settling_at)
qed

lemma client_settled:
  assumes inv: "client_inv s" and at: "pool_caller s c = GSettle a (Inr k)"
    and only: "\<And>d. settling s d k \<Longrightarrow> d = c" and none: "pool_client s = None"
  shows "client_inv (at_caller c (GPublish a (Inr k)) (at_tender k TWait
           (s\<lparr>pool_inflight := None, pool_client := Some k, pool_keeping := insert k (pool_keeping s)\<rparr>)))" (is "client_inv ?t")
proof -
  have st: "settling ?t d j \<longleftrightarrow> settling s d j \<and> d \<noteq> c" for d j
    by (simp add: settling_def at_caller_def at_tender_def)
  have sc: "settling s c j \<longleftrightarrow> j = k" for j using at by (auto simp: settling_def)
  have "kept ?t j" if "kept s j" for j
  proof (cases "j = k")
    case True
    then show ?thesis by (simp add: kept_def)
  next
    case False
    show ?thesis by (rule kept_step [OF that]) (use at none False in \<open>auto simp: settling_def split: get_pc.splits sum.splits\<close>)
  qed
  moreover have "settling s d j \<Longrightarrow> d \<noteq> c \<Longrightarrow> j \<noteq> k" for d j using only by blast
  moreover have "k \<in> pool_dialed s" using client_invD(5) [OF inv, of c k] sc by blast
  ultimately show ?thesis
    using client_invD [OF inv] sc by (intro client_invI) (auto simp: st simp del: settling_at)
qed

lemma client_settled_closed:
  assumes inv: "client_inv s" and at: "pool_caller s c = GSettle a (Inr k)"
  shows "client_inv (at_caller c (GPublish a q) (close_client k (s\<lparr>pool_inflight := None\<rparr>)))" (is "client_inv ?t")
proof -
  have st: "settling ?t d j \<longleftrightarrow> settling s d j \<and> d \<noteq> c" for d j
    by (simp add: settling_def at_caller_def close_client_def)
  have sc: "settling s c j \<longleftrightarrow> j = k" for j using at by (auto simp: settling_def)
  have "kept ?t j" if "kept s j" "j \<noteq> k" for j
    by (rule kept_step [OF that(1)]) (use at that(2) in \<open>auto simp: settling_def kept_client\<close>)
  then show ?thesis by (intro client_frame [OF inv]) (auto simp: st simp del: settling_at)
qed

lemma client_close_frame:
  assumes "client_inv s"
  shows "client_inv (close_client k s)"
proof (rule client_frame [OF assms])
  show "settling (close_client k s) c j \<Longrightarrow> settling s c j" for c j
    by (simp add: settling_def)
  show "kept s j \<Longrightarrow> kept (close_client k s) j" for j
    by (simp add: kept_def settling_def)
qed simp_all

lemma client_discard_closed:
  assumes inv: "client_inv s" and at: "pool_caller s c = GDiscardClose k"
  shows "client_inv (at_caller c GIdle (close_client k s))" (is "client_inv ?t")
proof -
  have st: "settling ?t d j \<longleftrightarrow> settling s d j" for d j
    using at by (simp add: settling_def at_caller_def close_client_def)
  have "kept ?t j" if "kept s j" "j \<noteq> k" for j
    by (rule kept_step [OF that(1)]) (use at that(2) in \<open>auto simp: settling_def kept_client\<close>)
  then show ?thesis by (intro client_frame [OF inv]) (auto simp: st simp del: settling_at)
qed

lemma client_discard_locked:
  assumes inv: "client_inv s" and at: "pool_caller s c = GDiscard k"
  shows "client_inv (at_caller c (GDiscardClose k) (drop_client k s))" (is "client_inv ?t")
proof -
  have st: "settling ?t d j \<longleftrightarrow> settling s d j" for d j
    using at by (simp add: settling_def at_caller_def drop_client_def)
  have "kept ?t j" if "kept s j" for j
  proof (cases "j = k")
    case True
    then show ?thesis unfolding kept_def by auto
  next
    case False
    show ?thesis by (rule kept_step [OF that]) (use at False in \<open>auto simp: settling_def kept_client\<close>)
  qed
  then show ?thesis by (intro client_frame [OF inv]) (auto simp: st simp del: settling_at)
qed

lemma client_tended:
  assumes inv: "client_inv s" and t: "pool_tender s k = TWait"
  shows "client_inv (at_tender k TDiscard s)"
proof (rule client_invI)
  have st: "settling (at_tender k TDiscard s) c j = settling s c j" for c j
    by (simp add: settling_def)
  show "settling (at_tender k TDiscard s) c j \<Longrightarrow> j \<in> pool_dialed (at_tender k TDiscard s) \<and>
      pool_tender (at_tender k TDiscard s) j = TAbsent" for c j
    using client_invD(5,6) [OF inv, of c j] t unfolding st by auto
  show "j \<in> pool_open (at_tender k TDiscard s) \<Longrightarrow> kept (at_tender k TDiscard s) j" for j
    using client_invD(2) [OF inv, of j] by (simp add: kept_def st)
qed (use client_invD(1,3,4) [OF inv] in auto)

lemma client_tend_locked:
  assumes inv: "client_inv s" and t: "pool_tender s k = TDiscard" and k: "k \<notin> pool_open s"
  shows "client_inv (at_tender k TClose (drop_client k s))"
proof (rule client_invI)
  let ?t = "at_tender k TClose (drop_client k s)"
  have st: "settling ?t c j = settling s c j" for c j
    by (simp add: settling_def)
  show "settling ?t c j \<Longrightarrow> j \<in> pool_dialed ?t \<and> pool_tender ?t j = TAbsent" for c j
    using client_invD(5,6) [OF inv, of c j] t unfolding st by auto
  show "kept ?t j" if "j \<in> pool_open ?t" for j
  proof -
    from that have "j \<in> pool_open s" "j \<noteq> k" using k by auto
    with client_invD(2) [OF inv, of j] show ?thesis by (auto simp: kept_def st)
  qed
  show "pool_client ?t = Some j \<Longrightarrow> j \<in> pool_dialed ?t \<and> pool_tender ?t j \<in> {TWait, TDiscard}" for j
    using client_invD(3,4) [OF inv, of j] by (auto split: if_splits)
qed (use client_invD(1) [OF inv] in auto)

lemma client_tend_done:
  assumes inv: "client_inv s" and t: "pool_tender s k = TClose"
  shows "client_inv (at_tender k TDone (close_client k s))"
proof (rule client_invI)
  let ?t = "at_tender k TDone (close_client k s)"
  have st: "settling ?t c j = settling s c j" for c j
    by (simp add: settling_def)
  show "settling ?t c j \<Longrightarrow> j \<in> pool_dialed ?t \<and> pool_tender ?t j = TAbsent" for c j
    using client_invD(5,6) [OF inv, of c j] t unfolding st by auto
  show "j \<in> pool_open ?t \<Longrightarrow> kept ?t j" for j
    using client_invD(2) [OF inv, of j] by (simp add: kept_def st)
  show "pool_client ?t = Some j \<Longrightarrow> j \<in> pool_dialed ?t \<and> pool_tender ?t j \<in> {TWait, TDiscard}" for j
    using client_invD(3,4) [OF inv, of j] t by auto
qed (use client_invD(1) [OF inv] in auto)

lemma client_close_locked:
  assumes inv: "client_inv s" and "pool_closer s = KIdle"
  shows "client_inv (s\<lparr>pool_closer := KClient (pool_client s), pool_client := None, pool_closed := True\<rparr>)"
  by (rule client_frame [OF inv]) (use assms(2) in \<open>auto simp: kept_def settling_def\<close>)

lemma client_close_done:
  assumes inv: "client_inv s" and "pool_closer s = KClient (Some k)"
  shows "client_inv ((close_client k s)\<lparr>pool_closer := KDone\<rparr>)"
  by (rule client_frame [OF inv]) (use assms(2) in \<open>auto simp: kept_def settling_def\<close>)

lemma client_close_none:
  assumes inv: "client_inv s" and "pool_closer s = KClient None"
  shows "client_inv (s\<lparr>pool_closer := KDone\<rparr>)"
  by (rule client_frame [OF inv]) (use assms(2) in \<open>auto simp: kept_def settling_def\<close>)

section \<open>Every action keeps the invariant\<close>

lemma pool_inv_init: "pool_init s \<Longrightarrow> pool_inv s"
  by (auto simp: pool_init_def new_pool_def pool_inv_def flight_inv_def client_inv_def tend_inv_def
      closed_inv_def owns_def holds_def waits_def settling_def)

lemma settling_dialed: "client_inv s \<Longrightarrow> pool_caller s c = GSettle a (Inr k) \<Longrightarrow> k \<in> pool_dialed s"
  using client_invD(5) [of s c k] by (simp add: settling_def)

lemmas pool_splits = if_split_asm get_pc.split_asm option.split_asm sum.split_asm pool_close_pc.split_asm

lemma tend_inv_step: "pool_step s l s' \<Longrightarrow> client_inv s \<Longrightarrow> tend_inv s \<Longrightarrow> tend_inv s'"
  by (cases l; clarsimp simp: pool_step_def pool_get_defs pool_other_defs split: pool_splits;
      auto simp: tend_inv_def settling_dialed split: if_splits)

lemma closed_inv_step: "pool_step s l s' \<Longrightarrow> closed_inv s \<Longrightarrow> closed_inv s'"
  by (cases l; clarsimp simp: pool_step_def pool_get_defs pool_other_defs split: pool_splits;
      auto simp: closed_inv_def split: if_splits)

text \<open>Steps that leave the callers and the handshakes alone.\<close>

lemma flight_same_callers:
  assumes "flight_inv s" and "pool_caller t = pool_caller s" "pool_inflight t = pool_inflight s"
    and "pool_next t = pool_next s" "pool_outcome t = pool_outcome s"
    and "pool_client t = pool_client s \<or> pool_client t = None"
  shows "flight_inv t"
  by (rule flight_frame [OF assms(1) frame_owns(1) [OF assms(2)] frame_owns(2) [OF assms(2)]
        frame_owns(3) [OF assms(2)] assms(3-6)])

lemma flight_get_step:
  assumes inv: "flight_inv s"
  shows "get_enter c s = Some s' \<Longrightarrow> flight_inv s'"
    and "get_wait_done c s = Some s' \<Longrightarrow> flight_inv s'"
    and "get_wait_ctx c e s = Some s' \<Longrightarrow> flight_inv s'"
    and "get_dial_fail c e s = Some s' \<Longrightarrow> flight_inv s'"
    and "get_publish c s = Some s' \<Longrightarrow> flight_inv s'"
    and "get_leave c s = Some s' \<Longrightarrow> flight_inv s'"
    and "start_discard c s = Some s' \<Longrightarrow> flight_inv s'"
  by (clarsimp simp: pool_get_defs split: pool_splits;
      (rule flight_enter [OF inv] flight_dialled [OF inv] flight_published [OF inv]
        flight_passive [OF inv]; simp add: holds_def))+

lemma flight_dial_ok:
  assumes inv: "flight_inv s" and "get_dial_ok c k s = Some s'"
  shows "flight_inv s'"
proof -
  let ?u = "s\<lparr>pool_open := insert k (pool_open s), pool_dialed := insert k (pool_dialed s)\<rparr>"
  from assms(2) obtain a where a: "pool_caller s c = GDial a" "s' = at_caller c (GSettle a (Inr k)) ?u"
    by (auto simp: get_dial_ok_def split: pool_splits)
  have "flight_inv ?u" by (rule flight_same_callers [OF inv]) simp_all
  with a show ?thesis using flight_dialled [of ?u c a "Inr k"] by simp
qed

lemma flight_settle:
  assumes inv: "flight_inv s" and "get_settle c s = Some s'"
  shows "flight_inv s'"
  by (insert assms(2); clarsimp simp: get_settle_def split: pool_splits; intro flight_settled [OF inv]; simp)

lemma flight_discard:
  assumes inv: "flight_inv s"
  shows "discard_lock c s = Some s' \<Longrightarrow> flight_inv s'" and "discard_close c s = Some s' \<Longrightarrow> flight_inv s'"
proof -
  have d: "flight_inv (drop_client k s)" "flight_inv (close_client k s)" for k
    by (rule flight_same_callers [OF inv]; simp)+
  show "discard_lock c s = Some s' \<Longrightarrow> flight_inv s'" "discard_close c s = Some s' \<Longrightarrow> flight_inv s'"
    by (clarsimp simp: pool_other_defs split: pool_splits; rule flight_passive [OF d(1)] flight_passive [OF d(2)];
        simp add: holds_def)+
qed

lemma flight_inv_step:
  assumes "pool_step s l s'" and inv: "flight_inv s"
  shows "flight_inv s'"
proof -
  have rest: "flight_inv s'" if "conn_lost k s = Some s' \<or> tend_wake k s = Some s' \<or> tend_lock k s = Some s' \<or>
      tend_close k s = Some s' \<or> keepalive_end k s = Some s' \<or> pool_close_lock s = Some s' \<or>
      pool_close_client s = Some s'" for k
    by (rule flight_same_callers [OF inv])
       (use that in \<open>auto simp: pool_other_defs split: pool_splits\<close>)
  from assms show ?thesis
    by (cases l) (auto simp: pool_step_def intro: rest flight_get_step flight_dial_ok flight_settle flight_discard)
qed

lemma client_get_step:
  assumes inv: "client_inv s"
  shows "get_wait_done c s = Some s' \<Longrightarrow> client_inv s'"
    and "get_wait_ctx c e s = Some s' \<Longrightarrow> client_inv s'"
    and "get_dial_fail c e s = Some s' \<Longrightarrow> client_inv s'"
    and "get_leave c s = Some s' \<Longrightarrow> client_inv s'"
    and "start_discard c s = Some s' \<Longrightarrow> client_inv s'"
    and "discard_lock c s = Some s' \<Longrightarrow> client_inv s'"
    and "discard_close c s = Some s' \<Longrightarrow> client_inv s'"
  by (clarsimp simp: pool_get_defs pool_other_defs split: pool_splits;
      (rule client_discard_locked [OF inv] client_discard_closed [OF inv]
        client_passive [OF inv]; simp add: settling_def))+

lemma client_fields:
  assumes "client_inv s"
  shows "client_inv (s\<lparr>pool_inflight := i\<rparr>)" "client_inv (s\<lparr>pool_inflight := i, pool_next := n\<rparr>)"
    "client_inv (s\<lparr>pool_outcome := f\<rparr>)" "client_inv (s\<lparr>pool_keeping := K\<rparr>)"
  by (rule client_frame [OF assms]; simp add: settling_def kept_def)+

lemma client_enter:
  assumes inv: "client_inv s" and "get_enter c s = Some s'"
  shows "client_inv s'"
  by (insert assms(2); clarsimp simp: get_enter_def split: pool_splits;
      rule client_passive [OF inv] client_passive [OF client_fields(2) [OF inv]]; simp add: settling_def)

lemma client_publish:
  assumes inv: "client_inv s" and "get_publish c s = Some s'"
  shows "client_inv s'"
  by (insert assms(2); clarsimp simp: get_publish_def split: pool_splits;
      rule client_passive [OF client_fields(3) [OF inv]]; simp add: settling_def)

lemma client_dial_ok:
  assumes inv: "client_inv s" "tend_inv s" and "get_dial_ok c k s = Some s'"
  shows "client_inv s'"
  by (insert assms(3) inv(2); clarsimp simp: get_dial_ok_def split: pool_splits; intro client_dialled [OF inv(1)])
     (auto simp: tend_inv_def)

text \<open>At most one caller settles: it owns the handshake in flight, so the pool is empty.\<close>

lemma settling_alone:
  assumes inv: "flight_inv s" and at: "pool_caller s c = GSettle a (Inr k)"
  shows "settling s d j \<Longrightarrow> d = c" and "pool_client s = None"
proof -
  have o: "owns s c a" using at by (simp add: owns_def)
  then have fl: "pool_inflight s = Some a" by (rule flight_invD(1) [OF inv])
  then show "pool_client s = None" by (rule flight_invD(2) [OF inv])
  show "d = c" if "settling s d j"
  proof -
    from that obtain b where b: "owns s d b" by (auto simp: settling_def owns_def split: get_pc.splits)
    with fl have "b = a" using flight_invD(1) [OF inv b] by simp
    with b o show ?thesis using flight_invD(5) [OF inv, of d a c] owns_holds by blast
  qed
qed

lemma client_settle:
  assumes inv: "client_inv s" "flight_inv s" and "get_settle c s = Some s'"
  shows "client_inv s'"
  by (insert assms(3); clarsimp simp: get_settle_def split: pool_splits;
      (rule client_settled_closed [OF inv(1)] client_settled [OF inv(1)]
        client_passive [OF client_fields(1) [OF inv(1)]];
       ((rule settling_alone [OF inv(2)]; assumption) | simp add: settling_def)))

lemma client_inv_step:
  assumes "pool_step s l s'" and inv: "client_inv s" "flight_inv s" "tend_inv s"
  shows "client_inv s'"
proof -
  have tend: "client_inv s'" if "tend_wake k s = Some s' \<or> tend_lock k s = Some s' \<or> tend_close k s = Some s'" for k
    using that inv(3) client_tended [OF inv(1)] client_tend_locked [OF inv(1), of k] client_tend_done [OF inv(1)]
    by (auto simp: pool_other_defs tend_inv_def split: if_split_asm)
  have rest: "client_inv s'" if "conn_lost k s = Some s' \<or> keepalive_end k s = Some s' \<or>
      pool_close_lock s = Some s' \<or> pool_close_client s = Some s'" for k
    using that client_close_frame [OF inv(1)] client_fields(4) [OF inv(1)] client_close_locked [OF inv(1)]
      client_close_done [OF inv(1)] client_close_none [OF inv(1)]
    by (auto simp: pool_other_defs split: pool_splits)
  from assms show ?thesis
    by (cases l) (auto simp: pool_step_def intro: tend rest client_get_step client_enter client_publish
        client_dial_ok client_settle)
qed

lemma pool_inv_step: "pool_step s l s' \<Longrightarrow> pool_inv s \<Longrightarrow> pool_inv s'"
  unfolding pool_inv_def using flight_inv_step client_inv_step tend_inv_step closed_inv_step by blast

interpretation pools: invariant_system pool_init pool_step pool_inv
  by unfold_locales (auto intro: pool_inv_init pool_inv_step)

lemma pool_reach_inv:
  assumes "reach pool_init pool_step s"
  shows "flight_inv s" "client_inv s" "tend_inv s" "closed_inv s"
  using pools.reach_inv [OF assms] by (simp_all add: pool_inv_def)

section \<open>Properties\<close>

text \<open>C4: Concurrent callers share one handshake: at most one caller is dialling, and while it is
  the pool holds no client.\<close>

theorem pool_single_flight:
  assumes "reach pool_init pool_step s"
    and "pool_caller s c = GDial a" and "pool_caller s d = GDial b"
  shows "c = d \<and> pool_client s = None"
proof -
  note inv = pool_reach_inv(1) [OF assms(1)]
  have o: "owns s c a" "owns s d b" using assms(2,3) by (simp_all add: owns_def)
  have fl: "pool_inflight s = Some a" "pool_inflight s = Some b"
    using flight_invD(1) [OF inv o(1)] flight_invD(1) [OF inv o(2)] by simp_all
  then have "a = b" by simp
  with o have "c = d" using flight_invD(5) [OF inv, of c a d] owns_holds by blast
  with flight_invD(2) [OF inv fl(1)] show ?thesis by blast
qed

definition two_callers :: client_pool where
  "two_callers = the (exec_labels pool_action [PEnter 1, PEnter 2] new_pool)"

lemma pool_exec_reach: "exec_labels pool_action ls new_pool = Some t \<Longrightarrow> reach pool_init pool_step t"
  unfolding pool_step_def by (rule exec_labels_reach [where s = new_pool]) (simp_all add: pool_init_def)

lemmas pool_eval = pool_get_defs pool_other_defs pool_update_defs new_pool_def

lemma two_callers_run: "exec_labels pool_action [PEnter 1, PEnter 2] new_pool = Some two_callers"
  by (simp add: two_callers_def pool_eval)

lemma two_callers_at: "pool_caller two_callers 1 = GDial 0" "pool_caller two_callers 2 = GWait 0"
  by (simp_all add: two_callers_def pool_eval)

theorem pool_single_flight_witness: "pool_client two_callers = None"
  using pool_single_flight [OF pool_exec_reach [OF two_callers_run] two_callers_at(1) two_callers_at(1)]
  by blast

text \<open>A closed pool whose callers hold nothing has no open client.\<close>

lemma pool_closed_released:
  assumes "reach pool_init pool_step s" and "pool_closer s = KDone"
    and "\<And>c a k. pool_caller s c \<noteq> GSettle a (Inr k)" and "\<And>c k. pool_caller s c \<noteq> GDiscardClose k"
  shows "pool_open s = {}" and "pool_closed s"
proof -
  show closed: "pool_closed s" using pool_reach_inv(4) [OF assms(1)] assms(2) by (simp add: closed_inv_def)
  then have cl: "pool_client s = None" using pool_reach_inv(4) [OF assms(1)] by (simp add: closed_inv_def)
  have "\<not> kept s k" for k
  proof -
    have "\<not> settling s d k" for d
      using assms(3) [of d] by (auto simp: settling_def split: get_pc.splits sum.splits)
    with assms(4) cl assms(2) show ?thesis by (simp add: kept_def)
  qed
  then show "pool_open s = {}" using client_invD(2) [OF pool_reach_inv(2) [OF assms(1)]] by blast
qed

text \<open>No connection survives the pool. When \<open>close\<close> has finished and no caller is between a dial
  and its settling, or about to close a client it discarded, every client is closed; and from then on \<open>get\<close>
  answers \<open>net.ErrClosed\<close> at once.\<close>

lemma pool_close_releases:
  assumes "reach pool_init pool_step s" and "pool_closer s = KDone"
    and "\<And>c a k. pool_caller s c \<noteq> GSettle a (Inr k)" and "\<And>c k. pool_caller s c \<noteq> GDiscardClose k"
  shows "pool_open s = {} \<and>
    (pool_caller s c = GIdle \<longrightarrow> pool_action (PEnter c) s = Some (at_caller c (GDone (Inl ErrNetClosed)) s))"
  using pool_closed_released [OF assms] by (simp add: get_enter_def)

text \<open>The pool is closed while a caller dials: the dial succeeds and the client is closed.\<close>

definition closed_pool :: client_pool where
  "closed_pool = the (exec_labels pool_action
     [PEnter 1, PCloseLock, PCloseClient, PDialOk 1 7, PSettle 1, PPublish 1, PLeave 1] new_pool)"

lemma closed_pool_run:
  "exec_labels pool_action
     [PEnter 1, PCloseLock, PCloseClient, PDialOk 1 7, PSettle 1, PPublish 1, PLeave 1] new_pool =
   Some closed_pool"
  by (simp add: closed_pool_def pool_eval)

lemma pool_close_releases_witness:
  "pool_open closed_pool = {} \<and> pool_dialed closed_pool = {7} \<and>
   pool_action (PEnter 2) closed_pool = Some (at_caller 2 (GDone (Inl ErrNetClosed)) closed_pool)"
proof -
  have "pool_closer closed_pool = KDone" "pool_dialed closed_pool = {7}"
    and at: "pool_caller closed_pool c = GIdle" for c
    by (simp_all add: closed_pool_def pool_eval)
  with pool_close_releases [OF pool_exec_reach [OF closed_pool_run], of 2] show ?thesis by simp
qed

text \<open>C25: No waiter is orphaned. A caller that waits for a handshake either finds its result, or some
  caller is still bound to publish it; and once the dial of that caller is over, three steps
  bring the waiter back with the very result its owner returns.\<close>

theorem pool_waiters_answered:
  assumes "reach pool_init pool_step s" and "pool_caller s w = GWait a"
  shows "(pool_outcome s a \<noteq> None \<or> (\<exists>c r. pool_caller s c \<in> {GDial a, GSettle a r, GPublish a r})) \<and>
    (\<forall>c r. pool_caller s c = GSettle a r \<longrightarrow>
       (\<exists>t q. path pool_step s [PSettle c, PPublish c, PWaitDone w] t \<and>
          pool_caller t c = GDone q \<and> pool_caller t w = GDone q))"
proof
  note inv = pool_reach_inv(1) [OF assms(1)]
  have "waits s w a" using assms(2) by (simp add: waits_def)
  from flight_invD(8) [OF inv this]
  show "pool_outcome s a \<noteq> None \<or> (\<exists>c r. pool_caller s c \<in> {GDial a, GSettle a r, GPublish a r})"
    unfolding holds_iff by blast
  show "\<forall>c r. pool_caller s c = GSettle a r \<longrightarrow>
       (\<exists>t q. path pool_step s [PSettle c, PPublish c, PWaitDone w] t \<and>
          pool_caller t c = GDone q \<and> pool_caller t w = GDone q)"
  proof (intro allI impI)
    fix c r
    assume c: "pool_caller s c = GSettle a r"
    with assms(2) have "w \<noteq> c" by auto
    obtain t1 q where t1: "get_settle c s = Some t1" "pool_caller t1 = (pool_caller s)(c := GPublish a q)"
      using c by (cases r; cases "pool_closed s") (auto simp: get_settle_def)
    let ?t2 = "at_caller c (GDone q) (t1\<lparr>pool_outcome := (pool_outcome t1)(a := Some q)\<rparr>)"
    have t2: "get_publish c t1 = Some ?t2" using t1(2) by (simp add: get_publish_def)
    have t3: "get_wait_done w ?t2 = Some (at_caller w (GDone q) ?t2)"
      using t1(2) \<open>w \<noteq> c\<close> assms(2) by (simp add: get_wait_done_def)
    have "path pool_step s [PSettle c, PPublish c, PWaitDone w] (at_caller w (GDone q) ?t2)"
      using t1(1) t2 t3 by (auto simp: pool_step_def intro!: path.intros)
    with \<open>w \<noteq> c\<close> show "\<exists>t q. path pool_step s [PSettle c, PPublish c, PWaitDone w] t \<and>
          pool_caller t c = GDone q \<and> pool_caller t w = GDone q" by (intro exI conjI) auto
  qed
qed

theorem pool_waiters_answered_witness:
  "\<exists>c r. pool_caller two_callers c \<in> {GDial 0, GSettle 0 r, GPublish 0 r}"
proof -
  have "pool_outcome two_callers 0 = None" by (simp add: two_callers_def pool_eval)
  with pool_waiters_answered [OF pool_exec_reach [OF two_callers_run] two_callers_at(2)]
  show ?thesis by blast
qed

text \<open>C26: A dead client does not stay in the pool. When the connection of the pooled client is gone,
  its \<open>tend\<close> goroutine is able to evict it in at most two steps, and the next \<open>get\<close> dials.\<close>

theorem dead_client_evicted:
  assumes "reach pool_init pool_step s" and "pool_client s = Some k" and "k \<notin> pool_open s"
  shows "\<exists>ls t. path pool_step s ls t \<and> ls \<in> {[PTendLock k], [PTendWake k, PTendLock k]} \<and>
    pool_client t = None \<and>
    (\<forall>c. pool_caller t c = GIdle \<longrightarrow> (\<exists>u a. pool_action (PEnter c) t = Some u \<and> pool_caller u c = GDial a))"
proof -
  have cl: "\<not> pool_closed s" using pool_reach_inv(4) [OF assms(1)] assms(2) by (auto simp: closed_inv_def)
  have fl: "pool_inflight s = None"
    using flight_invD(2) [OF pool_reach_inv(1) [OF assms(1)]] assms(2) by (cases "pool_inflight s") auto
  have enter: "\<exists>u a. pool_action (PEnter c) t = Some u \<and> pool_caller u c = GDial a"
    if "pool_caller t c = GIdle" "pool_client t = None" "pool_inflight t = None" "\<not> pool_closed t" for c t
    using that by (simp add: get_enter_def)
  consider "pool_tender s k = TWait" | "pool_tender s k = TDiscard"
    using client_invD(4) [OF pool_reach_inv(2) [OF assms(1)] assms(2)] by blast
  then show ?thesis
  proof cases
    case 1
    let ?t = "at_tender k TClose (drop_client k (at_tender k TDiscard s))"
    have "path pool_step s [PTendWake k, PTendLock k] ?t"
      using 1 assms(3) by (auto simp: pool_step_def tend_wake_def tend_lock_def intro!: path.intros)
    then show ?thesis using enter [of ?t] assms(2) cl fl by (intro exI [of _ "[PTendWake k, PTendLock k]"] exI [of _ ?t]) auto
  next
    case 2
    let ?t = "at_tender k TClose (drop_client k s)"
    have "path pool_step s [PTendLock k] ?t"
      using 2 by (auto simp: pool_step_def tend_lock_def intro!: path.intros)
    then show ?thesis using enter [of ?t] assms(2) cl fl by (intro exI [of _ "[PTendLock k]"] exI [of _ ?t]) auto
  qed
qed

definition lost_client :: client_pool where
  "lost_client = the (exec_labels pool_action
     [PEnter 1, PDialOk 1 5, PSettle 1, PPublish 1, PLeave 1, PConnLost 5] new_pool)"

lemma lost_client_run:
  "exec_labels pool_action [PEnter 1, PDialOk 1 5, PSettle 1, PPublish 1, PLeave 1, PConnLost 5] new_pool =
   Some lost_client"
  by (simp add: lost_client_def pool_eval)

theorem dead_client_evicted_witness: "\<exists>ls t. path pool_step lost_client ls t \<and> pool_client t = None"
proof -
  have "pool_client lost_client = Some 5" "5 \<notin> pool_open lost_client"
    by (simp_all add: lost_client_def pool_eval)
  from dead_client_evicted [OF pool_exec_reach [OF lost_client_run] this] show ?thesis by blast
qed

end
