(* ===== verification/SshPoolSpec.thy ===== *)
theory SshPoolSpec
  imports SshPoolInv Refinement
begin

text \<open>
  What the client pool promises its callers, as a pool without handshakes: a dial and the answers
  to everybody who waits for it are one action. The pool of \<open>internal/ssh/client.go\<close> refines it:
  whatever its callers see, they may see of the specification.
\<close>

section \<open>The specification\<close>

text \<open>
  A caller is away, asks for a client, is owed an answer, or has one; a caller that has a client may
  be giving it up.
\<close>

datatype caller_view = Away | Asking | Owed "nat result" | Has "nat result" | GivingUp nat

text \<open>The client the pool holds, whether it is shut, the clients it ever held, and the callers.\<close>

record pool_spec =
  spec_current :: "nat option"
  spec_shut :: bool
  spec_used :: "nat set"
  spec_caller :: "nat \<Rightarrow> caller_view"

definition new_pool_spec :: pool_spec where
  "new_pool_spec =
     \<lparr>spec_current = None, spec_shut = False, spec_used = {}, spec_caller = (\<lambda>_. Away)\<rparr>"

definition view_at :: "nat \<Rightarrow> caller_view \<Rightarrow> pool_spec \<Rightarrow> pool_spec" where
  "view_at c v p = p\<lparr>spec_caller := (spec_caller p)(c := v)\<rparr>"

text \<open>Everybody in \<open>C\<close>, who asks, is owed \<open>r\<close>.\<close>

definition answer_all :: "nat set \<Rightarrow> nat result \<Rightarrow> pool_spec \<Rightarrow> pool_spec option" where
  "answer_all C r p =
     (if \<forall>c \<in> C. spec_caller p c = Asking
      then Some (p\<lparr>spec_caller := (\<lambda>c. if c \<in> C then Owed r else spec_caller p c)\<rparr>) else None)"

datatype spec_label =
    SAsk nat | SHit nat | SRefuse "nat set" | SInstall "nat set" nat | SFail "nat set" go_error
  | STake nat | SForgo nat go_error | SLeave nat | SGiveUp nat | SGone nat | SEvict nat | SShut

fun spec_action :: "spec_label \<Rightarrow> pool_spec \<Rightarrow> pool_spec option" where
  "spec_action (SAsk c) p = (if spec_caller p c = Away then Some (view_at c Asking p) else None)"
| "spec_action (SHit c) p =
     (case spec_current p of None \<Rightarrow> None | Some k \<Rightarrow> answer_all {c} (Inr k) p)"
| "spec_action (SRefuse C) p = (if spec_shut p then answer_all C (Inl ErrNetClosed) p else None)"
| "spec_action (SInstall C k) p =
     (if spec_shut p \<or> spec_current p \<noteq> None \<or> k \<in> spec_used p then None
      else answer_all C (Inr k) (p\<lparr>spec_current := Some k, spec_used := insert k (spec_used p)\<rparr>))"
| "spec_action (SFail C e) p = answer_all C (Inl e) p"
| "spec_action (STake c) p =
     (case spec_caller p c of Owed r \<Rightarrow> Some (view_at c (Has r) p) | _ \<Rightarrow> None)"
| "spec_action (SForgo c e) p =
     (if e \<in> {ErrCanceled, ErrDeadline} \<and> spec_caller p c \<notin> {Away} \<union> range Has \<union> range GivingUp
      then Some (view_at c (Has (Inl e)) p) else None)"
| "spec_action (SLeave c) p =
     (case spec_caller p c of Has r \<Rightarrow> Some (view_at c Away p) | _ \<Rightarrow> None)"
| "spec_action (SGiveUp c) p =
     (case spec_caller p c of Has (Inr k) \<Rightarrow> Some (view_at c (GivingUp k) p) | _ \<Rightarrow> None)"
| "spec_action (SGone c) p =
     (case spec_caller p c of GivingUp k \<Rightarrow> Some (view_at c Away p) | _ \<Rightarrow> None)"
| "spec_action (SEvict k) p =
     (if spec_current p = Some k then Some (p\<lparr>spec_current := None\<rparr>) else None)"
| "spec_action SShut p = (if spec_shut p then None else Some (p\<lparr>spec_current := None, spec_shut := True\<rparr>))"

definition spec_step :: "pool_spec \<Rightarrow> spec_label \<Rightarrow> pool_spec \<Rightarrow> bool" where
  "spec_step p l q = (spec_action l p = Some q)"

definition spec_init :: "pool_spec \<Rightarrow> bool" where
  "spec_init p \<longleftrightarrow> p = new_pool_spec"

section \<open>What callers see\<close>

text \<open>A call of \<open>get\<close>, its return, a call of \<open>discard\<close> and of \<open>close\<close>.\<close>

datatype pool_event = Call nat | Back nat "nat result" | Discards nat nat | Shut

fun spec_obs :: "pool_spec \<Rightarrow> spec_label \<Rightarrow> pool_event list" where
  "spec_obs p (SAsk c) = [Call c]"
| "spec_obs p (STake c) = (case spec_caller p c of Owed r \<Rightarrow> [Back c r] | _ \<Rightarrow> [])"
| "spec_obs p (SForgo c e) = [Back c (Inl e)]"
| "spec_obs p (SGiveUp c) = (case spec_caller p c of Has (Inr k) \<Rightarrow> [Discards c k] | _ \<Rightarrow> [])"
| "spec_obs p SShut = [Shut]"
| "spec_obs p l = []"

fun pool_obs :: "client_pool \<Rightarrow> pool_label \<Rightarrow> pool_event list" where
  "pool_obs s (PEnter c) =
     Call c # (if pool_closed s then [Back c (Inl ErrNetClosed)]
               else case pool_client s of None \<Rightarrow> [] | Some k \<Rightarrow> [Back c (Inr k)])"
| "pool_obs s (PWaitDone c) =
     (case pool_caller s c of
        GWait a \<Rightarrow> (case pool_outcome s a of None \<Rightarrow> [] | Some r \<Rightarrow> [Back c r]) | _ \<Rightarrow> [])"
| "pool_obs s (PWaitCtx c e) = [Back c (Inl e)]"
| "pool_obs s (PPublish c) = (case pool_caller s c of GPublish a r \<Rightarrow> [Back c r] | _ \<Rightarrow> [])"
| "pool_obs s (PStartDiscard c) = (case pool_caller s c of GDone (Inr k) \<Rightarrow> [Discards c k] | _ \<Rightarrow> [])"
| "pool_obs s PCloseLock = [Shut]"
| "pool_obs s l = []"

section \<open>The simulation\<close>

text \<open>The handshake \<open>a\<close> is decided: its result is published or about to be.\<close>

definition decided :: "client_pool \<Rightarrow> nat \<Rightarrow> nat result \<Rightarrow> bool" where
  "decided s a r \<longleftrightarrow> pool_outcome s a = Some r \<or> (\<exists>d. pool_caller s d = GPublish a r)"

fun view_rel :: "client_pool \<Rightarrow> get_pc \<Rightarrow> caller_view \<Rightarrow> bool" where
  "view_rel s GIdle v = (v = Away)"
| "view_rel s (GWait a) v = ((v = Asking \<and> (\<forall>r. \<not> decided s a r)) \<or> (\<exists>r. v = Owed r \<and> decided s a r))"
| "view_rel s (GDial a) v = (v = Asking)"
| "view_rel s (GSettle a r) v = (v = Asking)"
| "view_rel s (GPublish a r) v = (v = Owed r)"
| "view_rel s (GDone r) v = (v = Has r)"
| "view_rel s (GDiscard k) v = (v = GivingUp k)"
| "view_rel s (GDiscardClose k) v = (v = GivingUp k)"

definition pool_rel :: "client_pool \<Rightarrow> pool_spec \<Rightarrow> bool" where
  "pool_rel s p \<longleftrightarrow>
     spec_current p = pool_client s \<and> spec_shut p = pool_closed s \<and>
     spec_used p = {k. pool_tender s k \<noteq> TAbsent} \<and>
     (\<forall>c. view_rel s (pool_caller s c) (spec_caller p c))"

lemma view_rel_cong:
  assumes "\<And>a r. decided t a r = decided s a r"
  shows "view_rel t g v = view_rel s g v"
  by (cases g) (simp_all add: assms)

lemma pool_relD:
  assumes "pool_rel s p"
  shows "spec_current p = pool_client s" "spec_shut p = pool_closed s"
    "spec_used p = {k. pool_tender s k \<noteq> TAbsent}" "view_rel s (pool_caller s c) (spec_caller p c)"
  using assms by (simp_all add: pool_rel_def)

text \<open>A step that moves one caller, which publishes nothing.\<close>

lemma rel_move:
  assumes rel: "pool_rel s p"
    and t: "pool_client t = pool_client s" "pool_closed t = pool_closed s" "pool_outcome t = pool_outcome s"
      "pool_tender t = pool_tender s" "pool_caller t = (pool_caller s)(c := g)"
    and old: "\<And>a r. pool_caller s c \<noteq> GPublish a r" "\<And>a r. g \<noteq> GPublish a r"
    and new: "view_rel s g v"
  shows "pool_rel t (view_at c v p)"
proof -
  have "decided t a r = decided s a r" for a r
    using t(3,5) old unfolding decided_def by (metis fun_upd_apply)
  with view_rel_cong have "view_rel t h w = view_rel s h w" for h w by blast
  with rel t new show ?thesis by (auto simp: pool_rel_def view_at_def)
qed

text \<open>A step that moves no caller.\<close>

lemma rel_frame:
  assumes rel: "pool_rel s p"
    and t: "pool_caller t = pool_caller s" "pool_outcome t = pool_outcome s"
      "\<And>k. pool_tender t k = TAbsent \<longleftrightarrow> pool_tender s k = TAbsent"
  shows "pool_rel t (p\<lparr>spec_current := pool_client t, spec_shut := pool_closed t\<rparr>)"
proof -
  have "decided t a r = decided s a r" for a r using t(1,2) by (simp add: decided_def)
  with view_rel_cong have "view_rel t h w = view_rel s h w" for h w by blast
  with rel t show ?thesis by (simp add: pool_rel_def)
qed

text \<open>A step in which the pool may drop its client.\<close>

lemma rel_evict:
  assumes rel: "pool_rel s p"
    and t: "pool_caller t = pool_caller s" "pool_outcome t = pool_outcome s" "pool_closed t = pool_closed s"
      "\<And>k. pool_tender t k = TAbsent \<longleftrightarrow> pool_tender s k = TAbsent"
    and cl: "pool_client t = pool_client s \<or> pool_client s = Some k \<and> pool_client t = None"
  shows "\<exists>q. observed spec_step spec_obs p [] q \<and> pool_rel t q"
proof -
  let ?q = "p\<lparr>spec_current := pool_client t, spec_shut := pool_closed t\<rparr>"
  have q: "pool_rel t ?q" by (rule rel_frame [OF rel t(1,2,4)])
  show ?thesis
  proof (cases "pool_client t = pool_client s")
    case True
    then have "?q = p" using t(3) pool_relD(1,2) [OF rel] by simp
    with q show ?thesis using observed_nil by metis
  next
    case False
    with cl have k: "pool_client s = Some k" "pool_client t = None" by auto
    then have "spec_step p (SEvict k) ?q"
      using t(3) pool_relD(1,2) [OF rel] by (simp add: spec_step_def)
    with q show ?thesis using observed_one [of spec_step p "SEvict k" ?q spec_obs "[]"] by auto
  qed
qed

text \<open>A handshake is decided: its caller and everybody who waits for it are owed the answer.\<close>

definition batch :: "client_pool \<Rightarrow> nat \<Rightarrow> nat \<Rightarrow> nat set" where
  "batch s c a = {d. d = c \<or> pool_caller s d = GWait a}"

lemma owned_undecided:
  assumes inv: "flight_inv s" and "owns s c a"
  shows "\<not> decided s a r"
proof
  assume "decided s a r"
  have h: "holds s c a" by (rule owns_holds [OF assms(2)])
  from \<open>decided s a r\<close> flight_invD(7) [OF inv h] obtain d where d: "pool_caller s d = GPublish a r"
    by (auto simp: decided_def)
  then have "holds s d a" by (simp add: holds_iff)
  with h have "c = d" by (rule flight_invD(5) [OF inv])
  with d assms(2) show False by (simp add: owns_def)
qed

lemma batch_asks:
  assumes "pool_rel s p" and inv: "flight_inv s" and c: "pool_caller s c = GSettle a r" and "d \<in> batch s c a"
  shows "spec_caller p d = Asking"
proof -
  have "owns s c a" using c by (simp add: owns_def)
  then have "\<not> decided s a q" for q by (rule owned_undecided [OF inv])
  with assms(4) c pool_relD(4) [OF assms(1), of d] show ?thesis by (auto simp: batch_def)
qed

lemma rel_decide:
  assumes rel: "pool_rel s p" and inv: "flight_inv s" and c: "pool_caller s c = GSettle a r"
    and t: "pool_outcome t = pool_outcome s" "pool_caller t = (pool_caller s)(c := GPublish a q)"
    and p': "spec_current p' = pool_client t" "spec_shut p' = pool_closed t"
      "spec_used p' = {k. pool_tender t k \<noteq> TAbsent}"
      "spec_caller p' = (\<lambda>d. if d \<in> batch s c a then Owed q else spec_caller p d)"
  shows "pool_rel t p'"
proof -
  have o: "owns s c a" using c by (simp add: owns_def)
  have "(\<exists>d. pool_caller t d = GPublish b x) \<longleftrightarrow> (\<exists>d. pool_caller s d = GPublish b x) \<or> b = a \<and> x = q" for b x
  proof
    show "(\<exists>d. pool_caller s d = GPublish b x) \<or> b = a \<and> x = q \<Longrightarrow> \<exists>d. pool_caller t d = GPublish b x"
      using t(2) c by (metis fun_upd_apply get_pc.distinct)
  qed (use t(2) in \<open>auto split: if_split_asm\<close>)
  then have "decided t b x \<longleftrightarrow> decided s b x \<or> b = a \<and> x = q" for b x
    using t(1) by (auto simp: decided_def)
  moreover have "\<not> decided s a x" for x by (rule owned_undecided [OF inv o])
  ultimately have dec: "decided t a x \<longleftrightarrow> x = q" "b \<noteq> a \<Longrightarrow> decided t b x \<longleftrightarrow> decided s b x" for b x
    by auto
  have "view_rel t (pool_caller t d) (spec_caller p' d)" for d
  proof (cases "d \<in> batch s c a")
    case True
    then show ?thesis using p'(4) t(2) dec(1) by (auto simp: batch_def)
  next
    case False
    then have "d \<noteq> c" "pool_caller s d \<noteq> GWait a" by (auto simp: batch_def)
    with False p'(4) t(2) pool_relD(4) [OF rel, of d] dec(2) show ?thesis
      by (cases "pool_caller s d") auto
  qed
  with p' show ?thesis by (simp add: pool_rel_def)
qed

text \<open>A caller that asks and is answered at once.\<close>

lemma view_at_sel [simp]:
  "spec_current (view_at c v p) = spec_current p" "spec_shut (view_at c v p) = spec_shut p"
  "spec_used (view_at c v p) = spec_used p" "spec_caller (view_at c v p) = (spec_caller p)(c := v)"
  "view_at c w (view_at c v p) = view_at c w p"
  by (simp_all add: view_at_def)

lemma answer_one: "spec_caller p c = Asking \<Longrightarrow> answer_all {c} r p = Some (view_at c (Owed r) p)"
  by (simp add: answer_all_def view_at_def fun_upd_def)

lemmas spec_observed_one = observed_one [where step = spec_step and obs = spec_obs]
lemmas spec_observed_then = observed_then [where step = spec_step and obs = spec_obs]

lemma observed_answered:
  assumes "spec_caller p c = Away"
    and "spec_action l (view_at c Asking p) = answer_all {c} r (view_at c Asking p)"
    and "spec_obs (view_at c Asking p) l = []"
  shows "observed spec_step spec_obs p [Call c, Back c r] (view_at c (Has r) p)"
proof -
  have 1: "spec_step p (SAsk c) (view_at c Asking p)" using assms(1) by (simp add: spec_step_def)
  have 2: "spec_step (view_at c Asking p) l (view_at c (Owed r) p)"
    using assms(2) answer_one [of "view_at c Asking p" c r] by (simp add: spec_step_def)
  have 3: "spec_step (view_at c (Owed r) p) (STake c) (view_at c (Has r) p)" by (simp add: spec_step_def)
  have "observed spec_step spec_obs (view_at c (Owed r) p) [Back c r] (view_at c (Has r) p)"
    by (rule observed_one [where l = "STake c"], rule 3) simp
  then have "observed spec_step spec_obs (view_at c Asking p) ([] @ [Back c r]) (view_at c (Has r) p)"
    by (rule spec_observed_then [OF 2 assms(3)])
  then have "observed spec_step spec_obs p ([Call c] @ [] @ [Back c r]) (view_at c (Has r) p)"
    by (intro spec_observed_then [OF 1]) simp_all
  then show ?thesis by simp
qed

section \<open>Every step is matched\<close>

abbreviation matched :: "client_pool \<Rightarrow> pool_label \<Rightarrow> client_pool \<Rightarrow> pool_spec \<Rightarrow> bool" where
  "matched s l t p \<equiv> \<exists>q. observed spec_step spec_obs p (pool_obs s l) q \<and> pool_rel t q"

lemma matched_move:
  assumes "pool_rel s p" "\<And>a r. pool_caller s c \<noteq> GPublish a r" "\<And>a r. g \<noteq> GPublish a r"
    and "view_rel s g v" and "observed spec_step spec_obs p (pool_obs s l) (view_at c v p)"
  shows "matched s l (at_caller c g s) p"
  using rel_move [OF assms(1) _ _ _ _ _ assms(2,3,4), of "at_caller c g s"] assms(5) by auto

lemma match_enter:
  assumes "get_enter c s = Some t" and rel: "pool_rel s p" and inv: "flight_inv s"
  shows "matched s (PEnter c) t p"
proof -
  have idle: "pool_caller s c = GIdle" using assms(1) by (auto simp: get_enter_def split: if_split_asm)
  with pool_relD(4) [OF rel, of c] have away: "spec_caller p c = Away" by simp
  note cur = pool_relD(1,2) [OF rel]
  consider (closed) "pool_closed s"
    | (hit) k where "\<not> pool_closed s" "pool_client s = Some k"
    | (wait) a where "\<not> pool_closed s" "pool_client s = None" "pool_inflight s = Some a"
    | (dial) "\<not> pool_closed s" "pool_client s = None" "pool_inflight s = None"
    by (cases "pool_client s"; cases "pool_inflight s") blast+
  then show ?thesis
  proof cases
    case closed
    have "observed spec_step spec_obs p [Call c, Back c (Inl ErrNetClosed)] (view_at c (Has (Inl ErrNetClosed)) p)"
      by (rule observed_answered [OF away, of "SRefuse {c}"]) (simp_all add: cur closed)
    moreover have "t = at_caller c (GDone (Inl ErrNetClosed)) s"
      using assms(1) idle closed by (simp add: get_enter_def)
    ultimately show ?thesis using closed idle by (simp only:, intro matched_move [OF rel]) auto
  next
    case hit
    have "observed spec_step spec_obs p [Call c, Back c (Inr k)] (view_at c (Has (Inr k)) p)"
      by (rule observed_answered [OF away, of "SHit c"]) (simp_all add: cur hit)
    moreover have "t = at_caller c (GDone (Inr k)) s" using assms(1) idle hit by (simp add: get_enter_def)
    ultimately show ?thesis using hit idle by (simp only:, intro matched_move [OF rel]) auto
  next
    case wait
    have ask: "observed spec_step spec_obs p [Call c] (view_at c Asking p)"
      by (rule spec_observed_one [where l = "SAsk c"]) (simp_all add: spec_step_def away)
    obtain d where d: "owns s d a" using flight_invD(3) [OF inv wait(3)] by blast
    have "\<not> decided s a r" for r by (rule owned_undecided [OF inv d])
    moreover have "t = at_caller c (GWait a) s" using assms(1) idle wait by (simp add: get_enter_def)
    ultimately show ?thesis using wait idle ask by (simp only:, intro matched_move [OF rel]) auto
  next
    case dial
    have ask: "observed spec_step spec_obs p [Call c] (view_at c Asking p)"
      by (rule spec_observed_one [where l = "SAsk c"]) (simp_all add: spec_step_def away)
    have "pool_rel t (view_at c Asking p)"
      by (rule rel_move [OF rel, where g = "GDial (pool_next s)"])
        (use assms(1) idle dial in \<open>auto simp: get_enter_def\<close>)
    with ask dial show ?thesis by auto
  qed
qed

lemma match_moves:
  assumes rel: "pool_rel s p" and inv: "flight_inv s"
  shows "get_wait_done c s = Some t \<Longrightarrow> matched s (PWaitDone c) t p"
    and "get_wait_ctx c e s = Some t \<Longrightarrow> matched s (PWaitCtx c e) t p"
    and "get_leave c s = Some t \<Longrightarrow> matched s (PLeave c) t p"
    and "start_discard c s = Some t \<Longrightarrow> matched s (PStartDiscard c) t p"
proof -
  note view = pool_relD(4) [OF rel, of c]
  show "matched s (PWaitDone c) t p" if "get_wait_done c s = Some t"
  proof -
    from that obtain a r where a: "pool_caller s c = GWait a" "pool_outcome s a = Some r"
      and t: "t = at_caller c (GDone r) s"
      by (auto simp: get_wait_done_def split: get_pc.splits option.splits)
    have "decided s a x \<longleftrightarrow> x = r" for x
      using a(2) flight_invD(7) [OF inv, of _ a] by (auto simp: decided_def holds_iff)
    with view a have "spec_caller p c = Owed r" by auto
    then have "observed spec_step spec_obs p [Back c r] (view_at c (Has r) p)"
      by (intro spec_observed_one [where l = "STake c"]) (simp_all add: spec_step_def)
    with a show ?thesis unfolding t by (intro matched_move [OF rel]) auto
  qed
  show "matched s (PWaitCtx c e) t p" if "get_wait_ctx c e s = Some t"
  proof -
    from that obtain a where a: "pool_caller s c = GWait a" "e \<in> {ErrCanceled, ErrDeadline}"
      and t: "t = at_caller c (GDone (Inl e)) s"
      by (auto simp: get_wait_ctx_def split: get_pc.splits if_split_asm)
    from view a have "spec_caller p c \<notin> {Away} \<union> range Has \<union> range GivingUp" by auto
    with a(2) have "observed spec_step spec_obs p [Back c (Inl e)] (view_at c (Has (Inl e)) p)"
      by (intro spec_observed_one [where l = "SForgo c e"]) (simp_all add: spec_step_def)
    with a show ?thesis unfolding t by (intro matched_move [OF rel]) auto
  qed
  show "matched s (PLeave c) t p" if "get_leave c s = Some t"
  proof -
    from that obtain r where a: "pool_caller s c = GDone r" and t: "t = at_caller c GIdle s"
      by (auto simp: get_leave_def split: get_pc.splits)
    from view a have "observed spec_step spec_obs p [] (view_at c Away p)"
      by (intro spec_observed_one [where l = "SLeave c"]) (simp_all add: spec_step_def)
    with a show ?thesis unfolding t by (intro matched_move [OF rel]) auto
  qed
  show "matched s (PStartDiscard c) t p" if "start_discard c s = Some t"
  proof -
    from that obtain k where a: "pool_caller s c = GDone (Inr k)" and t: "t = at_caller c (GDiscard k) s"
      by (auto simp: start_discard_def split: get_pc.splits sum.splits)
    from view a have "observed spec_step spec_obs p [Discards c k] (view_at c (GivingUp k) p)"
      by (intro spec_observed_one [where l = "SGiveUp c"]) (simp_all add: spec_step_def)
    with a show ?thesis unfolding t by (intro matched_move [OF rel]) auto
  qed
qed

lemma answer_batch:
  assumes "pool_rel s p" "flight_inv s" "pool_caller s c = GSettle a r" and "spec_caller p' = spec_caller p"
  shows "answer_all (batch s c a) q p' =
    Some (p'\<lparr>spec_caller := (\<lambda>d. if d \<in> batch s c a then Owed q else spec_caller p d)\<rparr>)"
  unfolding answer_all_def assms(4) using batch_asks [OF assms(1,2,3)] by simp

lemma match_settle:
  assumes step: "get_settle c s = Some t" and rel: "pool_rel s p" and inv: "flight_inv s" "client_inv s"
  shows "matched s (PSettle c) t p"
proof -
  note cur = pool_relD(1,2,3) [OF rel]
  from step obtain a r where c: "pool_caller s c = GSettle a r"
    by (auto simp: get_settle_def split: get_pc.splits)
  note answer = answer_batch [OF rel inv(1) c]
  have *: "matched s (PSettle c) t p"
    if l: "spec_action l p = answer_all (batch s c a) q p'" "spec_obs p l = []" and "spec_caller p' = spec_caller p"
      and t: "pool_outcome t = pool_outcome s" "pool_caller t = (pool_caller s)(c := GPublish a q)"
      and p': "spec_current p' = pool_client t" "spec_shut p' = pool_closed t"
        "spec_used p' = {k. pool_tender t k \<noteq> TAbsent}" for l q p'
  proof -
    let ?q = "p'\<lparr>spec_caller := (\<lambda>d. if d \<in> batch s c a then Owed q else spec_caller p d)\<rparr>"
    have "spec_step p l ?q" using l(1) answer [OF that(3), of q] by (simp add: spec_step_def)
    then have "observed spec_step spec_obs p [] ?q" by (rule spec_observed_one [OF _ l(2)])
    moreover have "pool_rel t ?q" by (rule rel_decide [OF rel inv(1) c t]) (simp_all add: p')
    ultimately show ?thesis by auto
  qed
  show ?thesis
  proof (cases r)
    case (Inl e)
    with step c have t: "t = at_caller c (GPublish a (Inl e)) (s\<lparr>pool_inflight := None\<rparr>)"
      by (simp add: get_settle_def)
    show ?thesis
      by (rule * [where l = "SFail (batch s c a) e" and p' = p and q = "Inl e"]) (simp_all add: t cur)
  next
    case (Inr k)
    have set: "settling s c k" using c Inr by (simp add: settling_def)
    have fresh: "k \<notin> spec_used p" using client_invD(6) [OF inv(2) set] cur(3) by simp
    have empty: "pool_client s = None" using settling_alone(2) [OF inv(1)] c Inr by simp
    show ?thesis
    proof (cases "pool_closed s")
      case True
      with step c Inr have t: "t = at_caller c (GPublish a (Inl ErrNetClosed))
        (close_client k (s\<lparr>pool_inflight := None\<rparr>))" by (simp add: get_settle_def)
      show ?thesis
        by (rule * [where l = "SRefuse (batch s c a)" and p' = p and q = "Inl ErrNetClosed"])
          (simp_all add: t cur True)
    next
      case False
      with step c Inr have t: "t = at_caller c (GPublish a (Inr k)) (at_tender k TWait
        (s\<lparr>pool_inflight := None, pool_client := Some k, pool_keeping := insert k (pool_keeping s)\<rparr>))"
        by (simp add: get_settle_def)
      have used: "insert k (spec_used p) = {j. pool_tender t j \<noteq> TAbsent}" using cur(3) by (auto simp: t)
      show ?thesis
        by (rule * [where l = "SInstall (batch s c a) k" and q = "Inr k" and
              p' = "p\<lparr>spec_current := Some k, spec_used := insert k (spec_used p)\<rparr>"])
          (use False fresh empty used in \<open>simp_all add: t cur(1,2)\<close>)
    qed
  qed
qed

lemma match_publish:
  assumes step: "get_publish c s = Some t" and rel: "pool_rel s p" and inv: "flight_inv s"
  shows "matched s (PPublish c) t p"
proof -
  from step obtain a r where c: "pool_caller s c = GPublish a r"
    and t: "t = at_caller c (GDone r) (s\<lparr>pool_outcome := (pool_outcome s)(a := Some r)\<rparr>)"
    by (auto simp: get_publish_def split: get_pc.splits)
  have h: "holds s c a" using c by (simp add: holds_iff)
  have one: "x = r" if d: "pool_caller s d = GPublish a x" for d x
  proof -
    have "holds s d a" using d by (simp add: holds_iff)
    with h have "c = d" by (rule flight_invD(5) [OF inv])
    with c d show ?thesis by simp
  qed
  have "decided t b x \<longleftrightarrow> decided s b x" for b x
  proof (cases "b = a")
    case True
    have "decided s a x \<longleftrightarrow> x = r"
      using one [of _ x] c flight_invD(7) [OF inv h] unfolding decided_def by (metis option.distinct(1))
    moreover have "decided t a x \<longleftrightarrow> x = r"
      using one [of _ x] unfolding decided_def t by (auto split: if_split_asm)
    ultimately show ?thesis using True by simp
  next
    case False
    have "pool_caller t d = GPublish b x \<longleftrightarrow> pool_caller s d = GPublish b x" for d
      using c False by (cases "d = c") (simp_all add: t)
    with False show ?thesis by (simp add: decided_def t)
  qed
  with view_rel_cong have "view_rel t g v = view_rel s g v" for g v by blast
  with rel have "pool_rel t (view_at c (Has r) p)" by (auto simp: pool_rel_def t)
  moreover have "spec_caller p c = Owed r" using pool_relD(4) [OF rel, of c] c by simp
  then have "observed spec_step spec_obs p [Back c r] (view_at c (Has r) p)"
    by (intro spec_observed_one [where l = "STake c"]) (simp_all add: spec_step_def)
  ultimately show ?thesis using c by auto
qed

lemma match_dial:
  assumes rel: "pool_rel s p"
  shows "get_dial_ok c k s = Some t \<Longrightarrow> matched s (PDialOk c k) t p"
    and "get_dial_fail c e s = Some t \<Longrightarrow> matched s (PDialFail c e) t p"
proof -
  have *: "pool_rel t p"
    if "pool_caller s c = GDial a" "pool_client t = pool_client s" "pool_closed t = pool_closed s"
      "pool_outcome t = pool_outcome s" "pool_tender t = pool_tender s"
      "pool_caller t = (pool_caller s)(c := GSettle a r)" for a r
  proof -
    have "spec_caller p c = Asking" using pool_relD(4) [OF rel, of c] that(1) by simp
    then have "view_at c Asking p = p" by (simp add: view_at_def fun_upd_idem)
    with rel_move [OF rel that(2-6), of Asking] that(1) show ?thesis by simp
  qed
  show "get_dial_ok c k s = Some t \<Longrightarrow> matched s (PDialOk c k) t p"
    using * observed_nil by (force simp: get_dial_ok_def split: get_pc.splits if_split_asm)
  show "get_dial_fail c e s = Some t \<Longrightarrow> matched s (PDialFail c e) t p"
    using * observed_nil by (force simp: get_dial_fail_def split: get_pc.splits)
qed

lemma match_evictions:
  assumes rel: "pool_rel s p"
  shows "discard_lock c s = Some t \<Longrightarrow> matched s (PDiscardLock c) t p"
    and "tend_lock k s = Some t \<Longrightarrow> matched s (PTendLock k) t p"
    and "conn_lost k s = Some t \<Longrightarrow> matched s (PConnLost k) t p"
    and "tend_wake k s = Some t \<Longrightarrow> matched s (PTendWake k) t p"
    and "tend_close k s = Some t \<Longrightarrow> matched s (PTendClose k) t p"
    and "keepalive_end k s = Some t \<Longrightarrow> matched s (PKeepaliveEnd k) t p"
    and "pool_close_client s = Some t \<Longrightarrow> matched s PCloseClient t p"
proof -
  show "matched s (PDiscardLock c) t p" if "discard_lock c s = Some t"
  proof -
    from that obtain j where c: "pool_caller s c = GDiscard j"
      and t: "t = at_caller c (GDiscardClose j) (drop_client j s)"
      by (auto simp: discard_lock_def split: get_pc.splits)
    have "spec_caller p c = GivingUp j" using pool_relD(4) [OF rel, of c] c by simp
    then have "view_at c (GivingUp j) p = p" by (simp add: view_at_def fun_upd_idem)
    with rel_move [OF rel, of "at_caller c (GDiscardClose j) s" c "GDiscardClose j" "GivingUp j"] c
    have moved: "pool_rel (at_caller c (GDiscardClose j) s) p" by simp
    show ?thesis unfolding t pool_obs.simps by (rule rel_evict [OF moved]) (auto simp: at_caller_def drop_client_def)
  qed
  show "tend_lock k s = Some t \<Longrightarrow> matched s (PTendLock k) t p"
    unfolding pool_obs.simps
    by (rule rel_evict [OF rel]) (auto simp: tend_lock_def split: if_split_asm)
  show "conn_lost k s = Some t \<Longrightarrow> matched s (PConnLost k) t p"
    "tend_wake k s = Some t \<Longrightarrow> matched s (PTendWake k) t p"
    "tend_close k s = Some t \<Longrightarrow> matched s (PTendClose k) t p"
    "keepalive_end k s = Some t \<Longrightarrow> matched s (PKeepaliveEnd k) t p"
    "pool_close_client s = Some t \<Longrightarrow> matched s PCloseClient t p"
    unfolding pool_obs.simps
    by (rule rel_evict [OF rel]; auto simp: pool_other_defs split: pool_splits)+
qed

lemma match_close:
  assumes rel: "pool_rel s p"
  shows "pool_close_lock s = Some t \<Longrightarrow> closed_inv s \<Longrightarrow> matched s PCloseLock t p"
    and "discard_close c s = Some t \<Longrightarrow> matched s (PDiscardClose c) t p"
proof -
  show "matched s PCloseLock t p" if "pool_close_lock s = Some t" "closed_inv s"
  proof -
    let ?q = "p\<lparr>spec_current := pool_client t, spec_shut := pool_closed t\<rparr>"
    have "\<not> spec_shut p" "pool_client t = None" "pool_closed t"
      using that pool_relD(2) [OF rel] by (auto simp: pool_close_lock_def closed_inv_def split: if_split_asm)
    then have "spec_step p SShut ?q" by (simp add: spec_step_def)
    then have "observed spec_step spec_obs p [Shut] ?q" by (rule spec_observed_one) simp
    moreover have "pool_rel t ?q"
      by (rule rel_frame [OF rel]) (use that(1) in \<open>auto simp: pool_close_lock_def split: if_split_asm\<close>)
    ultimately show ?thesis by auto
  qed
  show "matched s (PDiscardClose c) t p" if "discard_close c s = Some t"
  proof -
    from that obtain j where c: "pool_caller s c = GDiscardClose j" and t: "t = at_caller c GIdle (close_client j s)"
      by (auto simp: discard_close_def split: get_pc.splits)
    have "spec_caller p c = GivingUp j" using pool_relD(4) [OF rel, of c] c by simp
    then have "observed spec_step spec_obs p [] (view_at c Away p)"
      by (intro spec_observed_one [where l = "SGone c"]) (simp_all add: spec_step_def)
    moreover have "pool_rel t (view_at c Away p)"
      by (rule rel_move [OF rel, where g = GIdle]) (simp_all add: t c)
    ultimately show ?thesis by auto
  qed
qed

lemma pool_step_matched:
  assumes "pool_step s l t" "pool_inv s" "pool_rel s p"
  shows "matched s l t p"
proof -
  have inv: "flight_inv s" "client_inv s" "closed_inv s" using assms(2) by (simp_all add: pool_inv_def)
  note rel = assms(3)
  show ?thesis
    using assms(1) unfolding pool_step_def
    by (cases l; simp only: pool_action.simps)
      (rule match_enter [OF _ rel inv(1)] match_moves [OF rel inv(1)] match_dial [OF rel]
         match_settle [OF _ rel inv(1,2)] match_publish [OF _ rel inv(1)] match_evictions [OF rel]
         match_close(1) [OF rel _ inv(3)] match_close(2) [OF rel]; assumption)+
qed

interpretation pool_sim: simulation pool_init pool_step pool_inv pool_obs spec_init spec_step spec_obs pool_rel
proof unfold_locales
  show "pool_init s \<Longrightarrow> \<exists>p. spec_init p \<and> pool_rel s p" for s
    by (simp add: pool_init_def spec_init_def pool_rel_def new_pool_def new_pool_spec_def)
qed (rule pool_step_matched)

section \<open>Properties\<close>

text \<open>C5: The pool refines its specification. Whatever the callers see of a run of the pool, from its
  start, in calls, answers, discards and the closing, they may see of the pool without handshakes,
  which ends with the same client, as closed as the pool is, and with the same answer for everybody
  who has one.\<close>

theorem pool_refines_spec:
  assumes "pool_init s" and "observed pool_step pool_obs s os t"
  shows "\<exists>q. observed spec_step spec_obs new_pool_spec os q \<and> spec_current q = pool_client t \<and>
    spec_shut q = pool_closed t \<and> (\<forall>c r. pool_caller t c = GDone r \<longrightarrow> spec_caller q c = Has r)"
proof -
  from pool_sim.refines [OF assms] obtain q where q: "observed spec_step spec_obs new_pool_spec os q" "pool_rel t q"
    by (auto simp: spec_init_def)
  with pool_relD [OF q(2)] show ?thesis by (metis view_rel.simps(6))
qed

definition shared_dial :: "pool_label list" where
  "shared_dial = [PEnter 1, PEnter 2, PDialOk 1 7, PSettle 1, PPublish 1, PWaitDone 2]"

definition shared_pool :: client_pool where
  "shared_pool = snd (the (exec_observed pool_action pool_obs shared_dial new_pool))"

lemma shared_pool_run:
  "exec_observed pool_action pool_obs shared_dial new_pool =
   Some ([Call 1, Call 2, Back 1 (Inr 7), Back 2 (Inr 7)], shared_pool)"
  by (simp add: shared_pool_def shared_dial_def pool_eval)

theorem pool_refines_spec_witness:
  "\<exists>q. observed spec_step spec_obs new_pool_spec [Call 1, Call 2, Back 1 (Inr 7), Back 2 (Inr 7)] q \<and>
     spec_current q = Some 7 \<and> spec_caller q 2 = Has (Inr 7)"
proof -
  have run: "observed pool_step pool_obs new_pool [Call 1, Call 2, Back 1 (Inr 7), Back 2 (Inr 7)] shared_pool"
    using exec_observed_run [OF shared_pool_run] unfolding pool_step_def .
  have at: "pool_client shared_pool = Some 7" "pool_caller shared_pool 2 = GDone (Inr 7)"
    by (simp_all add: shared_pool_def shared_dial_def pool_eval)
  have "pool_init new_pool" by (simp add: pool_init_def)
  from pool_refines_spec [OF this run] at show ?thesis by auto
qed

text \<open>
  What the specification says, the pool does: once it is closed, a caller that was away is never
  given a client.
\<close>

definition serves_nobody :: "nat \<Rightarrow> pool_spec \<Rightarrow> bool" where
  "serves_nobody c p \<longleftrightarrow> spec_shut p \<and> spec_current p = None \<and>
     (\<forall>k. spec_caller p c \<noteq> Owed (Inr k))"

lemma serves_nobody_step:
  assumes "spec_step p l q" and "serves_nobody c p"
  shows "serves_nobody c q \<and> Back c (Inr k) \<notin> set (spec_obs p l)"
  using assms
  by (cases l; fastforce simp: spec_step_def serves_nobody_def answer_all_def view_at_def
      split: if_split_asm option.split_asm caller_view.split_asm sum.split_asm caller_view.split sum.split)

lemma serves_nobody_run:
  "observed spec_step spec_obs p os q \<Longrightarrow> serves_nobody c p \<Longrightarrow> Back c (Inr k) \<notin> set os"
  by (induction rule: observed.induct) (simp_all, use serves_nobody_step in blast)

lemma closed_pool_serves_nobody:
  assumes "reach pool_init pool_step s" and "pool_closed s" and "pool_caller s c = GIdle"
    and "observed pool_step pool_obs s os t"
  shows "Back c (Inr k) \<notin> set os"
proof -
  from pool_sim.reach_related [OF assms(1)] obtain p where rel: "pool_rel s p" by blast
  have "pool_client s = None" using pool_reach_inv(4) [OF assms(1)] assms(2) by (simp add: closed_inv_def)
  then have "serves_nobody c p"
    using pool_relD(1,2) [OF rel] pool_relD(4) [OF rel, of c] assms(2,3) by (simp add: serves_nobody_def)
  moreover obtain q where "observed spec_step spec_obs p os q"
    using pool_sim.observed_simulated [OF assms(4) pools.reach_inv [OF assms(1)] rel] by blast
  ultimately show ?thesis using serves_nobody_run by blast
qed

end
