(* ===== verification/SshProcess.thy ===== *)
theory SshProcess
  imports Serving SshPoolSpec
begin

text \<open>
  The serving SSH tunnel as one system: the connection server, the client pool, one handler with its
  relay for every local connection, and the deferred calls of \<open>runTunnel\<close> in
  \<open>internal/ssh/tunnel.go\<close>. The components keep their own actions and invariants; this theory adds
  who calls whom, and what that gives at the end of the process.
\<close>

section \<open>State\<close>

text \<open>
  A handler (\<open>forwarder.handle\<close>): not running; in round \<open>i\<close> of \<open>dialTarget\<close>; discarding the client of
  round \<open>i\<close>; relaying; about to return. \<open>runTunnel\<close>: in \<open>fwd.Serve\<close>; in the deferred \<open>fwd.Close()\<close>; in
  the deferred \<open>clients.close()\<close>; returned.
\<close>

datatype forward_pc = FAway | FDial nat | FDrop nat | FRelay relay | FEnd

datatype process_pc = ProcServing | ProcCloseServer | ProcCloseClients | ProcExited

record ssh_process =
  proc_server :: conn_server
  proc_pool :: client_pool
  proc_handler :: "nat \<Rightarrow> forward_pc"
  proc_main :: process_pc

text \<open>\<open>fwd.Serve\<close> is entered with the pool as the connection to the bastion and the probe left it.\<close>

definition process_init :: "ssh_process \<Rightarrow> bool" where
  "process_init s \<longleftrightarrow>
     conn_init (proc_server s) \<and> reach pool_init pool_step (proc_pool s) \<and>
     (\<forall>c. pool_caller (proc_pool s) c = GIdle) \<and> pool_closer (proc_pool s) = KIdle \<and>
     (\<forall>c. proc_handler s c = FAway) \<and> proc_main s = ProcServing"

definition with_server :: "conn_label \<Rightarrow> ssh_process \<Rightarrow> ssh_process option" where
  "with_server l s = map_option (\<lambda>v. s\<lparr>proc_server := v\<rparr>) (conn_action l (proc_server s))"

definition with_pool :: "pool_label \<Rightarrow> ssh_process \<Rightarrow> ssh_process option" where
  "with_pool l s = map_option (\<lambda>p. s\<lparr>proc_pool := p\<rparr>) (pool_action l (proc_pool s))"

definition handler_to :: "nat \<Rightarrow> forward_pc \<Rightarrow> ssh_process \<Rightarrow> ssh_process" where
  "handler_to c f s = s\<lparr>proc_handler := (proc_handler s)(c := f)\<rparr>"

definition main_to :: "process_pc \<Rightarrow> ssh_process \<Rightarrow> ssh_process" where
  "main_to m s = s\<lparr>proc_main := m\<rparr>"

section \<open>The server's side\<close>

text \<open>When the server closes a connection on shutdown, its relay finds the local stream closed.\<close>

fun local_closed :: "forward_pc \<Rightarrow> forward_pc" where
  "local_closed (FRelay r) = FRelay (close_local r)"
| "local_closed f = f"

fun server_effect :: "conn_label \<Rightarrow> ssh_process \<Rightarrow> ssh_process" where
  "server_effect (LCloseOne k c) s = handler_to c (local_closed (proc_handler s c)) s"
| "server_effect l s = s"

section \<open>The handlers\<close>

text \<open>The actions of the pool that are not the start or the end of a call.\<close>

fun pool_inside :: "pool_label \<Rightarrow> bool" where
  "pool_inside (PEnter c) = False"
| "pool_inside (PLeave c) = False"
| "pool_inside (PStartDiscard c) = False"
| "pool_inside PCloseLock = False"
| "pool_inside PCloseClient = False"
| "pool_inside l = True"

text \<open>What \<open>client.DialContext\<close> answers: a channel, a rejection by the bastion, or a transport failure.\<close>

datatype dial_answer = ChannelOpened relay_stream | TargetRejected | TransportFailed

definition handle_start :: "nat \<Rightarrow> ssh_process \<Rightarrow> ssh_process option" where
  "handle_start c s =
     (if proc_handler s c = FAway \<and> handler_at (proc_server s) c = HRunning
      then Some (handler_to c (FDial 0) s) else None)"

definition handle_get :: "nat \<Rightarrow> ssh_process \<Rightarrow> ssh_process option" where
  "handle_get c s = (case proc_handler s c of FDial i \<Rightarrow> with_pool (PEnter c) s | _ \<Rightarrow> None)"

text \<open>After \<open>get\<close>: its error ends the handler, a client is asked for a channel to the target.\<close>

definition handle_refused :: "nat \<Rightarrow> ssh_process \<Rightarrow> ssh_process option" where
  "handle_refused c s =
     (case (proc_handler s c, pool_caller (proc_pool s) c) of
        (FDial i, GDone (Inl e)) \<Rightarrow> map_option (handler_to c FEnd) (with_pool (PLeave c) s)
      | _ \<Rightarrow> None)"

definition handle_dialled :: "nat \<Rightarrow> dial_answer \<Rightarrow> ssh_process \<Rightarrow> ssh_process option" where
  "handle_dialled c a s =
     (case (proc_handler s c, pool_caller (proc_pool s) c) of
        (FDial i, GDone (Inr k)) \<Rightarrow>
          (case a of
             ChannelOpened remote \<Rightarrow>
               (if remote = fresh_endpoint (ep_half remote) (ep_masks remote)
                then map_option (handler_to c (FRelay (start_relay (proc_server s) c (Relay (fresh_endpoint True False) remote))))
                       (with_pool (PLeave c) s)
                else None)
           | TargetRejected \<Rightarrow> map_option (handler_to c FEnd) (with_pool (PLeave c) s)
           | TransportFailed \<Rightarrow> map_option (handler_to c (FDrop i)) (with_pool (PStartDiscard c) s))
      | _ \<Rightarrow> None)"

text \<open>After \<open>discard\<close>: the second round, or the error of the last one.\<close>

definition handle_dropped :: "nat \<Rightarrow> ssh_process \<Rightarrow> ssh_process option" where
  "handle_dropped c s =
     (case proc_handler s c of
        FDrop i \<Rightarrow>
          (if pool_caller (proc_pool s) c = GIdle
           then Some (handler_to c (if Suc i < 2 then FDial (Suc i) else FEnd) s) else None)
      | _ \<Rightarrow> None)"

definition handle_relay :: "nat \<Rightarrow> relay_label \<Rightarrow> ssh_process \<Rightarrow> ssh_process option" where
  "handle_relay c l s =
     (case proc_handler s c of
        FRelay r \<Rightarrow>
          (if l = RShutdown then None
           else map_option (\<lambda>r'. handler_to c (FRelay r') s) (relay_action l r))
      | _ \<Rightarrow> None)"

definition handle_relayed :: "nat \<Rightarrow> ssh_process \<Rightarrow> ssh_process option" where
  "handle_relayed c s =
     (case proc_handler s c of
        FRelay r \<Rightarrow> (if main_at r = MReturned then Some (handler_to c FEnd s) else None)
      | _ \<Rightarrow> None)"

definition handle_return :: "nat \<Rightarrow> ssh_process \<Rightarrow> ssh_process option" where
  "handle_return c s =
     (if proc_handler s c = FEnd then map_option (handler_to c FAway) (with_server (LHandlerReturn c) s)
      else None)"

section \<open>The deferred calls\<close>

definition main_serve_returned :: "ssh_process \<Rightarrow> ssh_process option" where
  "main_serve_returned s =
     (case (proc_main s, serve_at (proc_server s)) of
        (ProcServing, SReturned r) \<Rightarrow> map_option (main_to ProcCloseServer) (with_server LCallerClose s)
      | _ \<Rightarrow> None)"

definition main_server_closed :: "ssh_process \<Rightarrow> ssh_process option" where
  "main_server_closed s =
     (if proc_main s = ProcCloseServer \<and> closer_at (proc_server s) ByCaller = CDone
      then map_option (main_to ProcCloseClients) (with_pool PCloseLock s) else None)"

definition main_clients_closed :: "ssh_process \<Rightarrow> ssh_process option" where
  "main_clients_closed s =
     (if proc_main s = ProcCloseClients then map_option (main_to ProcExited) (with_pool PCloseClient s)
      else None)"

datatype process_label =
    ServerAlone conn_label | PoolInside pool_label | HandleStart nat | HandleGet nat | HandleRefused nat
  | HandleDialled nat dial_answer | HandleDropped nat | HandleRelay nat relay_label | HandleRelayed nat
  | HandleReturn nat | MainServeReturned | MainServerClosed | MainClientsClosed

fun process_action :: "process_label \<Rightarrow> ssh_process \<Rightarrow> ssh_process option" where
  "process_action (ServerAlone l) s =
     (if server_alone l then map_option (server_effect l) (with_server l s) else None)"
| "process_action (PoolInside l) s = (if pool_inside l then with_pool l s else None)"
| "process_action (HandleStart c) s = handle_start c s"
| "process_action (HandleGet c) s = handle_get c s"
| "process_action (HandleRefused c) s = handle_refused c s"
| "process_action (HandleDialled c a) s = handle_dialled c a s"
| "process_action (HandleDropped c) s = handle_dropped c s"
| "process_action (HandleRelay c l) s = handle_relay c l s"
| "process_action (HandleRelayed c) s = handle_relayed c s"
| "process_action (HandleReturn c) s = handle_return c s"
| "process_action MainServeReturned s = main_serve_returned s"
| "process_action MainServerClosed s = main_server_closed s"
| "process_action MainClientsClosed s = main_clients_closed s"

definition process_step :: "ssh_process \<Rightarrow> process_label \<Rightarrow> ssh_process \<Rightarrow> bool" where
  "process_step s l t = (process_action l s = Some t)"

lemmas process_defs = handle_start_def handle_get_def handle_refused_def handle_dialled_def
  handle_dropped_def handle_relay_def handle_relayed_def handle_return_def main_serve_returned_def
  main_server_closed_def main_clients_closed_def

section \<open>The invariant\<close>





subsection \<open>What the actions of a component leave alone\<close>





subsection \<open>Preservation\<close>









lemma process_parts [simp]:
  "proc_server (handler_to c f s) = proc_server s" "proc_pool (handler_to c f s) = proc_pool s"
  "proc_handler (handler_to c f s) = (proc_handler s)(c := f)" "proc_main (handler_to c f s) = proc_main s"
  "proc_server (main_to m s) = proc_server s" "proc_pool (main_to m s) = proc_pool s"
  "proc_handler (main_to m s) = proc_handler s" "proc_main (main_to m s) = m"
  by (simp_all add: handler_to_def main_to_def)















section \<open>Properties\<close>



text \<open>A connection is relayed when the tunnel is interrupted.\<close>

definition connected_pool :: client_pool where
  "connected_pool = the (exec_labels pool_action [PEnter 0, PDialOk 0 7, PSettle 0, PPublish 0, PLeave 0] new_pool)"

definition serving_process :: ssh_process where
  "serving_process =
     \<lparr>proc_server = new_conn_server, proc_pool = connected_pool, proc_handler = (\<lambda>_. FAway),
      proc_main = ProcServing\<rparr>"


lemma connected_pool_run:
  "exec_labels pool_action [PEnter 0, PDialOk 0 7, PSettle 0, PPublish 0, PLeave 0] new_pool = Some connected_pool"
  by (simp add: connected_pool_def pool_eval)

lemma serving_process_init: "process_init serving_process"
  using pool_exec_reach [OF connected_pool_run]
  by (simp add: process_init_def serving_process_def conn_init_def)
    (simp add: connected_pool_def pool_eval)

lemmas process_eval = process_defs start_relay_def close_local_def with_server_def with_pool_def handler_to_def main_to_def
  conn_action_defs serve_error_def new_conn_server_def pool_eval relay_eval



section \<open>What a shutdown waits for\<close>

text \<open>
  Unlike the Azure tunnel, an interrupted SSH tunnel may have to wait for the remote side. A relay
  without grace has passed on the end of the local stream; the server then closes the local
  connection, which nobody reads any more, and everybody waits: the second pump for the remote stream,
  \<open>Relay\<close> for the pump, \<open>Serve\<close> for the handler, and the clients, whose closing would end that
  read, for \<open>Serve\<close>. Only the remote stream or the SSH connection can end this.
\<close>

definition half_closed_run :: "process_label list" where
  "half_closed_run =
     map ServerAlone [LAccept 1, LRegister] @
     [HandleStart 1, HandleGet 1, HandleDialled 1 (ChannelOpened (fresh_endpoint True True)),
      HandleRelay 1 (REof SideA), HandleRelay 1 (RHalf SideA True)] @
     map ServerAlone [LCancel, LFire, LCloseEnter ByCancel, LCloseOne ByCancel 1, LCloseLeave ByCancel,
       LAcceptClosed, LStop]"

definition waiting_process :: ssh_process where
  "waiting_process = the (exec_labels process_action half_closed_run serving_process)"

lemma waiting_process_run: "exec_labels process_action half_closed_run serving_process = Some waiting_process"
  by (simp add: waiting_process_def half_closed_run_def serving_process_def connected_pool_def process_eval)

lemma waiting_process_reach: "reach process_init process_step waiting_process"
  unfolding process_step_def
  by (rule exec_labels_reach [where init = process_init, OF waiting_process_run serving_process_init])

text \<open>What the remote side can do: send, end or break its stream, or lose the SSH connection.\<close>

fun remote_moves :: "process_label \<Rightarrow> bool" where
  "remote_moves (HandleRelay c (RRead SideB bs)) = True"
| "remote_moves (HandleRelay c (REof SideB)) = True"
| "remote_moves (HandleRelay c (RReadErr SideB)) = True"
| "remote_moves (PoolInside (PConnLost k)) = True"
| "remote_moves l = False"

definition waiting_relay :: relay where
  "waiting_relay = (case proc_handler waiting_process 1 of FRelay r \<Rightarrow> r)"

lemma waiting_parts:
  "proc_main waiting_process = ProcServing" "serve_at (proc_server waiting_process) = SDraining (Inr ())"
  "srv_wg (proc_server waiting_process) = 1" "handler_at (proc_server waiting_process) = (\<lambda>_. HAbsent)(1 := HRunning)"
  "closer_at (proc_server waiting_process) = (\<lambda>_. CIdle)(ByCancel := CDone)"
  "after_at (proc_server waiting_process) = Fired" "ctx_done (proc_server waiting_process)"
  "proc_handler waiting_process = (\<lambda>_. FAway)(1 := FRelay waiting_relay)"
  "pool_caller (proc_pool waiting_process) = (\<lambda>_. GIdle)" "pool_open (proc_pool waiting_process) = {7}"
  "pool_tender (proc_pool waiting_process) = (\<lambda>_. TAbsent)(7 := TWait)" "pool_keeping (proc_pool waiting_process) = {7}"
  "pump waiting_relay SideA = PDone True" "pump waiting_relay SideB = PRead" "main_at waiting_relay = MPump"
  "ep_open (ep waiting_relay SideB)"
  by (simp_all add: waiting_relay_def waiting_process_def half_closed_run_def serving_process_def connected_pool_def
      process_eval fun_eq_iff)
lemma waiting_relay_moves:
  assumes "relay_action l waiting_relay = Some r" and "l \<noteq> RShutdown"
  shows "remote_moves (HandleRelay c l)"
proof -
  have a: "pump waiting_relay x = (case x of SideA \<Rightarrow> PDone True | SideB \<Rightarrow> PRead)" for x
    by (cases x) (simp_all add: waiting_parts)
  show ?thesis using assms
    by (cases l) (auto simp: relay_action_defs a waiting_parts pump_done_def split: if_split_asm side.split_asm)
qed

lemma interrupted_ssh_waits_for_remote:
  assumes "process_step waiting_process l t"
  shows "remote_moves l"
proof -
  note act = assms [unfolded process_step_def]
  show ?thesis
  proof (cases l)
    case (ServerAlone k)
    with act show ?thesis
      by (cases k) (auto simp: with_server_def conn_action_defs waiting_parts split: if_split_asm close_pc.split_asm)
  next
    case (PoolInside k)
    with act show ?thesis
      by (cases k) (auto simp: with_pool_def pool_get_defs pool_other_defs waiting_parts split: if_split_asm)
  next
    case (HandleRelay c k)
    with act waiting_relay_moves [of k _ c] show ?thesis
      by (auto simp: handle_relay_def waiting_parts split: if_split_asm)
  qed (use act in \<open>auto simp: process_defs with_server_def with_pool_def waiting_parts split: if_split_asm\<close>)
qed

end
