(* ===== verification/AzureStream.thy ===== *)
theory AzureStream
  imports Streams
begin

text \<open>
  The WebSocket byte stream of \<open>internal/azurebastion/session.go\<close> (\<open>wsStream\<close>). The WebSocket
  connection itself belongs to a library: it appears as the messages it will deliver, whether its
  reads fail after them or wait (the peer is idle), the number of messages it still takes, and the
  messages written so far. A close by another goroutine is part of the relay, not of this model.
\<close>

section \<open>The connection and the stream\<close>

definition BinaryMessage :: int where "BinaryMessage = 2"

definition frameSize :: nat where "frameSize = 4096"

record ws_conn =
  ws_incoming :: "(int \<times> bytes) list"
  ws_fails :: bool
  ws_room :: nat
  ws_outgoing :: "(int \<times> bytes) list"
  ws_closed :: bool

definition ReadMessage :: "ws_conn \<Rightarrow> ((int \<times> bytes) result \<times> ws_conn) option" where
  "ReadMessage c =
     (if ws_closed c then Some (Inl ErrNetClosed, c)
      else case ws_incoming c of
        [] \<Rightarrow> if ws_fails c then Some (Inl (ErrExt ''websocket: close''), c) else None
      | m # ms \<Rightarrow> Some (Inr m, c\<lparr>ws_incoming := ms\<rparr>))"

definition WriteMessage :: "int \<Rightarrow> bytes \<Rightarrow> ws_conn \<Rightarrow> go_error option \<times> ws_conn" where
  "WriteMessage ty p c =
     (if ws_closed c \<or> ws_room c = 0 then (Some (ErrExt ''websocket: close sent''), c)
      else (None, c\<lparr>ws_room := ws_room c - 1, ws_outgoing := ws_outgoing c @ [(ty, p)]\<rparr>))"

record ws_stream =
  ws_conn_of :: ws_conn
  ws_pending :: bytes

section \<open>Reading and writing\<close>

text \<open>
  The loop of \<open>Read\<close>: messages are read until one is binary and not empty, or a read fails. The call
  waits (\<open>None\<close>) with the connection.
\<close>

function ws_fill :: "ws_stream \<Rightarrow> (bool \<times> ws_stream) option" where
  "ws_fill s =
     (if ws_pending s \<noteq> [] then Some (True, s)
      else case ReadMessage (ws_conn_of s) of
        None \<Rightarrow> None
      | Some (Inl e, c) \<Rightarrow> Some (False, s\<lparr>ws_conn_of := c\<rparr>)
      | Some (Inr (ty, payload), c) \<Rightarrow>
          if ty \<noteq> BinaryMessage then ws_fill (s\<lparr>ws_conn_of := c\<rparr>)
          else ws_fill (s\<lparr>ws_conn_of := c, ws_pending := payload\<rparr>))"
  by pat_completeness auto
termination
proof (relation "measures [\<lambda>s. length (ws_incoming (ws_conn_of s))]", simp)
qed (auto simp: ReadMessage_def split: if_splits list.splits)

declare ws_fill.simps [simp del]

definition ws_read :: "ws_stream read_fun" where
  "ws_read s k =
     (case ws_fill s of
        None \<Rightarrow> None
      | Some (False, s') \<Rightarrow> Some (([], Some ErrEOF), s')
      | Some (True, s') \<Rightarrow>
          Some ((take k (ws_pending s'), None), s'\<lparr>ws_pending := drop k (ws_pending s')\<rparr>))"

function ws_write_loop :: "nat \<Rightarrow> bytes \<Rightarrow> ws_stream \<Rightarrow> (nat \<times> go_error option) \<times> ws_stream" where
  "ws_write_loop written p s =
     (if p = [] then ((written, None), s)
      else
        let chunk = min (length p) frameSize in
        case WriteMessage BinaryMessage (take chunk p) (ws_conn_of s) of
          (Some e, c) \<Rightarrow> ((written, Some e), s\<lparr>ws_conn_of := c\<rparr>)
        | (None, c) \<Rightarrow> ws_write_loop (written + chunk) (drop chunk p) (s\<lparr>ws_conn_of := c\<rparr>))"
  by pat_completeness auto
termination
  by (relation "measure (\<lambda>(w, p, s). length p)") (auto simp: frameSize_def)

declare ws_write_loop.simps [simp del]

definition ws_write :: "ws_stream write_fun" where
  "ws_write s p = ws_write_loop 0 p s"

definition ws_close :: "ws_stream \<Rightarrow> ws_stream" where
  "ws_close s = s\<lparr>ws_conn_of := (ws_conn_of s)\<lparr>ws_closed := True\<rparr>\<rparr>"

section \<open>The dialer\<close>

text \<open>
  \<open>newWebSocketDialer\<close> gives the library's default dialer a write buffer of one frame; \<open>gorillaDialer\<close>
  passes its dialling on (\<open>dial\<close>).
\<close>

record ws_dialer =
  WriteBufferSize :: nat

definition newWebSocketDialer :: "ws_dialer \<Rightarrow> ws_dialer" where
  "newWebSocketDialer d = d\<lparr>WriteBufferSize := frameSize\<rparr>"

record gorilla_dialer =
  gd_dialer :: ws_dialer

definition DialContext :: "(ws_dialer \<Rightarrow> string \<Rightarrow> 'c result) \<Rightarrow> gorilla_dialer \<Rightarrow> string \<Rightarrow> 'c result" where
  "DialContext dial d target = dial (gd_dialer d) target"

section \<open>The stream as a reader and a writer\<close>

text \<open>
  The bytes a stream still holds: what is pending, then the payloads of the binary messages to
  come (none once the connection is closed).
\<close>

definition binary_payloads :: "(int \<times> bytes) list \<Rightarrow> bytes" where
  "binary_payloads ms = concat (map snd (filter (\<lambda>m. fst m = BinaryMessage) ms))"

definition ws_remaining :: "ws_stream \<Rightarrow> bytes" where
  "ws_remaining s =
     ws_pending s @ (if ws_closed (ws_conn_of s) then [] else binary_payloads (ws_incoming (ws_conn_of s)))"

definition ws_todo :: "ws_stream \<Rightarrow> nat" where
  "ws_todo s = length (ws_remaining s)"

text \<open>The stream ends after them: its connection fails, or is closed.\<close>

definition ws_ends :: "ws_stream \<Rightarrow> bool" where
  "ws_ends s \<longleftrightarrow> ws_closed (ws_conn_of s) \<or> ws_fails (ws_conn_of s)"

definition ws_sent :: "ws_stream \<Rightarrow> bytes" where
  "ws_sent s = binary_payloads (ws_outgoing (ws_conn_of s))"

lemma binary_payloads_simps [simp]:
  "binary_payloads [] = []"
  "binary_payloads (m # ms) = (if fst m = BinaryMessage then snd m else []) @ binary_payloads ms"
  "binary_payloads (ms @ ns) = binary_payloads ms @ binary_payloads ns"
  by (simp_all add: binary_payloads_def)

lemma ws_fill_next:
  assumes "ws_pending s = []" and "ReadMessage (ws_conn_of s) = Some (Inr (ty, p), c)"
  shows "ws_fill s = ws_fill (if ty = BinaryMessage then s\<lparr>ws_conn_of := c, ws_pending := p\<rparr> else s\<lparr>ws_conn_of := c\<rparr>)"
  using assms by (simp add: ws_fill.simps [of s])

lemma ReadMessage_next:
  "ReadMessage c = Some (Inr (ty, p), c') \<Longrightarrow>
     \<not> ws_closed c \<and> ws_incoming c = (ty, p) # ws_incoming c' \<and> c' = c\<lparr>ws_incoming := ws_incoming c'\<rparr>"
  by (auto simp: ReadMessage_def split: if_splits list.splits)

definition fills :: "ws_stream \<Rightarrow> (bool \<times> ws_stream) option \<Rightarrow> bool" where
  "fills s r \<longleftrightarrow>
     (case r of
        None \<Rightarrow> \<not> ws_ends s
      | Some (ok, s') \<Rightarrow> ws_remaining s' = ws_remaining s \<and> ws_ends s' = ws_ends s \<and> (ok \<longleftrightarrow> ws_pending s' \<noteq> []) \<and>
          (\<not> ok \<longrightarrow> ws_remaining s' = [] \<and> ws_ends s))"

lemma ws_fill_spec: "fills s (ws_fill s)"
proof (induction s rule: ws_fill.induct)
  case (1 s)
  show ?case
  proof (cases "ws_pending s = []")
    case False
    then show ?thesis by (simp add: ws_fill.simps [of s] fills_def)
  next
    case empty: True
    show ?thesis
    proof (cases "\<exists>ty p c. ReadMessage (ws_conn_of s) = Some (Inr (ty, p), c)")
      case False
      with empty show ?thesis
        by (auto simp: ws_fill.simps [of s] fills_def ReadMessage_def ws_ends_def ws_remaining_def
            split: list.splits if_splits)
    next
      case True
      then obtain ty p c where m: "ReadMessage (ws_conn_of s) = Some (Inr (ty, p), c)" by blast
      note c = ReadMessage_next [OF m]
      define s1 where "s1 = (if ty = BinaryMessage then s\<lparr>ws_conn_of := c, ws_pending := p\<rparr> else s\<lparr>ws_conn_of := c\<rparr>)"
      have "fills s1 (ws_fill s1)"
        using "1.IH" [OF _ m refl refl refl] empty by (auto simp: s1_def)
      moreover have "ws_closed c = ws_closed (ws_conn_of s)" "ws_fails c = ws_fails (ws_conn_of s)"
        using c by (metis ws_conn.select_convs ws_conn.surjective ws_conn.update_convs)+
      then have "ws_remaining s1 = ws_remaining s" "ws_ends s1 = ws_ends s"
        using c empty by (auto simp: s1_def ws_remaining_def ws_ends_def)
      moreover have "ws_fill s = ws_fill s1" using ws_fill_next [OF empty m] by (simp add: s1_def)
      ultimately show ?thesis by (auto simp: fills_def split: option.splits prod.splits)
    qed
  qed
qed

text \<open>What a read does: it waits only without an end, and reports the end only when nothing is left.\<close>

lemma ws_read_waits: "ws_read s k = None \<Longrightarrow> \<not> ws_ends s"
  using ws_fill_spec [of s] by (auto simp: ws_read_def fills_def split: option.splits bool.splits)

lemma ws_read_cases:
  assumes "ws_read s k = Some ((bs, e), s')"
  shows "ws_ends s' = ws_ends s \<and>
    ((e = Some ErrEOF \<and> bs = [] \<and> ws_remaining s = [] \<and> ws_remaining s' = [] \<and> ws_ends s) \<or>
     (e = None \<and> length bs \<le> k \<and> ws_remaining s = bs @ ws_remaining s' \<and> (0 < k \<longrightarrow> bs \<noteq> [])))"
proof -
  obtain ok t where f: "ws_fill s = Some (ok, t)" using assms by (auto simp: ws_read_def split: option.splits)
  note spec = ws_fill_spec [of s, unfolded f fills_def]
  show ?thesis
  proof (cases ok)
    case True
    with assms f have r: "e = None" "bs = take k (ws_pending t)"
      "s' = t\<lparr>ws_pending := drop k (ws_pending t)\<rparr>" by (simp_all add: ws_read_def)
    then have "bs @ ws_remaining s' = ws_remaining t" "ws_ends s' = ws_ends t"
      by (simp_all add: ws_remaining_def ws_ends_def)
    with spec r True show ?thesis by auto
  next
    case False
    with assms f have "e = Some ErrEOF" "bs = []" "s' = t" by (simp_all add: ws_read_def)
    with spec False show ?thesis by auto
  qed
qed

interpretation ws_reader: byte_reader ws_read ws_remaining ws_todo ws_ends
  by unfold_locales (auto dest!: ws_read_cases ws_read_waits simp: ws_todo_def)

lemma ws_reads_end: "read_all ws_read ks s = Some ((bs, Some e), t) \<Longrightarrow> e = ErrEOF"
proof (induction ks arbitrary: s bs)
  case (Cons k ks)
  then obtain cs er u where r: "ws_read s k = Some ((cs, er), u)" by (auto split: option.splits)
  with Cons show ?case using ws_read_cases [OF r] by auto
qed simp

text \<open>
  What a run of the write loop does: it appends messages that are binary, not empty and of one
  frame at most, whose payloads are the bytes it reports as written.
\<close>

definition one_frame :: "int \<times> bytes \<Rightarrow> bool" where
  "one_frame m = (fst m = BinaryMessage \<and> 0 < length (snd m) \<and> length (snd m) \<le> frameSize)"

lemma ws_write_loop_spec:
  "ws_write_loop w p s = ((n, e), s') \<Longrightarrow>
     \<exists>ms. ws_outgoing (ws_conn_of s') = ws_outgoing (ws_conn_of s) @ ms \<and> list_all one_frame ms \<and>
       w \<le> n \<and> n \<le> w + length p \<and> binary_payloads ms = take (n - w) p \<and>
       (e = None \<longleftrightarrow> n = w + length p) \<and> ws_pending s' = ws_pending s"
proof (induction w p s arbitrary: n e s' rule: ws_write_loop.induct)
  case (1 w p s)
  show ?case
  proof (cases "p = []")
    case True
    with "1.prems" show ?thesis
      by (auto simp: ws_write_loop.simps [of w "[]" s] intro!: exI [of _ "[]"])
  next
    case False
    let ?k = "min (length p) frameSize"
    have k: "0 < ?k" "?k \<le> length p" "?k \<le> frameSize" using False by (auto simp: frameSize_def)
    obtain r c where wm: "WriteMessage BinaryMessage (take ?k p) (ws_conn_of s) = (r, c)"
      by (metis prod.exhaust)
    show ?thesis
    proof (cases r)
      case (Some x)
      with "1.prems" False wm have "n = w" "e = Some x" "s' = s\<lparr>ws_conn_of := c\<rparr>"
        by (simp_all add: ws_write_loop.simps [of w p s] Let_def)
      with wm Some False show ?thesis by (auto simp: WriteMessage_def split: if_splits)
    next
      case None
      with "1.prems" False wm have
        "ws_write_loop (w + ?k) (drop ?k p) (s\<lparr>ws_conn_of := c\<rparr>) = ((n, e), s')"
        by (simp add: ws_write_loop.simps [of w p s] Let_def)
      from "1.IH" [OF False refl wm [symmetric] None this] obtain ms where ms:
        "ws_outgoing (ws_conn_of s') = ws_outgoing c @ ms" "list_all one_frame ms"
        "w + ?k \<le> n" "n \<le> w + ?k + length (drop ?k p)"
        "binary_payloads ms = take (n - (w + ?k)) (drop ?k p)"
        "e = None \<longleftrightarrow> n = w + ?k + length (drop ?k p)" "ws_pending s' = ws_pending s"
        by auto
      have out: "ws_outgoing c = ws_outgoing (ws_conn_of s) @ [(BinaryMessage, take ?k p)]"
        using wm None by (auto simp: WriteMessage_def split: if_splits)
      have "n - w = ?k + (n - (w + ?k))" using ms(3) by simp
      then have "take (n - w) p = take ?k p @ take (n - (w + ?k)) (drop ?k p)"
        by (metis take_add)
      moreover have "one_frame (BinaryMessage, take ?k p)"
        using k by (simp add: one_frame_def)
      ultimately show ?thesis using ms out
        by (intro exI [of _ "(BinaryMessage, take ?k p) # ms"]) auto
    qed
  qed
qed

text \<open>Whatever is written fits the write buffer of the dialer, so no message is continued in a second frame.\<close>

lemma ws_write_fits_buffer:
  assumes "ws_write s p = ((n, e), s')"
    and "ws_outgoing (ws_conn_of s') = ws_outgoing (ws_conn_of s) @ ms" and "m \<in> set ms"
  shows "length (snd m) \<le> WriteBufferSize (newWebSocketDialer d)"
  using assms ws_write_loop_spec [of 0 p s n e s']
  by (auto simp: ws_write_def newWebSocketDialer_def one_frame_def list_all_iff)

interpretation ws_writer: byte_writer ws_write ws_sent
  by unfold_locales (auto simp: ws_write_def ws_sent_def dest!: ws_write_loop_spec)

text \<open>The two directions of a tunnelled connection.\<close>

interpretation upload: byte_copy tcp_read tcp_remaining tcp_todo tcp_ends ws_write ws_sent
  by unfold_locales


section \<open>Properties\<close>

text \<open>C39: \<open>Write\<close> sends its bytes as binary messages of one frame at most and never an empty one;
  their payloads are, in order, exactly the bytes it reports as written, and it reports all of
  them if and only if it reports no error.\<close>

theorem ws_write_frames:
  assumes "ws_write s p = ((n, e), s')"
  shows "\<exists>ms. ws_outgoing (ws_conn_of s') = ws_outgoing (ws_conn_of s) @ ms \<and>
    list_all one_frame ms \<and> binary_payloads ms = take n p \<and> n \<le> length p \<and>
    (e = None \<longleftrightarrow> n = length p) \<and> ws_pending s' = ws_pending s"
  using ws_write_loop_spec [of 0 p s n e s'] assms by (auto simp: ws_write_def)

text \<open>A new stream that takes \<open>room\<close> messages and delivers the messages \<open>ms\<close> before its peer closes.\<close>

definition sample_stream :: "nat \<Rightarrow> (int \<times> bytes) list \<Rightarrow> ws_stream" where
  "sample_stream room ms =
     \<lparr>ws_conn_of = \<lparr>ws_incoming = ms, ws_fails = True, ws_room = room, ws_outgoing = [], ws_closed = False\<rparr>,
      ws_pending = []\<rparr>"

theorem ws_write_frames_witness:
  "\<exists>n e s' ms. ws_write (sample_stream 1 []) (replicate 4097 (7 :: 8 word)) = ((n, e), s') \<and>
     ws_outgoing (ws_conn_of s') = ms \<and> list_all one_frame ms \<and> n = 4096 \<and> e \<noteq> None"
proof -
  let ?p = "replicate 4097 (7 :: 8 word)" and ?s = "sample_stream 1 []"
  obtain n e s' where w: "ws_write ?s ?p = ((n, e), s')" by (metis prod.collapse)
  have "n = 4096 \<and> e \<noteq> None"
    using w by (auto simp: ws_write_def sample_stream_def WriteMessage_def frameSize_def Let_def
        ws_write_loop.simps [of 0] ws_write_loop.simps [of 4096])
  with ws_write_frames [OF w] w show ?thesis by (auto simp: sample_stream_def)
qed

text \<open>\<open>Read\<close> delivers the pending bytes and then the payloads of the binary messages, in
  order and without loss, whatever other messages come between; it reports the end of the stream
  only when nothing is left, and otherwise a read into a buffer that is not empty returns at
  least one byte.\<close>

lemma ws_read_stream:
  assumes "ws_read s k = Some ((bs, e), s')" and "0 < k"
  shows "ws_remaining s = bs @ ws_remaining s' \<and> length bs \<le> k \<and>
    (e = Some ErrEOF \<and> bs = [] \<and> ws_remaining s = [] \<or> e = None \<and> bs \<noteq> [])"
  using ws_read_cases [OF assms(1)] assms(2) by auto

text \<open>
  The messages of the other end reach the reader in their order, with messages of other types
  (\<open>others\<close>) anywhere between them.
\<close>

lemma shuffled_payloads:
  assumes "ms \<in> shuffles out others" and "list_all one_frame out" and "\<forall>m \<in> set others. fst m \<noteq> BinaryMessage"
  shows "binary_payloads ms = binary_payloads out"
proof -
  have "filter (\<lambda>m. fst m = BinaryMessage) others = []" using assms(3) by (simp add: filter_empty_conv)
  moreover have "filter (\<lambda>m. fst m = BinaryMessage) ms \<in>
      shuffles (filter (\<lambda>m. fst m = BinaryMessage) out) (filter (\<lambda>m. fst m = BinaryMessage) others)"
    using assms(1) filter_shuffles by blast
  ultimately show ?thesis by (simp add: binary_payloads_def)
qed

text \<open>C16: What one end writes without an error, the other end reads back, byte for byte: whatever the
  sizes of its buffers and whatever messages of other types come between, its reads return a prefix of
  the bytes written, and, when there are more reads than bytes, all of them and then the end
  of the stream.\<close>

theorem ws_roundtrip:
  assumes "ws_write s p = ((n, None), s')" and "ws_outgoing (ws_conn_of s) = []"
    and "ms \<in> shuffles (ws_outgoing (ws_conn_of s')) others" and "\<forall>m \<in> set others. fst m \<noteq> BinaryMessage"
    and "\<forall>k \<in> set ks. 0 < k"
  shows "(\<exists>bs e t rest. read_all ws_read ks (sample_stream 0 ms) = Some ((bs, e), t) \<and> bs @ rest = p) \<and>
    (length p < length ks \<longrightarrow> (\<exists>t. read_all ws_read ks (sample_stream 0 ms) = Some ((p, Some ErrEOF), t)))"
proof -
  let ?r = "sample_stream 0 ms"
  from ws_write_loop_spec [of 0 p s n None s'] assms(1,2)
  have out: "list_all one_frame (ws_outgoing (ws_conn_of s'))" "binary_payloads (ws_outgoing (ws_conn_of s')) = p"
    by (auto simp: ws_write_def)
  have rem: "ws_remaining ?r = p" and ends: "ws_ends ?r"
    using shuffled_payloads [OF assms(3) out(1) assms(4)] out(2)
    by (simp_all add: ws_remaining_def ws_ends_def sample_stream_def)
  obtain bs e t where some: "read_all ws_read ks ?r = Some ((bs, e), t)"
    using ws_reader.read_all_returns [OF ends assms(5)] by auto
  note next_bytes = ws_reader.read_all_next [OF some assms(5)]
  have "length p < length ks \<longrightarrow> (\<exists>t. read_all ws_read ks ?r = Some ((p, Some ErrEOF), t))"
  proof
    assume "length p < length ks"
    then have "ws_todo ?r < length ks" by (simp add: ws_todo_def rem)
    from ws_reader.read_all_ends [OF ends assms(5) this] some obtain x where x: "e = Some x" by auto
    with ws_reads_end [of ks ?r bs x t] some next_bytes rem
    show "\<exists>t. read_all ws_read ks ?r = Some ((p, Some ErrEOF), t)" by auto
  qed
  with some next_bytes rem show ?thesis by auto
qed

text \<open>Reads of two bytes, with a text message before the data.\<close>

theorem ws_roundtrip_witness:
  "\<exists>n s' t. ws_write (sample_stream 5 []) [1, 2, 3] = ((n, None), s') \<and>
     read_all ws_read [2, 2, 2, 2] (sample_stream 0 ((1, [9]) # ws_outgoing (ws_conn_of s'))) =
       Some (([1, 2, 3], Some ErrEOF), t)"
proof -
  let ?s = "sample_stream 5 []"
  have "\<exists>n s'. ws_write ?s [1, 2, 3] = ((n, None), s')"
    by (simp add: ws_write_def sample_stream_def WriteMessage_def frameSize_def Let_def
        ws_write_loop.simps [of 0] ws_write_loop.simps [of _ "[]"])
  then obtain n s' where w: "ws_write ?s [1, 2, 3] = ((n, None), s')" by blast
  have "(1, [9]) # ws_outgoing (ws_conn_of s') \<in> shuffles (ws_outgoing (ws_conn_of s')) [(1, [9])]"
    by (cases "ws_outgoing (ws_conn_of s')") (auto intro: Cons_in_shuffles_rightI)
  from ws_roundtrip [OF w _ this, of "[2, 2, 2, 2]"] w show ?thesis
    by (auto simp: sample_stream_def BinaryMessage_def)
qed


text \<open>An upload of two chunks, and one whose client stays silent after the first.\<close>

definition sample_client :: "go_error option \<Rightarrow> tcp_conn" where
  "sample_client end = \<lparr>tcp_in = [[1], [2]], tcp_end = end, tcp_room = 0, tcp_out = []\<rparr>"

lemma idle_copy_waits: "io_copy tcp_read ws_write (sample_client None) (sample_stream 5 []) = None"
proof -
  have "e \<noteq> None" if "io_copy tcp_read ws_write (sample_client None) (sample_stream 5 []) = Some (e, c', s')" for e c' s'
    using upload.copy_result(2) [OF that] by (auto simp: tcp_ends_def sample_client_def)
  then show ?thesis
    by (simp add: io_copy.simps [of tcp_read] sample_client_def copy_buffer_def ws_write_def sample_stream_def
        WriteMessage_def frameSize_def Let_def ws_write_loop.simps [of 0] ws_write_loop.simps [of _ "[]"])
qed


end
