(* ===== verification/Watch.thy ===== *)
theory Watch
  imports GoStrings
begin

text \<open>
  \<open>internal/libs/watch.go\<close>: the watch a tunnel keeps on its parent, the liveness check of a
  process, and the readiness handshake. Processes, files, sockets and clocks are observed: a loop
  reads a stream of observations, one per iteration, and is \<open>None\<close> when it never returns. The
  process library \<open>gopsutil\<close> is not part of the program; \<open>zombie\<close> is its status constant.
\<close>

section \<open>Processes\<close>

text \<open>What the library answers about a process: \<open>NewProcess\<close>, \<open>Status\<close>, \<open>IsRunning\<close>.\<close>

record 'st process_view =
  new_process :: "unit result"
  process_status :: "'st list result"
  is_running :: "bool result"

definition died :: go_error where
  "died = ErrNew ''process died''"

definition CheckProcessExists :: "'st \<Rightarrow> 'st process_view \<Rightarrow> unit result" where
  "CheckProcessExists zombie v =
     (case new_process v of
        Inl e \<Rightarrow> Inl e
      | Inr u \<Rightarrow>
          (case process_status v of
             Inr stats \<Rightarrow> (if zombie \<in> set stats then Inl died else Inr ())
           | Inl e' \<Rightarrow>
               (case is_running v of
                  Inl e \<Rightarrow> Inl e
                | Inr running \<Rightarrow> (if running then Inr () else Inl died))))"

datatype process_event = TerminateProcess int | SigInt int

definition terminate :: "string \<Rightarrow> int \<Rightarrow> process_event" where
  "terminate goos pid = (if goos = ''windows'' then TerminateProcess pid else SigInt pid)"

text \<open>\<open>Interrupt\<close>: the identifier is narrowed to 32 bits; \<open>found\<close> and \<open>sent\<close> are the library's answers.\<close>

definition Interrupt :: "string \<Rightarrow> int \<Rightarrow> unit result \<Rightarrow> unit result \<Rightarrow> process_event list \<times> unit result" where
  "Interrupt goos pid found sent =
     (case found of Inl e \<Rightarrow> ([], Inl e) | Inr u \<Rightarrow> ([terminate goos (to_int32 pid)], sent))"

text \<open>The goroutine of \<open>WatchProcess\<close>: \<open>view n\<close> is what \<open>parent.IsRunning\<close> reports the \<open>n\<close>-th time.\<close>

partial_function (option) watch_loop :: "(nat \<Rightarrow> bool result) \<Rightarrow> nat \<Rightarrow> nat option" where
  "watch_loop view n = (if view n = Inr False then Some n else watch_loop view (Suc n))"

text \<open>
  \<open>WatchProcess\<close>: both processes are looked up first; the goroutine then runs, and when it ends it
  has sent one signal to the tunnel's own process.
\<close>

definition WatchProcess :: "string \<Rightarrow> int \<Rightarrow> unit result \<Rightarrow> unit result \<Rightarrow> (nat \<Rightarrow> bool result) \<Rightarrow>
    unit result \<times> process_event list option" where
  "WatchProcess goos own_pid parent child view =
     (case parent of
        Inl e \<Rightarrow> (Inl e, None)
      | Inr u \<Rightarrow>
          (case child of
             Inl e \<Rightarrow> (Inl e, None)
           | Inr u' \<Rightarrow> (Inr (), map_option (\<lambda>n. [terminate goos (to_int32 own_pid)]) (watch_loop view 0))))"

section \<open>Waiting with a deadline\<close>

text \<open>
  The end of one iteration: the ticker fired, or the context with the timeout is done; then
  \<open>ctx.Err()\<close> tells whether the caller's own context is.
\<close>

datatype wake = Tick | Expired "go_error option"

partial_function (option) wait_for_local_port :: "(nat \<Rightarrow> bool \<times> wake) \<Rightarrow> string \<Rightarrow> nat \<Rightarrow> unit result option" where
  "wait_for_local_port obs port n =
     (case obs n of
        (accepts, w) \<Rightarrow>
          if accepts then Some (Inr ())
          else (case w of
              Tick \<Rightarrow> wait_for_local_port obs port (Suc n)
            | Expired (Some e) \<Rightarrow> Some (Inl (wrap_err ''wait for tunnel port'' e))
            | Expired None \<Rightarrow> Some (Inl (ErrNew (''port '' @ port @ '' not accepting connections after 30s'')))))"

definition waitForLocalPort :: "(nat \<Rightarrow> bool \<times> wake) \<Rightarrow> string \<Rightarrow> unit result option" where
  "waitForLocalPort obs port = wait_for_local_port obs port 0"

text \<open>The readiness file: its path and what writing it answered.\<close>

datatype ready_event = WriteReady string

definition SignalReady :: "unit result \<Rightarrow> string \<Rightarrow> ready_event list \<times> unit result" where
  "SignalReady written file = ([WriteReady file], written)"

definition SignalReadyIfRequested :: "unit result \<Rightarrow> string \<Rightarrow> ready_event list \<times> unit result" where
  "SignalReadyIfRequested written file =
     (if file = [] then ([], Inr ())
      else (case SignalReady written file of
          (evs, r) \<Rightarrow> (evs, wrapping ''signal tunnel readiness'' r)))"

definition SignalReadyWhenServing ::
    "(nat \<Rightarrow> bool \<times> wake) \<Rightarrow> string \<Rightarrow> unit result \<Rightarrow> string \<Rightarrow> (ready_event list \<times> unit result) option" where
  "SignalReadyWhenServing obs port written file =
     (case waitForLocalPort obs port of
        None \<Rightarrow> None
      | Some (Inl e) \<Rightarrow> Some ([], Inl e)
      | Some (Inr u) \<Rightarrow> Some (SignalReadyIfRequested written file))"

text \<open>One iteration of \<open>WaitForReadyFile\<close>: the process, \<open>os.Stat\<close> of the marker, and the wake-up.\<close>

record 'st ready_view =
  rv_process :: "'st process_view"
  rv_stat :: "unit result"
  rv_wake :: wake

partial_function (option) wait_for_ready :: "'st \<Rightarrow> (nat \<Rightarrow> 'st ready_view) \<Rightarrow> nat \<Rightarrow> unit result option" where
  "wait_for_ready zombie obs n =
     (case CheckProcessExists zombie (rv_process (obs n)) of
        Inl e \<Rightarrow> Some (Inl (wrap_err ''process exited unexpectedly'' e))
      | Inr u \<Rightarrow>
          (case rv_stat (obs n) of
             Inr u' \<Rightarrow> Some (Inr ())
           | Inl e \<Rightarrow>
               if \<not> err_is e ErrNotExist then Some (Inl (wrap_err ''check tunnel readiness'' e))
               else (case rv_wake (obs n) of
                   Tick \<Rightarrow> wait_for_ready zombie obs (Suc n)
                 | Expired (Some e') \<Rightarrow> Some (Inl (wrap_err ''wait for tunnel readiness'' e'))
                 | Expired None \<Rightarrow> Some (Inl (ErrNew ''tunnel not ready after 30s'')))))"

definition WaitForReadyFile :: "'st \<Rightarrow> (nat \<Rightarrow> 'st ready_view) \<Rightarrow> unit result option" where
  "WaitForReadyFile zombie obs = wait_for_ready zombie obs 0"

section \<open>Lemmas\<close>

text \<open>The observation after which a loop returns, and the ones that keep it going.\<close>

definition keeps_waiting :: "'st \<Rightarrow> 'st ready_view \<Rightarrow> bool" where
  "keeps_waiting zombie v \<longleftrightarrow> CheckProcessExists zombie (rv_process v) = Inr () \<and>
     (case rv_stat v of Inl e \<Rightarrow> err_is e ErrNotExist | Inr u \<Rightarrow> False) \<and> rv_wake v = Tick"

lemma wait_for_ready_skip:
  "(\<And>i. n \<le> i \<Longrightarrow> i < n + k \<Longrightarrow> keeps_waiting zombie (obs i)) \<Longrightarrow>
   wait_for_ready zombie obs n = wait_for_ready zombie obs (n + k)"
proof (induction k arbitrary: n)
  case 0
  then show ?case by simp
next
  case (Suc k)
  have "keeps_waiting zombie (obs n)" using Suc.prems [of n] by simp
  then have "wait_for_ready zombie obs n = wait_for_ready zombie obs (Suc n)"
    by (subst wait_for_ready.simps) (auto simp: keeps_waiting_def split: sum.splits)
  also have "\<dots> = wait_for_ready zombie obs (Suc n + k)"
    using Suc.prems by (intro Suc.IH) auto
  finally show ?case by simp
qed

lemma wait_for_ready_stop:
  "\<not> keeps_waiting zombie (obs n) \<Longrightarrow> \<exists>r. wait_for_ready zombie obs n = Some r"
  by (subst wait_for_ready.simps)
     (auto simp: keeps_waiting_def split: sum.splits wake.splits option.splits)

lemma wait_for_ready_ok:
  assumes "\<not> keeps_waiting zombie (obs n)"
  shows "wait_for_ready zombie obs n = Some (Inr ()) \<longleftrightarrow>
     CheckProcessExists zombie (rv_process (obs n)) = Inr () \<and> rv_stat (obs n) = Inr ()"
  by (subst wait_for_ready.simps)
     (use assms in \<open>auto simp: keeps_waiting_def split: sum.splits wake.splits option.splits\<close>)

lemma first_stop:
  fixes P :: "nat \<Rightarrow> bool"
  assumes "\<not> P k"
  shows "\<exists>m \<le> k. \<not> P m \<and> (\<forall>i < m. P i)"
proof (intro exI conjI)
  let ?m = "LEAST i. \<not> P i"
  show "?m \<le> k" using assms by (rule Least_le)
  show "\<not> P ?m" using assms by (rule LeastI)
  show "\<forall>i < ?m. P i" using not_less_Least by blast
qed

lemma watch_loop_skip:
  "(\<And>i. n \<le> i \<Longrightarrow> i < n + k \<Longrightarrow> view i \<noteq> Inr False) \<Longrightarrow> watch_loop view n = watch_loop view (n + k)"
proof (induction k arbitrary: n)
  case 0
  then show ?case by simp
next
  case (Suc k)
  have "view n \<noteq> Inr False" using Suc.prems [of n] by simp
  then have "watch_loop view n = watch_loop view (Suc n)"
    by (subst watch_loop.simps) (auto split: sum.splits bool.splits)
  also have "\<dots> = watch_loop view (Suc n + k)"
    using Suc.prems by (intro Suc.IH) auto
  finally show ?case by simp
qed

lemma watch_loop_first:
  assumes "view k = Inr False"
  shows "\<exists>m \<le> k. watch_loop view 0 = Some m \<and> view m = Inr False \<and> (\<forall>i < m. view i \<noteq> Inr False)"
proof -
  obtain m where m: "m \<le> k" "view m = Inr False" "\<forall>i < m. view i \<noteq> Inr False"
    using first_stop [of "\<lambda>i. view i \<noteq> Inr False" k] assms by blast
  then have "watch_loop view 0 = watch_loop view (0 + m)" by (intro watch_loop_skip) auto
  also have "\<dots> = Some m" using m(2) by (subst watch_loop.simps) simp
  finally show ?thesis using m by blast
qed

lemma wait_port_skip:
  "(\<And>i. n \<le> i \<Longrightarrow> i < n + k \<Longrightarrow> obs i = (False, Tick)) \<Longrightarrow>
   wait_for_local_port obs port n = wait_for_local_port obs port (n + k)"
proof (induction k arbitrary: n)
  case 0
  then show ?case by simp
next
  case (Suc k)
  have "obs n = (False, Tick)" using Suc.prems [of n] by simp
  then have "wait_for_local_port obs port n = wait_for_local_port obs port (Suc n)"
    by (subst wait_for_local_port.simps) simp
  also have "\<dots> = wait_for_local_port obs port (Suc n + k)"
    using Suc.prems by (intro Suc.IH) auto
  finally show ?case by simp
qed

section \<open>Properties\<close>

text \<open>C31: The parent of a tunnel never waits on a dead child or past a deadline: once some observation
  is not \<open>process alive, marker absent, ticker\<close>, \<open>WaitForReadyFile\<close> has returned, and it reports
  readiness exactly when, at the first such observation, the process was alive and the marker
  existed.\<close>

theorem wait_for_ready_decides:
  assumes "\<not> keeps_waiting zombie (obs k)"
  shows "\<exists>m \<le> k. \<not> keeps_waiting zombie (obs m) \<and> (\<forall>i < m. keeps_waiting zombie (obs i)) \<and>
    (\<exists>r. WaitForReadyFile zombie obs = Some r) \<and>
    (WaitForReadyFile zombie obs = Some (Inr ()) \<longleftrightarrow>
       CheckProcessExists zombie (rv_process (obs m)) = Inr () \<and> rv_stat (obs m) = Inr ())"
proof -
  obtain m where m: "m \<le> k" "\<not> keeps_waiting zombie (obs m)" "\<forall>i < m. keeps_waiting zombie (obs i)"
    using first_stop [of "\<lambda>i. keeps_waiting zombie (obs i)" k] assms by blast
  have "WaitForReadyFile zombie obs = wait_for_ready zombie obs (0 + m)"
    unfolding WaitForReadyFile_def using m(3) by (intro wait_for_ready_skip) auto
  then show ?thesis
    using m wait_for_ready_stop [of zombie obs m] wait_for_ready_ok [of zombie obs m] by auto
qed

definition alive_view :: "string process_view" where
  "alive_view = \<lparr>new_process = Inr (), process_status = Inr [''sleep''], is_running = Inr True\<rparr>"

definition slow_start :: "nat \<Rightarrow> string ready_view" where
  "slow_start n = \<lparr>rv_process = alive_view, rv_stat = (if n < 2 then Inl ErrNotExist else Inr ()), rv_wake = Tick\<rparr>"

theorem wait_for_ready_decides_witness: "WaitForReadyFile ''zombie'' slow_start = Some (Inr ())"
proof -
  have stop: "\<not> keeps_waiting ''zombie'' (slow_start 2)" by (simp add: keeps_waiting_def slow_start_def)
  have "keeps_waiting ''zombie'' (slow_start i)" if "i < 2" for i
    using that by (simp add: keeps_waiting_def slow_start_def alive_view_def CheckProcessExists_def)
  with wait_for_ready_decides [of _ slow_start 2, OF stop] obtain m where
    "m = 2" "WaitForReadyFile ''zombie'' slow_start = Some (Inr ()) \<longleftrightarrow>
       CheckProcessExists ''zombie'' (rv_process (slow_start m)) = Inr () \<and> rv_stat (slow_start m) = Inr ()"
    by (metis le_neq_implies_less)
  then show ?thesis by (simp add: slow_start_def alive_view_def CheckProcessExists_def)
qed

text \<open>C32: A tunnel interrupts itself exactly when its parent is gone: at the first observation that the
  parent is not running, not before, whatever errors the earlier ones met; the watch ends there,
  having sent one signal, to the tunnel's own process.\<close>

theorem watch_interrupts_once:
  assumes "view k = Inr False"
  shows "(\<exists>m \<le> k. watch_loop view 0 = Some m \<and> view m = Inr False \<and> (\<forall>i < m. view i \<noteq> Inr False)) \<and>
    WatchProcess goos own_pid (Inr ()) (Inr ()) view = (Inr (), Some [terminate goos (to_int32 own_pid)])"
  using watch_loop_first [of view k, OF assms] by (auto simp: WatchProcess_def)

theorem watch_interrupts_once_witness:
  "WatchProcess ''linux'' 4242 (Inr ()) (Inr ()) (\<lambda>n. if n = 0 then Inr True else if n = 1 then Inl ErrEOF else Inr False) =
     (Inr (), Some [SigInt 4242])"
  using watch_interrupts_once [where view = "\<lambda>n. if n = 0 then Inr True else if n = 1 then Inl ErrEOF else Inr False"
      and k = 2 and goos = "''linux''" and own_pid = 4242]
  by (simp add: terminate_def to_int32_def)

end
