(* ===== verification/Fork.thy ===== *)
theory Fork
  imports Watch
begin

text \<open>
  Starting a background tunnel: \<open>internal/libs/fork.go\<close>, \<open>log.go\<close>, \<open>port.go\<close>, \<open>const.go\<close>, with the
  parts of \<open>os\<close> and \<open>os/exec\<close> it goes through (the environment of a process is a list of
  \<open>key=value\<close> strings, and the last value of a key wins when a child is started).
\<close>

section \<open>The environment\<close>

definition TunnelTypeEnv :: string where "TunnelTypeEnv = ''DFNS_TERRAFORM_TUNNEL_TYPE''"
definition TunnelConfEnv :: string where "TunnelConfEnv = ''DFNS_TERRAFORM_TUNNEL_CONF''"
definition TunnelReadyEnv :: string where "TunnelReadyEnv = ''DFNS_TERRAFORM_TUNNEL_READY''"
definition TunnelLogDirEnv :: string where "TunnelLogDirEnv = ''DFNS_TERRAFORM_TUNNEL_LOG_DIR''"

lemmas env_names = TunnelTypeEnv_def TunnelConfEnv_def TunnelReadyEnv_def TunnelLogDirEnv_def

text \<open>The text before the first equals sign, which \<open>os.Getenv\<close> goes by.\<close>

definition simple_key :: "string \<Rightarrow> string option" where
  "simple_key kv =
     (if CHR ''='' \<in> set kv then Some (takeWhile (\<lambda>c. c \<noteq> CHR ''='') kv) else None)"

definition entry_value :: "string \<Rightarrow> string" where
  "entry_value kv = tl (dropWhile (\<lambda>c. c \<noteq> CHR ''='') kv)"

text \<open>\<open>os.Getenv\<close>: the first entry of the key, empty when there is none.\<close>

definition getenv :: "string list \<Rightarrow> string \<Rightarrow> string" where
  "getenv env k = (case find (\<lambda>kv. simple_key kv = Some k) env of None \<Rightarrow> [] | Some kv \<Rightarrow> entry_value kv)"

definition unsetenv :: "string list \<Rightarrow> string \<Rightarrow> string list" where
  "unsetenv env k = filter (\<lambda>kv. simple_key kv \<noteq> Some k) env"

text \<open>The key \<open>os/exec\<close> goes by: a leading equals sign belongs to the key (Windows drives).\<close>

definition exec_key :: "string \<Rightarrow> string option" where
  "exec_key kv =
     (case kv of
        [] \<Rightarrow> None
      | c # cs \<Rightarrow>
          if c = CHR ''='' then Some (case simple_key cs of None \<Rightarrow> [] | Some k \<Rightarrow> c # k)
          else simple_key kv)"

text \<open>\<open>exec.dedupEnv\<close>, on the entries from the last to the first.\<close>

fun dedup_rev :: "string list \<Rightarrow> string list \<Rightarrow> string list" where
  "dedup_rev seen [] = []"
| "dedup_rev seen (kv # kvs) =
     (case exec_key kv of
        None \<Rightarrow> (if kv = [] then dedup_rev seen kvs else kv # dedup_rev seen kvs)
      | Some k \<Rightarrow> if k \<in> set seen then dedup_rev seen kvs else kv # dedup_rev (k # seen) kvs)"

definition dedup_env :: "string list \<Rightarrow> string list" where
  "dedup_env env = rev (dedup_rev [] (rev env))"

definition plain_key :: "string \<Rightarrow> bool" where
  "plain_key k \<longleftrightarrow> k \<noteq> [] \<and> CHR ''='' \<notin> set k"

definition env_entry :: "string \<Rightarrow> string \<Rightarrow> string" where
  "env_entry k v = k @ ''='' @ v"

lemma plain_env_names [simp]:
  "plain_key TunnelTypeEnv" "plain_key TunnelConfEnv" "plain_key TunnelReadyEnv" "plain_key TunnelLogDirEnv"
  by (simp_all add: plain_key_def env_names)

lemma env_names_distinct [simp]:
  "TunnelTypeEnv \<noteq> TunnelConfEnv" "TunnelConfEnv \<noteq> TunnelTypeEnv"
  "TunnelTypeEnv \<noteq> TunnelReadyEnv" "TunnelReadyEnv \<noteq> TunnelTypeEnv"
  "TunnelConfEnv \<noteq> TunnelReadyEnv" "TunnelReadyEnv \<noteq> TunnelConfEnv"
  by (simp_all add: env_names)

lemma takeWhile_entry: "CHR ''='' \<notin> set k \<Longrightarrow> takeWhile (\<lambda>c. c \<noteq> CHR ''='') (k @ CHR ''='' # v) = k"
  by (subst takeWhile_append2) auto

lemma simple_key_entry: "plain_key k \<Longrightarrow> simple_key (env_entry k v) = Some k"
  by (simp add: simple_key_def env_entry_def plain_key_def takeWhile_entry)

lemma entry_value_entry: "plain_key k \<Longrightarrow> entry_value (env_entry k v) = v"
  unfolding entry_value_def env_entry_def plain_key_def by (subst dropWhile_append2) auto

lemma exec_key_plain: "plain_key k \<Longrightarrow> exec_key kv = Some k \<longleftrightarrow> simple_key kv = Some k"
  by (cases kv) (auto simp: exec_key_def plain_key_def simple_key_def split: option.splits if_splits)

text \<open>For an ordinary key, the deduplicated environment has its last entry only.\<close>

lemma filter_dedup_rev:
  assumes "plain_key k"
  shows "filter (\<lambda>kv. simple_key kv = Some k) (dedup_rev seen kvs) =
     (if k \<in> set seen then [] else take 1 (filter (\<lambda>kv. simple_key kv = Some k) kvs))"
proof (induction kvs arbitrary: seen)
  case Nil
  then show ?case by simp
next
  case (Cons kv kvs)
  have "exec_key kv = None \<Longrightarrow> simple_key kv \<noteq> Some k" using exec_key_plain [OF assms, of kv] by auto
  then show ?case
    using Cons exec_key_plain [OF assms, of kv] by (auto split: option.splits)
qed

lemma find_filter: "find P xs = (case filter P xs of [] \<Rightarrow> None | x # ys \<Rightarrow> Some x)"
  by (induction xs) auto

lemma getenv_dedup:
  assumes "plain_key k"
  shows "getenv (dedup_env env) k =
     (case filter (\<lambda>kv. simple_key kv = Some k) (rev env) of [] \<Rightarrow> [] | kv # kvs \<Rightarrow> entry_value kv)"
proof -
  let ?P = "\<lambda>kv. simple_key kv = Some k"
  have "filter ?P (dedup_env env) = rev (take 1 (filter ?P (rev env)))"
    unfolding dedup_env_def rev_filter [symmetric] filter_dedup_rev [OF assms] by simp
  then show ?thesis
    unfolding getenv_def find_filter by (cases "filter ?P (rev env)") simp_all
qed

text \<open>A value set last is the one the child reads, whatever the inherited environment holds.\<close>

lemma getenv_last_wins:
  assumes "plain_key k" and "\<And>kv. kv \<in> set after \<Longrightarrow> simple_key kv \<noteq> Some k"
  shows "getenv (dedup_env (env @ env_entry k v # after)) k = v"
proof -
  have "filter (\<lambda>kv. simple_key kv = Some k) (rev after) = []" using assms(2) by (simp add: filter_empty_conv)
  then show ?thesis
    by (simp add: getenv_dedup [OF assms(1)] simple_key_entry [OF assms(1)] entry_value_entry [OF assms(1)])
qed

section \<open>The log file and a free port\<close>

definition TunnelLogPath :: "string list \<Rightarrow> string \<Rightarrow> string \<Rightarrow> string" where
  "TunnelLogPath env tmp name =
     (let dir = getenv env TunnelLogDirEnv in path_join (if dir = [] then tmp else dir) name)"

text \<open>\<open>GetFreePort\<close>: resolving, listening on port 0, and the address of the listener, closed on
  every path that opened it; \<open>addr = None\<close> is a listener address that is not a TCP address.\<close>

datatype port_event = ListenLocal | CloseListener

definition GetFreePort :: "unit result \<Rightarrow> unit result \<Rightarrow> int option \<Rightarrow> (port_event, int) eff" where
  "GetFreePort resolved listening addr =
     and_then (pure_res resolved) (\<lambda>u.
     and_then (perform ListenLocal listening) (\<lambda>u.
     deferred [CloseListener]
       (pure_res (case addr of None \<Rightarrow> Inl (ErrNew ''failed to assert type to *net.TCPAddr'') | Some p \<Rightarrow> Inr p))))"

section \<open>ForkTunnel\<close>

text \<open>Everything the function reads: its arguments, the process, and the answers of the system.\<close>

record 'st fork_world =
  fw_self :: string
  fw_ppid :: int
  fw_environ :: "string list"
  fw_tmp :: string
  fw_open :: "unit result"
  fw_mkdir :: "string result"
  fw_ctx :: "go_error option"
  fw_start :: "int result"
  fw_zombie :: 'st
  fw_obs :: "nat \<Rightarrow> 'st ready_view"

datatype fork_event =
    OpenLog string
  | MkReadyDir
  | StartChild "string list" "string list"
  | KillChild int
  | ReapChild int
  | RemoveReadyDir string
  | CloseLog string

definition ready_path :: "string \<Rightarrow> string" where
  "ready_path dir = path_join dir ''ready''"

definition child_args :: "'st fork_world \<Rightarrow> string list" where
  "child_args w = [fw_self w, itoa (fw_ppid w)]"

definition child_env :: "'st fork_world \<Rightarrow> string \<Rightarrow> string \<Rightarrow> string \<Rightarrow> string list" where
  "child_env w tunnelType cfgJSON readyPath =
     dedup_env (fw_environ w @
       [env_entry TunnelTypeEnv tunnelType, env_entry TunnelConfEnv cfgJSON, env_entry TunnelReadyEnv readyPath])"

text \<open>From \<open>cmd.Start\<close> on; \<open>None\<close> is a wait for readiness that never ends.\<close>

definition start_child :: "'st fork_world \<Rightarrow> string \<Rightarrow> string list \<Rightarrow> (fork_event list \<times> int result) option" where
  "start_child w logPath env =
     (case fw_start w of
        Inl e \<Rightarrow> Some ([StartChild (child_args w) env], Inl e)
      | Inr pid \<Rightarrow>
          (case WaitForReadyFile (fw_zombie w) (fw_obs w) of
             None \<Rightarrow> None
           | Some (Inl e) \<Rightarrow>
               Some ([StartChild (child_args w) env, KillChild pid, ReapChild pid],
                     Inl (ErrWrap [] e (''. check '' @ logPath @ '' for more information'')))
           | Some (Inr u) \<Rightarrow> Some ([StartChild (child_args w) env], Inr pid)))"

definition fork_in_dir :: "'st fork_world \<Rightarrow> string \<Rightarrow> string \<Rightarrow> string \<Rightarrow> string \<Rightarrow>
    (fork_event list \<times> int result) option" where
  "fork_in_dir w tunnelType cfgJSON logPath readyDir =
     map_option (deferred [RemoveReadyDir readyDir])
       (case fw_ctx w of
          Some e \<Rightarrow> Some ([], Inl e)
        | None \<Rightarrow> start_child w logPath (child_env w tunnelType cfgJSON (ready_path readyDir)))"

definition ForkTunnel :: "'st fork_world \<Rightarrow> string \<Rightarrow> string \<Rightarrow> string result \<Rightarrow>
    (fork_event list \<times> int result) option" where
  "ForkTunnel w tunnelType logName cfg =
     (case cfg of
        Inl e \<Rightarrow> Some ([], Inl e)
      | Inr cfgJSON \<Rightarrow>
          (let logPath = TunnelLogPath (fw_environ w) (fw_tmp w) logName in
           case fw_open w of
             Inl e \<Rightarrow> Some ([OpenLog logPath], Inl e)
           | Inr u \<Rightarrow>
               map_option (\<lambda>(evs, r). (OpenLog logPath # MkReadyDir # evs @ [CloseLog logPath], r))
                 (case fw_mkdir w of
                    Inl e \<Rightarrow> Some ([], Inl e)
                  | Inr dir \<Rightarrow> fork_in_dir w tunnelType cfgJSON logPath dir)))"

lemmas fork_defs = ForkTunnel_def fork_in_dir_def start_child_def deferred_def Let_def

section \<open>Properties\<close>

text \<open>C10: A failed start leaves nothing behind. Whatever fails after the log file was opened, the log
  is closed, a created marker directory is removed, and a started child is killed and reaped
  before \<open>ForkTunnel\<close> returns the error; on success the child is left alone. The result is a
  process exactly when the child was started and \<open>WaitForReadyFile\<close> reported readiness.\<close>

theorem fork_cleans_up:
  assumes "ForkTunnel w typ logName (Inr conf) = Some (evs, r)" and "fw_open w = Inr ()"
  shows "last evs = CloseLog (TunnelLogPath (fw_environ w) (fw_tmp w) logName) \<and>
    (\<forall>dir. fw_mkdir w = Inr dir \<longrightarrow> RemoveReadyDir dir \<in> set evs) \<and>
    (\<forall>args env. StartChild args env \<in> set evs \<longrightarrow> \<not> is_ok r \<longrightarrow>
       (\<forall>pid. fw_start w = Inr pid \<longrightarrow> (\<exists>us vs. evs = us @ [KillChild pid, ReapChild pid] @ vs))) \<and>
    (\<forall>pid. r = Inr pid \<longleftrightarrow> (\<exists>dir. fw_mkdir w = Inr dir) \<and> fw_ctx w = None \<and> fw_start w = Inr pid \<and>
       WaitForReadyFile (fw_zombie w) (fw_obs w) = Some (Inr ())) \<and>
    (\<forall>pid q. r = Inr pid \<longrightarrow> KillChild q \<notin> set evs)"
proof (cases "fw_mkdir w")
  case (Inl e)
  with assms show ?thesis by (auto simp: fork_defs)
next
  case (Inr dir)
  let ?log = "TunnelLogPath (fw_environ w) (fw_tmp w) logName"
  let ?start = "StartChild (child_args w) (child_env w typ conf (ready_path dir))"
  consider (cancelled) e where "fw_ctx w = Some e" "evs = [OpenLog ?log, MkReadyDir, RemoveReadyDir dir, CloseLog ?log]" "r = Inl e"
    | (not_started) e where "fw_ctx w = None" "fw_start w = Inl e"
        "evs = [OpenLog ?log, MkReadyDir, ?start, RemoveReadyDir dir, CloseLog ?log]" "r = Inl e"
    | (killed) pid e where "fw_ctx w = None" "fw_start w = Inr pid" "WaitForReadyFile (fw_zombie w) (fw_obs w) = Some (Inl e)"
        "evs = [OpenLog ?log, MkReadyDir, ?start] @ [KillChild pid, ReapChild pid] @ [RemoveReadyDir dir, CloseLog ?log]" "\<not> is_ok r"
    | (started) pid where "fw_ctx w = None" "fw_start w = Inr pid" "WaitForReadyFile (fw_zombie w) (fw_obs w) = Some (Inr ())"
        "evs = [OpenLog ?log, MkReadyDir, ?start, RemoveReadyDir dir, CloseLog ?log]" "r = Inr pid"
    using assms Inr by (auto simp: fork_defs split: option.splits sum.splits)
  then show ?thesis
  proof cases
    case killed
    then have "\<exists>us vs. evs = us @ [KillChild pid, ReapChild pid] @ vs" by blast
    with killed Inr show ?thesis by auto
  qed (use Inr in auto)
qed

definition sample_world :: "string fork_world" where
  "sample_world =
     \<lparr>fw_self = ''/bin/provider'', fw_ppid = 77, fw_environ = [''PATH=/bin''], fw_tmp = ''/tmp'', fw_open = Inr (),
      fw_mkdir = Inr ''/tmp/ready-1'', fw_ctx = None, fw_start = Inr 901, fw_zombie = ''zombie'',
      fw_obs = (\<lambda>n. \<lparr>rv_process = \<lparr>new_process = Inr (), process_status = Inr [''zombie''], is_running = Inr True\<rparr>,
                      rv_stat = Inl ErrNotExist, rv_wake = Tick\<rparr>)\<rparr>"

theorem fork_cleans_up_witness:
  "\<exists>evs r us vs. ForkTunnel sample_world ''ssh'' ''t.log'' (Inr ''{}'') = Some (evs, r) \<and>
     evs = us @ [KillChild 901, ReapChild 901] @ vs"
proof -
  have wait: "WaitForReadyFile (fw_zombie sample_world) (fw_obs sample_world) =
      Some (Inl (wrap_err ''process exited unexpectedly'' died))"
    unfolding WaitForReadyFile_def
    by (subst wait_for_ready.simps) (simp add: sample_world_def CheckProcessExists_def)
  have sel: "fw_open sample_world = Inr ()" "fw_start sample_world = Inr 901" "fw_ctx sample_world = None"
      "fw_mkdir sample_world = Inr ''/tmp/ready-1''" by (simp_all add: sample_world_def)
  obtain evs r where run: "ForkTunnel sample_world ''ssh'' ''t.log'' (Inr ''{}'') = Some (evs, r)" "\<not> is_ok r"
      "StartChild (child_args sample_world) (child_env sample_world ''ssh'' ''{}'' (ready_path ''/tmp/ready-1'')) \<in> set evs"
    using wait sel by (simp add: fork_defs)
  from fork_cleans_up [OF run(1) sel(1), THEN conjunct2, THEN conjunct2, THEN conjunct1] run(2,3) sel(2)
  have "\<exists>us vs. evs = us @ [KillChild 901, ReapChild 901] @ vs" by blast
  with run(1) show ?thesis by blast
qed

end
