(* ===== verification/Runner.thy ===== *)
theory Runner
  imports Fork
begin

text \<open>
  The entry of the tunnel process: \<open>main\<close> of \<open>main.go\<close> and \<open>StartTunnel\<close> of
  \<open>internal/runner/tunnel.go\<close>. The tunnels themselves are started by their kind, the JSON text of
  their configuration and the parent's process identifier.
\<close>

datatype tunnel_kind = AzureBastion | Ssh | Ssm | Kubernetes

text \<open>The four \<open>TunnelType\<close> strings.\<close>

definition TunnelType :: "tunnel_kind \<Rightarrow> string" where
  "TunnelType k =
     (case k of
        AzureBastion \<Rightarrow> ''azure_bastion'' | Ssh \<Rightarrow> ''ssh'' | Ssm \<Rightarrow> ''ssm'' | Kubernetes \<Rightarrow> ''kubernetes'')"

text \<open>A call of one \<open>StartRemoteTunnel\<close>, with the environment it runs in.\<close>

record start_call =
  sc_kind :: tunnel_kind
  sc_config :: string
  sc_parent :: int
  sc_environ :: "string list"

definition StartTunnel :: "string list \<Rightarrow> string list \<Rightarrow> unit result \<Rightarrow> string \<Rightarrow> start_call result" where
  "StartTunnel env args unset tun =
     (let cfgJson = getenv env TunnelConfEnv in
      if cfgJson = [] then Inl (ErrNew ''missing tunnel configuration'')
      else (case unset of
          Inl e \<Rightarrow> Inl e
        | Inr u \<Rightarrow>
            if length args < 2 then Inl (ErrNew ''missing parent PID'')
            else (case atoi (args ! 1) of
                Inl e \<Rightarrow> Inl (wrap_err ''invalid parent PID'' e)
              | Inr pid \<Rightarrow>
                  (let call = (\<lambda>k. Inr \<lparr>sc_kind = k, sc_config = cfgJson, sc_parent = pid,
                                     sc_environ = unsetenv env TunnelConfEnv\<rparr>) in
                   if tun = TunnelType AzureBastion then call AzureBastion
                   else if tun = TunnelType Ssh then call Ssh
                   else if tun = TunnelType Ssm then call Ssm
                   else if tun = TunnelType Kubernetes then call Kubernetes
                   else Inl (ErrNew ''unknown tunnel type'')))))"

datatype main_run = RunTunnel "start_call result" | RunServer

definition main_start :: "string list \<Rightarrow> string list \<Rightarrow> unit result \<Rightarrow> main_run" where
  "main_start env args unset =
     (let tun = getenv env TunnelTypeEnv in
      if tun \<noteq> [] then RunTunnel (StartTunnel env args unset tun) else RunServer)"

text \<open>
  \<open>StartServer\<close>: the flag \<open>-debug\<close> and the provider of a version go to the plugin framework, whose answer
  is \<open>serve\<close>. \<open>main\<close> runs one or the other, and an error is fatal.
\<close>

record serve_opts =
  so_address :: string
  so_debug :: bool

definition StartServer :: "(serve_opts \<Rightarrow> string \<Rightarrow> unit result) \<Rightarrow> string \<Rightarrow> bool \<Rightarrow> unit result" where
  "StartServer serve version debug =
     serve \<lparr>so_address = ''registry.terraform.io/dfns/tunnel'', so_debug = debug\<rparr> version"

datatype main_exit = ExitOk | LogFatal string

definition main_end :: "unit result \<Rightarrow> main_exit" where
  "main_end r = (case r of Inl e \<Rightarrow> LogFatal (error_text e) | Inr u \<Rightarrow> ExitOk)"

definition main_run_of :: "(start_call \<Rightarrow> unit result) \<Rightarrow> unit result \<Rightarrow> main_run \<Rightarrow> main_exit" where
  "main_run_of tunnel server m =
     main_end (case m of RunServer \<Rightarrow> server | RunTunnel (Inl e) \<Rightarrow> Inl e | RunTunnel (Inr call) \<Rightarrow> tunnel call)"

text \<open>A process that was started without the variable of the tunnel type is a provider server.\<close>

lemma main_without_type: "getenv env TunnelTypeEnv = [] \<Longrightarrow> main_run_of tunnel server (main_start env args unset) = main_end server"
  by (simp add: main_start_def main_run_of_def)

lemma TunnelType_inj [simp]: "TunnelType k = TunnelType j \<longleftrightarrow> k = j"
  by (cases k; cases j) (simp_all add: TunnelType_def)

lemma TunnelType_nonempty [simp]: "TunnelType k \<noteq> []"
  by (cases k) (simp_all add: TunnelType_def)

lemma getenv_unsetenv: "getenv (unsetenv env k) j = (if j = k then [] else getenv env j)"
  unfolding getenv_def unsetenv_def by (induction env) auto

text \<open>What the three variables of the child hold, whatever it inherited.\<close>

lemma child_env_values:
  "getenv (child_env w typ conf ready) TunnelTypeEnv = typ"
  "getenv (child_env w typ conf ready) TunnelConfEnv = conf"
  "getenv (child_env w typ conf ready) TunnelReadyEnv = ready"
proof -
  have type_entry: "child_env w typ conf ready = dedup_env (fw_environ w @ env_entry TunnelTypeEnv typ #
      [env_entry TunnelConfEnv conf, env_entry TunnelReadyEnv ready])" by (simp add: child_env_def)
  show "getenv (child_env w typ conf ready) TunnelTypeEnv = typ"
    unfolding type_entry by (rule getenv_last_wins) (auto simp: simple_key_entry)
  have conf_entry: "child_env w typ conf ready = dedup_env ((fw_environ w @ [env_entry TunnelTypeEnv typ]) @
      env_entry TunnelConfEnv conf # [env_entry TunnelReadyEnv ready])" by (simp add: child_env_def)
  show "getenv (child_env w typ conf ready) TunnelConfEnv = conf"
    unfolding conf_entry by (rule getenv_last_wins) (auto simp: simple_key_entry)
  have ready_entry: "child_env w typ conf ready = dedup_env ((fw_environ w @ [env_entry TunnelTypeEnv typ,
      env_entry TunnelConfEnv conf]) @ env_entry TunnelReadyEnv ready # [])" by (simp add: child_env_def)
  show "getenv (child_env w typ conf ready) TunnelReadyEnv = ready"
    unfolding ready_entry by (rule getenv_last_wins) auto
qed

lemma fork_runs_child:
  assumes "ForkTunnel w (TunnelType k) logName (Inr conf) = Some (evs, r)"
    and "StartChild args env \<in> set evs" and "conf \<noteq> []" and "in_int64 (fw_ppid w)"
  shows "\<exists>call dir. main_start env args (Inr ()) = RunTunnel (Inr call) \<and> sc_kind call = k \<and>
    sc_config call = conf \<and> sc_parent call = fw_ppid w \<and> getenv (sc_environ call) TunnelConfEnv = [] \<and>
    fw_mkdir w = Inr dir \<and> getenv (sc_environ call) TunnelReadyEnv = ready_path dir"
proof -
  from assms(1,2) obtain dir where dir: "fw_mkdir w = Inr dir" "args = child_args w"
    "env = child_env w (TunnelType k) conf (ready_path dir)"
    by (auto simp: fork_defs split: option.splits sum.splits)
  have pid: "atoi (args ! 1) = Inr (fw_ppid w)" "\<not> length args < 2"
    using atoi_itoa [OF assms(4)] by (simp_all add: dir(2) child_args_def)
  have "StartTunnel env args (Inr ()) (TunnelType k) =
      Inr \<lparr>sc_kind = k, sc_config = conf, sc_parent = fw_ppid w, sc_environ = unsetenv env TunnelConfEnv\<rparr>"
    using assms(3) pid by (cases k) (simp_all add: StartTunnel_def dir(3) child_env_values Let_def)
  then show ?thesis
    using dir by (simp add: main_start_def child_env_values getenv_unsetenv)
qed

text \<open>The child runs the tunnel the parent asked for. Whatever environment the provider process
  inherited, a child started by \<open>ForkTunnel\<close> dispatches to the tunnel of the given kind with
  exactly the given configuration text and the parent's parent as its watched process; the
  configuration is gone from its environment, and its readiness marker is the very file the
  parent waits for.\<close>

lemma fork_reaches_runner:
  assumes "ForkTunnel w (TunnelType k) logName (Inr conf) = Some (evs, r)"
    and "StartChild args env \<in> set evs" and "conf \<noteq> []" and "in_int64 (fw_ppid w)"
  shows "\<exists>call dir. main_start env args (Inr ()) = RunTunnel (Inr call) \<and> sc_kind call = k \<and>
    sc_config call = conf \<and> sc_parent call = fw_ppid w \<and> getenv (sc_environ call) TunnelConfEnv = [] \<and>
    fw_mkdir w = Inr dir \<and> getenv (sc_environ call) TunnelReadyEnv = ready_path dir"
  by (rule fork_runs_child [OF assms])

lemma fork_reaches_runner_witness:
  "\<exists>evs r env call. ForkTunnel (sample_world\<lparr>fw_environ := [''DFNS_TERRAFORM_TUNNEL_TYPE=ssm'']\<rparr>) (TunnelType Ssh)
       ''t.log'' (Inr ''{}'') = Some (evs, r) \<and>
     main_start env [''/bin/provider'', ''77''] (Inr ()) = RunTunnel (Inr call) \<and> sc_kind call = Ssh \<and> sc_parent call = 77"
proof -
  let ?w = "sample_world\<lparr>fw_environ := [''DFNS_TERRAFORM_TUNNEL_TYPE=ssm'']\<rparr>"
  have wait: "WaitForReadyFile (fw_zombie ?w) (fw_obs ?w) = Some (Inl (wrap_err ''process exited unexpectedly'' died))"
    unfolding WaitForReadyFile_def
    by (subst wait_for_ready.simps) (simp add: sample_world_def CheckProcessExists_def)
  have sel: "fw_open ?w = Inr ()" "fw_start ?w = Inr 901" "fw_ctx ?w = None"
      "fw_mkdir ?w = Inr ''/tmp/ready-1''" "fw_ppid ?w = 77" "child_args ?w = [''/bin/provider'', ''77'']"
    by (simp_all add: sample_world_def child_args_def) code_simp
  obtain evs r env where run: "ForkTunnel ?w (TunnelType Ssh) ''t.log'' (Inr ''{}'') = Some (evs, r)"
      "StartChild [''/bin/provider'', ''77''] env \<in> set evs"
    using wait sel by (simp add: fork_defs)
  have "in_int64 (fw_ppid ?w)" by (simp add: sel in_int64_def int64_min_def int64_max_def)
  with fork_reaches_runner [OF run] run(1) sel(5) show ?thesis by (metis list.distinct(1))
qed

end
