(* ===== verification/SshForward.thy ===== *)
theory SshForward
  imports Runner
begin

text \<open>
  \<open>internal/ssh/client.go\<close> (\<open>dialSSH\<close>) and \<open>internal/ssh/forward.go\<close>: connecting to the bastion under one
  deadline, and opening a channel to the target for every local connection, with one retry.
  The SSH library and the network are oracles; what they answer is the argument of each function.
\<close>

section \<open>dialSSH\<close>

text \<open>
  One run of \<open>dialSSH\<close>: the TCP dial; the handshake of \<open>ssh.NewClientConn\<close>; whether the
  \<open>AfterFunc\<close> that closes the transport had started when \<open>stopClose\<close> was called; and
  \<open>connectCtx.Err()\<close> after that.
\<close>

record dial_view =
  dv_dial :: "unit result"
  dv_handshake :: "unit result"
  dv_fired :: bool
  dv_ctx :: "go_error option"

datatype dial_event = CloseTransport

definition dialSSH :: "dial_view \<Rightarrow> (dial_event, unit) eff" where
  "dialSSH v =
     and_then (pure_res (dv_dial v)) (\<lambda>u.
       let fired = (if dv_fired v then [CloseTransport] else []) in
       case dv_ctx v of
         Some e \<Rightarrow> (fired @ [CloseTransport], Inl e)
       | None \<Rightarrow>
           (case dv_handshake v of
              Inl e \<Rightarrow> (fired @ [CloseTransport], Inl e)
            | Inr u \<Rightarrow> (fired, Inr ())))"

section \<open>The forwarder\<close>

datatype 'c forward_event =
    GetClient
  | DialChannel nat
  | DiscardClient nat
  | LogFailure go_error
  | RelayTo 'c

text \<open>
  The loop of \<open>dialTarget\<close>: \<open>n\<close> rounds left, \<open>i\<close> the current one, \<open>lastErr\<close> nil at first. \<open>gets i\<close>
  is the answer of \<open>clients.get\<close>, \<open>dials i\<close> that of \<open>client.DialContext\<close>; a connection is
  \<open>None\<close> when it is nil.
\<close>

fun dial_rounds :: "(nat \<Rightarrow> nat result) \<Rightarrow> (nat \<Rightarrow> 'c result) \<Rightarrow> nat \<Rightarrow> nat \<Rightarrow> go_error option \<Rightarrow>
    ('c forward_event, 'c option) eff" where
  "dial_rounds gets dials i 0 lastErr =
     ([], case lastErr of None \<Rightarrow> Inr None | Some e \<Rightarrow> Inl e)"
| "dial_rounds gets dials i (Suc n) lastErr =
     (case gets i of
        Inl e \<Rightarrow> ([GetClient], Inl e)
      | Inr client \<Rightarrow>
          (case dials i of
             Inr remote \<Rightarrow> ([GetClient, DialChannel client], Inr (Some remote))
           | Inl e \<Rightarrow>
               if err_as_open_channel e then ([GetClient, DialChannel client], Inl e)
               else (case dial_rounds gets dials (Suc i) n (Some e) of
                   (evs, r) \<Rightarrow> (GetClient # DialChannel client # DiscardClient client # evs, r))))"

definition dialTarget :: "(nat \<Rightarrow> nat result) \<Rightarrow> (nat \<Rightarrow> 'c result) \<Rightarrow> ('c forward_event, 'c option) eff" where
  "dialTarget gets dials = dial_rounds gets dials 0 2 None"

text \<open>\<open>forwarder.handle\<close>: a failed dial is logged, and the local connection is dropped.\<close>

definition handle_forward :: "(nat \<Rightarrow> nat result) \<Rightarrow> (nat \<Rightarrow> 'c result) \<Rightarrow> 'c forward_event list" where
  "handle_forward gets dials =
     (case dialTarget gets dials of
        (evs, Inl e) \<Rightarrow> evs @ [LogFailure e]
      | (evs, Inr (Some remote)) \<Rightarrow> evs @ [RelayTo remote]
      | (evs, Inr None) \<Rightarrow> evs)"

text \<open>A failure of the transport, as opposed to a rejection by the target.\<close>

definition transport_failure :: "'c result \<Rightarrow> bool" where
  "transport_failure r = (case r of Inl e \<Rightarrow> \<not> err_as_open_channel e | Inr x \<Rightarrow> False)"

lemma dialTarget_simp:
  "dialTarget gets dials =
     (case gets 0 of
        Inl e \<Rightarrow> ([GetClient], Inl e)
      | Inr c \<Rightarrow>
          (case dials 0 of
             Inr r \<Rightarrow> ([GetClient, DialChannel c], Inr (Some r))
           | Inl e \<Rightarrow>
               if err_as_open_channel e then ([GetClient, DialChannel c], Inl e)
               else (case gets 1 of
                   Inl e' \<Rightarrow> ([GetClient, DialChannel c, DiscardClient c, GetClient], Inl e')
                 | Inr d \<Rightarrow>
                     (case dials 1 of
                        Inr r \<Rightarrow> ([GetClient, DialChannel c, DiscardClient c, GetClient, DialChannel d], Inr (Some r))
                      | Inl e' \<Rightarrow>
                          if err_as_open_channel e'
                          then ([GetClient, DialChannel c, DiscardClient c, GetClient, DialChannel d], Inl e')
                          else ([GetClient, DialChannel c, DiscardClient c, GetClient, DialChannel d, DiscardClient d],
                                Inl e')))))"
  by (simp add: dialTarget_def numeral_2_eq_2 split: sum.splits)

section \<open>Properties\<close>

text \<open>C28: \<open>dialSSH\<close> neither leaks nor closes early. It returns a client exactly when the dial and the
  handshake worked and the context was still alive, with the transport left open; after a
  successful dial every error closes the transport, and the end of the context is the error
  reported.\<close>

theorem dial_ssh_transport:
  assumes "dv_fired v \<Longrightarrow> dv_ctx v \<noteq> None"
  shows "(snd (dialSSH v) = Inr () \<longleftrightarrow> is_ok (dv_dial v) \<and> is_ok (dv_handshake v) \<and> dv_ctx v = None) \<and>
    (CloseTransport \<in> set (fst (dialSSH v)) \<longleftrightarrow> is_ok (dv_dial v) \<and> \<not> is_ok (snd (dialSSH v))) \<and>
    (\<forall>e. is_ok (dv_dial v) \<longrightarrow> dv_ctx v = Some e \<longrightarrow> snd (dialSSH v) = Inl e)"
  using assms
  by (cases "dv_dial v"; cases "dv_handshake v"; cases "dv_ctx v")
     (auto simp: dialSSH_def pure_res_def Let_def)

theorem dial_ssh_transport_witness:
  "snd (dialSSH \<lparr>dv_dial = Inr (), dv_handshake = Inr (), dv_fired = True, dv_ctx = Some ErrDeadline\<rparr>) = Inl ErrDeadline"
  using dial_ssh_transport [of "\<lparr>dv_dial = Inr (), dv_handshake = Inr (), dv_fired = True, dv_ctx = Some ErrDeadline\<rparr>"]
  by simp

text \<open>C27: \<open>dialTarget\<close> retries transport failures once and nothing else. It opens at most two channels
  and never returns a nil connection without an error; it discards exactly the clients whose
  channel failed otherwise than by a rejection of the target; and it returns a connection exactly
  when the first channel opens, or the first one fails in transport and the second one opens.\<close>

theorem dial_target_retries:
  "length (filter (\<lambda>ev. \<exists>k. ev = DialChannel k) (fst (dialTarget gets dials))) \<le> 2 \<and>
   snd (dialTarget gets dials) \<noteq> Inr None \<and>
   {k. DiscardClient k \<in> set (fst (dialTarget gets dials))} =
     {k. gets 0 = Inr k \<and> transport_failure (dials 0)} \<union>
     {k. is_ok (gets 0) \<and> transport_failure (dials 0) \<and> gets 1 = Inr k \<and> transport_failure (dials 1)} \<and>
   {c. snd (dialTarget gets dials) = Inr (Some c)} =
     {c. is_ok (gets 0) \<and> dials 0 = Inr c} \<union>
     {c. is_ok (gets 0) \<and> transport_failure (dials 0) \<and> is_ok (gets 1) \<and> dials 1 = Inr c}"
proof (cases "gets 0")
  case (Inl e)
  then show ?thesis by (simp add: dialTarget_simp)
next
  case g0: (Inr c)
  show ?thesis
  proof (cases "transport_failure (dials 0)")
    case False
    with g0 show ?thesis
      by (cases "dials 0") (auto simp: dialTarget_simp transport_failure_def)
  next
    case True
    then obtain e where e: "dials 0 = Inl e" "\<not> err_as_open_channel e"
      by (auto simp: transport_failure_def split: sum.splits)
    with g0 show ?thesis
      by (cases "gets 1"; cases "dials 1") (auto simp: dialTarget_simp transport_failure_def)
  qed
qed

end
