(* ===== verification/GoJson.thy ===== *)
theory GoJson
  imports GoStrings
begin

text \<open>
  The standard library's \<open>encoding/json\<close>, as far as the program uses it: \<open>Marshal\<close> of structs,
  strings, integers, booleans, slices and string maps, and \<open>Unmarshal\<close> of any text into structs of
  such fields. Strings are bytes; \<open>rune_size\<close> follows \<open>utf8.DecodeRune\<close>.
\<close>

section \<open>UTF-8\<close>

abbreviation code :: "char \<Rightarrow> nat" where "code c \<equiv> of_char c"

definition between :: "nat \<Rightarrow> char \<Rightarrow> nat \<Rightarrow> bool" where
  "between lo c hi = (lo \<le> code c \<and> code c \<le> hi)"

text \<open>
  What a leading byte announces: the number of continuation bytes and the range of the first one
  (the tables \<open>first\<close> and \<open>acceptRanges\<close>).
\<close>

definition lead :: "char \<Rightarrow> (nat \<times> nat \<times> nat) option" where
  "lead c =
     (if code c < 0x80 then Some (0, 0x80, 0xBF)
      else if between 0xC2 c 0xDF then Some (1, 0x80, 0xBF)
      else if code c = 0xE0 then Some (2, 0xA0, 0xBF)
      else if code c = 0xED then Some (2, 0x80, 0x9F)
      else if between 0xE1 c 0xEF then Some (2, 0x80, 0xBF)
      else if code c = 0xF0 then Some (3, 0x90, 0xBF)
      else if between 0xF1 c 0xF3 then Some (3, 0x80, 0xBF)
      else if code c = 0xF4 then Some (3, 0x80, 0x8F) else None)"

definition continuation :: "nat \<Rightarrow> nat \<Rightarrow> string \<Rightarrow> bool" where
  "continuation lo hi s = (case s of [] \<Rightarrow> True | c # cs \<Rightarrow> between lo c hi \<and> list_all (\<lambda>d. between 0x80 d 0xBF) cs)"

text \<open>The length of the rune a string starts with, zero when its encoding is invalid.\<close>

fun rune_size :: "string \<Rightarrow> nat" where
  "rune_size [] = 0"
| "rune_size (a # s) =
     (case lead a of
        None \<Rightarrow> 0
      | Some (n, lo, hi) \<Rightarrow> if length (take n s) = n \<and> continuation lo hi (take n s) then Suc n else 0)"

text \<open>What is left of a string after its first rune, or after its first byte when that is invalid.\<close>

definition after_rune :: "string \<Rightarrow> string" where
  "after_rune s = drop (max 1 (rune_size s)) s"

definition first_rune :: "string \<Rightarrow> string" where
  "first_rune s = take (rune_size s) s"

lemma after_rune_shorter [termination_simp]: "length (after_rune (c # s)) < Suc (length s)"
  by (simp add: after_rune_def)

function utf8 :: "string \<Rightarrow> bool" where
  "utf8 [] = True"
| "utf8 (c # s) = (rune_size (c # s) \<noteq> 0 \<and> utf8 (after_rune (c # s)))"
  by pat_completeness auto
termination by (relation "measure length") (simp_all add: after_rune_shorter)

declare utf8.simps(2) [simp del]

text \<open>The UTF-8 encoding of a code point.\<close>

definition utf8_encode :: "nat \<Rightarrow> string" where
  "utf8_encode r =
     map char_of
      (if r < 0x80 then [r]
       else if r < 0x800 then [0xC0 + r div 0x40, 0x80 + r mod 0x40]
       else if r < 0x10000 then [0xE0 + r div 0x1000, 0x80 + r div 0x40 mod 0x40, 0x80 + r mod 0x40]
       else [0xF0 + r div 0x40000, 0x80 + r div 0x1000 mod 0x40, 0x80 + r div 0x40 mod 0x40, 0x80 + r mod 0x40])"

definition replacement :: string where "replacement = [CHR 0xEF, CHR 0xBF, CHR 0xBD]"

section \<open>Strings\<close>

text \<open>\<open>appendString\<close> with HTML escaping, as \<open>Marshal\<close> uses it, without the quotes.\<close>

definition html_safe :: "char \<Rightarrow> bool" where
  "html_safe c = (0x20 \<le> code c \<and> code c < 0x80 \<and> c \<notin> {CHR 0x22, CHR 0x5C, CHR 0x3C, CHR 0x3E, CHR 0x26})"

definition short_escape :: "char \<Rightarrow> char option" where
  "short_escape c =
     (if c = CHR 0x22 \<or> c = CHR 0x5C then Some c
      else if c = CHR 0x08 then Some (CHR ''b'') else if c = CHR 0x0C then Some (CHR ''f'')
      else if c = CHR 0x0A then Some (CHR ''n'') else if c = CHR 0x0D then Some (CHR ''r'')
      else if c = CHR 0x09 then Some (CHR ''t'') else None)"

definition escape_ascii :: "char \<Rightarrow> string" where
  "escape_ascii c =
     (if html_safe c then [c]
      else (case short_escape c of
          Some d \<Rightarrow> [CHR 0x5C, d]
        | None \<Rightarrow> [CHR 0x5C, CHR ''u'', CHR ''0'', CHR ''0'', low_hex (code c div 16), low_hex (code c mod 16)]))"

text \<open>The two line separators are escaped too; \<open>line_separator\<close> gives their last hexadecimal digit.\<close>

definition line_separator :: "string \<Rightarrow> char option" where
  "line_separator s =
     (if s = [CHR 0xE2, CHR 0x80, CHR 0xA8] then Some (CHR ''8'')
      else if s = [CHR 0xE2, CHR 0x80, CHR 0xA9] then Some (CHR ''9'') else None)"

definition escape_rune :: "string \<Rightarrow> string" where
  "escape_rune s =
     (if code (hd s) < 0x80 then escape_ascii (hd s)
      else if rune_size s = 0 then CHR 0x5C # ''ufffd''
      else (case line_separator (first_rune s) of
          Some d \<Rightarrow> CHR 0x5C # ''u202'' @ [d]
        | None \<Rightarrow> first_rune s))"

function escape :: "string \<Rightarrow> string" where
  "escape [] = []"
| "escape (c # s) = escape_rune (c # s) @ escape (after_rune (c # s))"
  by pat_completeness auto
termination by (relation "measure length") (simp_all add: after_rune_shorter)

declare escape.simps(2) [simp del]

definition marshal_string :: "string \<Rightarrow> string" where
  "marshal_string s = CHR 0x22 # escape s @ [CHR 0x22]"

text \<open>\<open>unquote\<close>: the value of a string literal the scanner has accepted, without its quotes.\<close>

definition hex_of :: "char \<Rightarrow> nat option" where
  "hex_of c =
     (if between 48 c 57 then Some (code c - 48)
      else if between 97 c 102 then Some (code c - 87)
      else if between 65 c 70 then Some (code c - 55) else None)"

definition hex4 :: "string \<Rightarrow> nat" where
  "hex4 s = foldl (\<lambda>a c. 16 * a + (case hex_of c of None \<Rightarrow> 0 | Some d \<Rightarrow> d)) 0 (take 4 s)"

definition simple_escape :: "char \<Rightarrow> char" where
  "simple_escape d =
     (if d = CHR ''b'' then CHR 0x08 else if d = CHR ''f'' then CHR 0x0C else if d = CHR ''n'' then CHR 0x0A
      else if d = CHR ''r'' then CHR 0x0D else if d = CHR ''t'' then CHR 0x09 else d)"

text \<open>A \<open>\\u\<close> escape, its digits first: the bytes it stands for and the number of bytes consumed.\<close>

definition unquote_u :: "string \<Rightarrow> string \<times> nat" where
  "unquote_u t =
     (let r = hex4 t; r2 = (if take 2 (drop 4 t) = [CHR 0x5C, CHR ''u''] then hex4 (drop 6 t) else 0) in
      if 0xD800 \<le> r \<and> r < 0xE000 then
        (if r < 0xDC00 \<and> 0xDC00 \<le> r2 \<and> r2 < 0xE000
         then (utf8_encode (0x10000 + (r - 0xD800) * 0x400 + (r2 - 0xDC00)), 10) else (replacement, 4))
      else (utf8_encode r, 4))"

function unquote :: "string \<Rightarrow> string" where
  "unquote [] = []"
| "unquote (c # s) =
     (if c = CHR 0x5C then
        (case s of
           [] \<Rightarrow> []
         | d # t \<Rightarrow>
             if d = CHR ''u'' then fst (unquote_u t) @ unquote (drop (snd (unquote_u t)) t)
             else simple_escape d # unquote t)
      else if rune_size (c # s) = 0 then replacement @ unquote s
      else first_rune (c # s) @ unquote (after_rune (c # s)))"
  by pat_completeness auto
termination by (relation "measure length") (simp_all add: after_rune_shorter)

declare unquote.simps(2) [simp del]

section \<open>Values and printing\<close>

datatype json = JNull | JBool bool | JNum string | JStr string | JArr "json list" | JObj "(string \<times> json) list"

fun print_json :: "json \<Rightarrow> string" where
  "print_json JNull = ''null''"
| "print_json (JBool b) = (if b then ''true'' else ''false'')"
| "print_json (JNum n) = n"
| "print_json (JStr s) = marshal_string s"
| "print_json (JArr js) = CHR ''['' # join_with '','' (map print_json js) @ '']''"
| "print_json (JObj ms) =
     CHR ''{'' # join_with '','' (map (\<lambda>m. marshal_string (fst m) @ CHR '':'' # print_json (snd m)) ms) @ ''}''"

section \<open>Scanning\<close>

datatype token = TPunct char | TString string | TNumber string | TBool bool | TNull

text \<open>
  The scanner, one byte at a time: between tokens, in a string literal (the bytes so far,
  reversed), after a backslash, in the digits of a \<open>\\u\<close> escape, in a number or a word.
\<close>

datatype lex_state = LStart | LString string | LEscape string | LHex string nat | LBare string

definition blank :: "char \<Rightarrow> bool" where "blank c = (c \<in> {CHR 0x20, CHR 0x09, CHR 0x0A, CHR 0x0D})"

definition punct :: "char \<Rightarrow> bool" where "punct c = (c \<in> set ''{}[]:,'')"

definition bare :: "char \<Rightarrow> bool" where
  "bare c = (between 48 c 57 \<or> between 65 c 90 \<or> between 97 c 122 \<or> c \<in> set ''+-.'')"

text \<open>The grammar of numbers: a sign, digits without a leading zero, a fraction, an exponent.\<close>

definition all_digits :: "string \<Rightarrow> bool" where "all_digits s = (s \<noteq> [] \<and> list_all is_digit s)"

definition valid_number :: "string \<Rightarrow> bool" where
  "valid_number s =
     (let t = (if take 1 s = ''-'' then tl s else s);
          ds = takeWhile is_digit t; u = dropWhile is_digit t;
          frac = (if take 1 u = ''.'' then takeWhile is_digit (tl u) else ''0'');
          v = (if take 1 u = ''.'' then dropWhile is_digit (tl u) else u);
          e = (if take 1 v \<in> {''e'', ''E''} then (if take 1 (tl v) \<in> {''+'', ''-''} then tl (tl v) else tl v) else ''0'')
      in ds \<noteq> [] \<and> (take 1 ds = ''0'' \<longrightarrow> ds = ''0'') \<and> frac \<noteq> [] \<and> all_digits e \<and>
         (v = [] \<or> take 1 v \<in> {''e'', ''E''}))"

definition bare_token :: "string \<Rightarrow> token option" where
  "bare_token s =
     (if s = ''null'' then Some TNull else if s = ''true'' then Some (TBool True)
      else if s = ''false'' then Some (TBool False)
      else if valid_number s then Some (TNumber s) else None)"

definition lex_start :: "char \<Rightarrow> (token list \<times> lex_state) option" where
  "lex_start c =
     (if blank c then Some ([], LStart)
      else if punct c then Some ([TPunct c], LStart)
      else if c = CHR 0x22 then Some ([], LString [])
      else if bare c then Some ([], LBare [c]) else None)"

fun lex_step :: "lex_state \<Rightarrow> char \<Rightarrow> (token list \<times> lex_state) option" where
  "lex_step LStart c = lex_start c"
| "lex_step (LString acc) c =
     (if c = CHR 0x22 then Some ([TString (unquote (rev acc))], LStart)
      else if c = CHR 0x5C then Some ([], LEscape (c # acc))
      else if code c < 0x20 then None else Some ([], LString (c # acc)))"
| "lex_step (LEscape acc) c =
     (if c = CHR ''u'' then Some ([], LHex (c # acc) 4)
      else if c \<in> set ''bfnrt/'' \<union> {CHR 0x22, CHR 0x5C} then Some ([], LString (c # acc)) else None)"
| "lex_step (LHex acc n) c =
     (if hex_of c = None then None
      else Some ([], if n \<le> 1 then LString (c # acc) else LHex (c # acc) (n - 1)))"
| "lex_step (LBare acc) c =
     (if bare c then Some ([], LBare (c # acc))
      else (case bare_token (rev acc) of
          None \<Rightarrow> None
        | Some t \<Rightarrow> map_option (\<lambda>(ts, st). (t # ts, st)) (lex_start c)))"

fun lex :: "lex_state \<Rightarrow> string \<Rightarrow> token list option" where
  "lex st [] =
     (case st of
        LStart \<Rightarrow> Some []
      | LBare acc \<Rightarrow> map_option (\<lambda>t. [t]) (bare_token (rev acc))
      | _ \<Rightarrow> None)"
| "lex st (c # s) =
     (case lex_step st c of
        None \<Rightarrow> None
      | Some (ts, st') \<Rightarrow> map_option (\<lambda>us. ts @ us) (lex st' s))"

section \<open>Round trip of strings\<close>

lemma code_eq_iff: "code c = code d \<longleftrightarrow> c = d"
  by (simp add: of_char_eq_iff)

lemma map_append_Nil [simp]: "map_option ((@) []) x = x"
  by (cases x) auto

lemma append_single [simp]: "(@) [x] = (#) x"
  by (rule ext) simp

lemma rune_size_prefix: "rune_size s \<noteq> 0 \<Longrightarrow> rune_size (first_rune s @ t) = rune_size s"
  by (cases s) (auto simp: first_rune_def split: option.splits prod.splits if_splits)

lemma first_rune_length: "rune_size s \<noteq> 0 \<Longrightarrow> length (first_rune s) = rune_size s"
  by (cases s) (auto simp: first_rune_def split: option.splits prod.splits if_splits)

lemma rune_size_ascii: "code c < 0x80 \<Longrightarrow> rune_size (c # s) = 1"
  by (simp add: lead_def continuation_def)

lemma utf8_Cons_ascii [simp]: "code c < 0x80 \<Longrightarrow> utf8 (c # s) = utf8 s"
  by (simp add: utf8.simps(2) after_rune_def rune_size_ascii del: rune_size.simps)

lemma continuation_high: "continuation lo hi s \<Longrightarrow> 0x80 \<le> lo \<Longrightarrow> c \<in> set s \<Longrightarrow> 0x80 \<le> code c"
  by (auto simp: continuation_def list_all_iff between_def split: list.splits)

lemma lead_low: "lead c = Some (n, lo, hi) \<Longrightarrow> 0x80 \<le> lo"
  by (auto simp: lead_def split: if_splits)

lemma first_rune_high: "s \<noteq> [] \<Longrightarrow> 0x80 \<le> code (hd s) \<Longrightarrow> c \<in> set (first_rune s) \<Longrightarrow> 0x80 \<le> code c"
  by (cases s) (auto simp: first_rune_def dest: continuation_high lead_low split: option.splits prod.splits if_splits)

lemma hex_low_hex: "d < 16 \<Longrightarrow> hex_of (low_hex d) = Some d"
  by (auto simp: hex_of_def low_hex_def between_def)

lemma lex_string_skip:
  "(\<And>c. c \<in> set t \<Longrightarrow> c \<noteq> CHR 0x22 \<and> c \<noteq> CHR 0x5C \<and> 0x20 \<le> code c) \<Longrightarrow>
   lex (LString acc) (t @ r) = lex (LString (rev t @ acc)) r"
proof (induction t arbitrary: acc)
  case Nil
  then show ?case by simp
next
  case (Cons c t)
  then have "c \<noteq> CHR 0x22" "c \<noteq> CHR 0x5C" "\<not> code c < 0x20" by force+
  then show ?case using Cons by (simp add:)
qed

lemma high_not_special: "0x80 \<le> code c \<Longrightarrow> c \<noteq> CHR 0x22 \<and> c \<noteq> CHR 0x5C \<and> 0x20 \<le> code c"
  by auto

lemma short_escape_Some: "short_escape c = Some d \<Longrightarrow> d \<in> set ''bfnrt'' \<union> {CHR 0x22, CHR 0x5C} \<and> simple_escape d = c"
  by (auto simp: short_escape_def simple_escape_def split: if_splits)

lemma escape_ascii_cases:
  obtains (plain) "html_safe c" "escape_ascii c = [c]"
  | (short) d where "escape_ascii c = [CHR 0x5C, d]" "d \<in> set ''bfnrt'' \<union> {CHR 0x22, CHR 0x5C}" "simple_escape d = c"
  | (hex) "escape_ascii c = [CHR 0x5C, CHR ''u'', CHR ''0'', CHR ''0'', low_hex (code c div 16), low_hex (code c mod 16)]"
proof (cases "html_safe c")
  case True
  then show ?thesis by (intro that(1)) (simp_all add: escape_ascii_def)
next
  case False
  then show ?thesis
  proof (cases "short_escape c")
    case None
    with False show ?thesis by (intro that(3)) (simp add: escape_ascii_def)
  next
    case (Some d)
    with False show ?thesis using short_escape_Some [OF Some] by (intro that(2) [of d]) (simp_all add: escape_ascii_def)
  qed
qed

lemma lex_escape_two: "d \<in> set ''bfnrt'' \<union> {CHR 0x22, CHR 0x5C} \<Longrightarrow>
  lex (LString acc) (CHR 0x5C # d # r) = lex (LString (d # CHR 0x5C # acc)) r"
  by auto

lemma lex_escape_hex: "hex_of a \<noteq> None \<Longrightarrow> hex_of b \<noteq> None \<Longrightarrow> hex_of c \<noteq> None \<Longrightarrow> hex_of d \<noteq> None \<Longrightarrow>
  lex (LString acc) (CHR 0x5C # CHR ''u'' # a # b # c # d # r) =
  lex (LString (d # c # b # a # CHR ''u'' # CHR 0x5C # acc)) r"
  by auto

lemma hex_zero: "hex_of (CHR ''0'') = Some 0"
  by (simp add: hex_of_def between_def)

lemma lex_escape_ascii:
  assumes "code c < 0x80"
  shows "lex (LString acc) (escape_ascii c @ r) = lex (LString (rev (escape_ascii c) @ acc)) r"
proof (cases c rule: escape_ascii_cases)
  case plain
  then have "lex (LString acc) ([c] @ r) = lex (LString (rev [c] @ acc)) r"
    by (intro lex_string_skip) (auto simp: html_safe_def)
  with plain show ?thesis by simp
next
  case (short d)
  then show ?thesis by (simp only: append_Cons append_Nil lex_escape_two rev.simps)
next
  case hex
  have "code c div 16 < 16" "code c mod 16 < 16" using assms by simp_all
  then show ?thesis unfolding hex
    by (simp only: append_Cons append_Nil rev.simps, subst lex_escape_hex) (simp_all add: hex_low_hex hex_zero)
qed

lemma lex_escape_rune: "s \<noteq> [] \<Longrightarrow> lex (LString acc) (escape_rune s @ r) = lex (LString (rev (escape_rune s) @ acc)) r"
proof -
  assume s: "s \<noteq> []"
  consider "code (hd s) < 0x80" | "0x80 \<le> code (hd s)" "rune_size s = 0"
    | d where "0x80 \<le> code (hd s)" "rune_size s \<noteq> 0" "line_separator (first_rune s) = Some d"
    | "0x80 \<le> code (hd s)" "rune_size s \<noteq> 0" "line_separator (first_rune s) = None" by fastforce
  then show ?thesis
  proof cases
    case 1
    then show ?thesis by (simp add: escape_rune_def lex_escape_ascii)
  next
    case 2
    then show ?thesis by (simp add: escape_rune_def hex_of_def between_def)
  next
    case 3
    then show ?thesis
      by (auto simp: escape_rune_def line_separator_def hex_of_def between_def split: if_splits)
  next
    case 4
    then have "escape_rune s = first_rune s" by (simp add: escape_rune_def)
    then show ?thesis using lex_string_skip [of "first_rune s"] high_not_special first_rune_high [OF s 4(1)] by metis
  qed
qed

lemma lex_escape: "lex (LString acc) (escape s @ r) = lex (LString (rev (escape s) @ acc)) r"
  by (induction s arbitrary: acc rule: escape.induct) (simp_all add: escape.simps(2) lex_escape_rune)

lemma lex_marshal_string: "lex LStart (marshal_string s @ r) = map_option ((#) (TString (unquote (escape s)))) (lex LStart r)"
  by (simp add: marshal_string_def lex_escape lex_start_def blank_def punct_def)

lemma unquote_ascii: "code c < 0x80 \<Longrightarrow> c \<noteq> CHR 0x5C \<Longrightarrow> unquote (c # t) = c # unquote t"
  by (simp add: unquote.simps(2) rune_size_ascii first_rune_def after_rune_def del: rune_size.simps)

lemma unquote_short: "d \<noteq> CHR ''u'' \<Longrightarrow> unquote (CHR 0x5C # d # t) = simple_escape d # unquote t"
  by (simp add: unquote.simps(2))

lemma unquote_hex:
  "r = hex4 [a, b, c, d] \<Longrightarrow> r < 0xD800 \<Longrightarrow>
   unquote (CHR 0x5C # CHR ''u'' # a # b # c # d # t) = utf8_encode r @ unquote t"
  by (simp add: unquote.simps(2) unquote_u_def hex4_def Let_def)

lemma unquote_high:
  assumes "s \<noteq> []" "0x80 \<le> code (hd s)" "rune_size s \<noteq> 0"
  shows "unquote (first_rune s @ t) = first_rune s @ unquote t"
proof -
  obtain c u where s: "s = c # u" using assms(1) by (cases s) auto
  obtain v where v: "first_rune s = c # v" using assms(3) by (cases "rune_size s") (simp_all add: s first_rune_def del: rune_size.simps)
  have "rune_size (c # v @ t) = length (c # v)" using rune_size_prefix [OF assms(3), of t] first_rune_length [OF assms(3)] by (simp add: v)
  moreover have "c \<noteq> CHR 0x5C" using assms(2) by (auto simp: s)
  ultimately have "unquote (c # v @ t) = (c # v) @ unquote t"
    by (simp add: unquote.simps(2) first_rune_def after_rune_def del: rune_size.simps)
  then show ?thesis by (simp add: v)
qed

lemma unquote_escape_rune:
  assumes "s \<noteq> []" "rune_size s \<noteq> 0"
  shows "unquote (escape_rune s @ t) = first_rune s @ unquote t"
proof (cases "code (hd s) < 0x80")
  case True
  obtain c u where s: "s = c # u" using assms(1) by (cases s) auto
  have one: "first_rune s = [c]" using True by (simp add: s first_rune_def rune_size_ascii del: rune_size.simps)
  show ?thesis
  proof (cases c rule: escape_ascii_cases)
    case plain
    then show ?thesis using True one by (simp add: escape_rune_def s unquote_ascii html_safe_def)
  next
    case (short d)
    then have "d \<noteq> CHR ''u''" by auto
    with short show ?thesis using True one by (simp add: escape_rune_def s unquote_short)
  next
    case hex
    have d: "hex_of (low_hex (code c div 16)) = Some (code c div 16)" "hex_of (low_hex (code c mod 16)) = Some (code c mod 16)"
      using True by (simp_all add: s hex_low_hex)
    have "hex4 [CHR ''0'', CHR ''0'', low_hex (code c div 16), low_hex (code c mod 16)] = code c"
      by (simp add: hex4_def d hex_zero)
    moreover have "utf8_encode (code c) = [c]" using True by (simp add: utf8_encode_def s)
    ultimately show ?thesis using True one
      by (simp add: escape_rune_def s hex unquote_hex)
  qed
next
  case False
  show ?thesis
  proof (cases "line_separator (first_rune s)")
    case None
    then have "escape_rune s = first_rune s" using False assms by (simp add: escape_rune_def)
    then show ?thesis using unquote_high [OF assms(1) _ assms(2)] False by simp
  next
    case (Some d)
    have sep: "hex4 ''2028'' = 0x2028" "hex4 ''2029'' = 0x2029" "utf8_encode 0x2028 = [CHR 0xE2, CHR 0x80, CHR 0xA8]"
      "utf8_encode 0x2029 = [CHR 0xE2, CHR 0x80, CHR 0xA9]"
      using char_of_char [where 'a = nat, of "CHR 0xE2"] char_of_char [where 'a = nat, of "CHR 0x80"]
        char_of_char [where 'a = nat, of "CHR 0xA8"] char_of_char [where 'a = nat, of "CHR 0xA9"]
      by (simp_all add: hex4_def hex_of_def between_def utf8_encode_def)
    from Some consider "first_rune s = [CHR 0xE2, CHR 0x80, CHR 0xA8]" "d = CHR ''8''"
      | "first_rune s = [CHR 0xE2, CHR 0x80, CHR 0xA9]" "d = CHR ''9''"
      by (auto simp: line_separator_def split: if_splits)
    moreover have "escape_rune s = CHR 0x5C # CHR ''u'' # ''202'' @ [d]"
      using False assms Some by (simp add: escape_rune_def)
    ultimately show ?thesis
      using unquote_hex [OF sep(1) [symmetric]] unquote_hex [OF sep(2) [symmetric]] by cases (simp_all add: sep(3,4))
  qed
qed

lemma first_after_rune: "rune_size s \<noteq> 0 \<Longrightarrow> first_rune s @ after_rune s = s"
  by (simp add: first_rune_def after_rune_def max_def)

text \<open>The decoder inverts the encoder on valid UTF-8.\<close>

lemma unquote_escape: "utf8 s \<Longrightarrow> unquote (escape s) = s"
proof (induction s rule: escape.induct)
  case 1
  then show ?case by simp
next
  case (2 c s)
  then have "rune_size (c # s) \<noteq> 0" "utf8 (after_rune (c # s))" by (simp_all add: utf8.simps(2) del: rune_size.simps)
  with 2 show ?case
    by (simp add: escape.simps(2) unquote_escape_rune first_after_rune del: rune_size.simps)
qed

end
