(* ===== verification/GoJsonParse.thy ===== *)
theory GoJsonParse
  imports GoJson
begin

text \<open>
  The parser of \<open>encoding/json\<close> over the tokens of \<open>GoJson\<close>, as a push-down automaton like the
  scanner's \<open>parseState\<close>, and the round trip: parsing what \<open>Marshal\<close> prints gives the value back.
\<close>

section \<open>The automaton\<close>

text \<open>An open container around the current value: an array, or an object with the pending key.\<close>

datatype frame = FArr "json list" | FObj "(string \<times> json) list" string

text \<open>
  What may come next: a value; a value or the end of an array just opened; after an element; a
  key or the end of an object just opened; a key; the colon; after a member; nothing more.
\<close>

datatype parse_mode =
    MValue
  | MElem
  | MArr "json list"
  | MMember
  | MKey "(string \<times> json) list"
  | MColon "(string \<times> json) list" string
  | MObj "(string \<times> json) list"
  | MDone json

type_synonym parser = "parse_mode \<times> frame list"

text \<open>\<open>maxNestingDepth\<close>.\<close>

definition max_depth :: nat where "max_depth = 10000"

fun deliver :: "json \<Rightarrow> frame list \<Rightarrow> parser" where
  "deliver v [] = (MDone v, [])"
| "deliver v (FArr vs # st) = (MArr (vs @ [v]), st)"
| "deliver v (FObj ms k # st) = (MObj (ms @ [(k, v)]), st)"

definition begin_value :: "token \<Rightarrow> frame list \<Rightarrow> parser option" where
  "begin_value t st =
     (case t of
        TNull \<Rightarrow> Some (deliver JNull st)
      | TBool b \<Rightarrow> Some (deliver (JBool b) st)
      | TNumber n \<Rightarrow> Some (deliver (JNum n) st)
      | TString s \<Rightarrow> Some (deliver (JStr s) st)
      | TPunct c \<Rightarrow>
          if max_depth \<le> length st then None
          else if c = CHR ''['' then Some (MElem, st)
          else if c = CHR ''{'' then Some (MMember, st) else None)"

fun parse_step :: "parser \<Rightarrow> token \<Rightarrow> parser option" where
  "parse_step (MValue, st) t = begin_value t st"
| "parse_step (MElem, st) t =
     (if t = TPunct (CHR '']'') then Some (deliver (JArr []) st) else begin_value t (FArr [] # st))"
| "parse_step (MArr vs, st) t =
     (if t = TPunct (CHR '','') then Some (MValue, FArr vs # st)
      else if t = TPunct (CHR '']'') then Some (deliver (JArr vs) st) else None)"
| "parse_step (MMember, st) t =
     (if t = TPunct (CHR ''}'') then Some (deliver (JObj []) st)
      else (case t of TString k \<Rightarrow> Some (MColon [] k, st) | _ \<Rightarrow> None))"
| "parse_step (MKey ms, st) t = (case t of TString k \<Rightarrow> Some (MColon ms k, st) | _ \<Rightarrow> None)"
| "parse_step (MColon ms k, st) t = (if t = TPunct (CHR '':'') then Some (MValue, FObj ms k # st) else None)"
| "parse_step (MObj ms, st) t =
     (if t = TPunct (CHR '','') then Some (MKey ms, st)
      else if t = TPunct (CHR ''}'') then Some (deliver (JObj ms) st) else None)"
| "parse_step (MDone v, st) t = None"

fun parse_run :: "parser \<Rightarrow> token list \<Rightarrow> parser option" where
  "parse_run p [] = Some p"
| "parse_run p (t # ts) = (case parse_step p t of None \<Rightarrow> None | Some q \<Rightarrow> parse_run q ts)"

definition parse_json :: "string \<Rightarrow> json option" where
  "parse_json s =
     (case lex LStart s of
        None \<Rightarrow> None
      | Some ts \<Rightarrow> (case parse_run (MValue, []) ts of Some (MDone v, st) \<Rightarrow> Some v | _ \<Rightarrow> None))"

section \<open>Tokens of a value\<close>

fun commas :: "token list list \<Rightarrow> token list" where
  "commas [] = []"
| "commas [ts] = ts"
| "commas (ts # tss) = ts @ TPunct (CHR '','') # commas tss"

fun tokens :: "json \<Rightarrow> token list" where
  "tokens JNull = [TNull]"
| "tokens (JBool b) = [TBool b]"
| "tokens (JNum n) = [TNumber n]"
| "tokens (JStr s) = [TString s]"
| "tokens (JArr js) = TPunct (CHR ''['') # commas (map tokens js) @ [TPunct (CHR '']'')]"
| "tokens (JObj ms) =
     TPunct (CHR ''{'') # commas (map (\<lambda>m. TString (fst m) # TPunct (CHR '':'') # tokens (snd m)) ms) @ [TPunct (CHR ''}'')]"

text \<open>Values that \<open>Marshal\<close> can produce: valid numbers, valid UTF-8, a bounded depth.\<close>

fun printable :: "json \<Rightarrow> bool" where
  "printable JNull = True"
| "printable (JBool b) = True"
| "printable (JNum n) = (valid_number n \<and> list_all bare n)"
| "printable (JStr s) = utf8 s"
| "printable (JArr js) = list_all printable js"
| "printable (JObj ms) = list_all (\<lambda>m. utf8 (fst m) \<and> printable (snd m)) ms"

fun depth :: "json \<Rightarrow> nat" where
  "depth (JArr js) = Suc (Max (set (0 # map depth js)))"
| "depth (JObj ms) = Suc (Max (set (0 # map (\<lambda>m. depth (snd m)) ms)))"
| "depth j = 0"

section \<open>Scanning what was printed\<close>

text \<open>What may follow a bare token.\<close>

definition stops :: "string \<Rightarrow> bool" where
  "stops r = (case r of [] \<Rightarrow> True | c # _ \<Rightarrow> \<not> bare c)"

lemma append_Cons_fun: "(@) (x # xs) = (\<lambda>ys. x # xs @ ys)"
  by (rule ext) simp

lemma lex_bare_run: "list_all bare t \<Longrightarrow> lex (LBare acc) (t @ r) = lex (LBare (rev t @ acc)) r"
  by (induction t arbitrary: acc) simp_all

lemma lex_bare_stop: "bare_token (rev acc) = Some t \<Longrightarrow> stops r \<Longrightarrow> lex (LBare acc) r = map_option ((#) t) (lex LStart r)"
  by (cases r) (auto simp: stops_def option.map_comp comp_def append_Cons_fun split: option.splits)

lemma bare_not_punct: "bare c \<Longrightarrow> \<not> blank c \<and> \<not> punct c \<and> c \<noteq> CHR 0x22"
  by (auto simp: bare_def blank_def punct_def between_def)

lemma lex_bare:
  assumes "list_all bare t" "t \<noteq> []" "bare_token t = Some k" "stops r"
  shows "lex LStart (t @ r) = map_option ((#) k) (lex LStart r)"
proof -
  obtain c u where t: "t = c # u" using assms(2) by (cases t) auto
  have "lex_start c = Some ([], LBare [c])" using assms(1) bare_not_punct [of c] by (auto simp: t lex_start_def)
  then have "lex LStart (t @ r) = lex (LBare [c]) (u @ r)" by (simp add: t)
  also have "\<dots> = lex (LBare (rev u @ [c])) r" using assms(1) by (simp add: t lex_bare_run)
  also have "\<dots> = map_option ((#) k) (lex LStart r)"
    by (rule lex_bare_stop) (use assms(3,4) in \<open>simp_all add: t\<close>)
  finally show ?thesis .
qed

lemma punct_not_blank: "punct c \<Longrightarrow> \<not> blank c"
  by (auto simp: punct_def blank_def)

lemma lex_start_punct: "punct c \<Longrightarrow> lex_start c = Some ([TPunct c], LStart)"
  unfolding lex_start_def by (auto simp: punct_not_blank)

lemma lex_punct: "punct c \<Longrightarrow> lex LStart (c # r) = map_option ((#) (TPunct c)) (lex LStart r)"
  by (simp only: lex.simps lex_step.simps lex_start_punct option.case prod.case) simp

declare lex.simps [simp del]

lemma puncts [simp]:
  "punct (CHR ''['')" "punct (CHR '']'')" "punct (CHR ''{'')" "punct (CHR ''}'')" "punct (CHR '','')" "punct (CHR '':'')"
  by (simp_all add: punct_def)

lemma stops_simps [simp]: "stops []" "stops (CHR '','' # r)" "stops (CHR '']'' # r)" "stops (CHR ''}'' # r)"
  by (simp_all add: stops_def bare_def between_def)

text \<open>A printer and its tokens agree on every text that may follow.\<close>

definition scans_as :: "string \<Rightarrow> token list \<Rightarrow> bool" where
  "scans_as s ts = (\<forall>r. stops r \<longrightarrow> lex LStart (s @ r) = map_option ((@) ts) (lex LStart r))"

lemma scans_asD: "scans_as s ts \<Longrightarrow> stops r \<Longrightarrow> lex LStart (s @ r) = map_option ((@) ts) (lex LStart r)"
  by (simp add: scans_as_def)

lemma scans_as_bare: "list_all bare t \<Longrightarrow> t \<noteq> [] \<Longrightarrow> bare_token t = Some k \<Longrightarrow> scans_as t [k]"
  unfolding scans_as_def using lex_bare by simp

lemma scans_as_string: "utf8 s \<Longrightarrow> lex LStart (marshal_string s @ r) = map_option ((#) (TString s)) (lex LStart r)"
  by (simp add: lex_marshal_string unquote_escape)

lemma scans_as_commas:
  assumes "list_all2 scans_as ss tss" "punct c" "\<not> bare c"
  shows "lex LStart (join_with '','' ss @ c # r) = map_option ((@) (commas tss @ [TPunct c])) (lex LStart r)"
  using assms(1)
proof (induction ss tss rule: list_all2_induct)
  case Nil
  then show ?case using assms(2) by (simp add: lex_punct)
next
  case (Cons s ss ts tss)
  have end_ok: "stops (c # r)" using assms(3) by (simp add: stops_def)
  show ?case
  proof (cases ss)
    case Nil
    then have "tss = []" using Cons(2) by simp
    with Nil show ?thesis using scans_asD [OF Cons(1) end_ok] assms(2)
      by (simp add: lex_punct option.map_comp comp_def)
  next
    case (Cons s2 ss2)
    then obtain ts2 tss2 where t: "tss = ts2 # tss2" using \<open>list_all2 scans_as ss tss\<close> by (cases tss) auto
    have "lex LStart (s @ CHR '','' # join_with '','' ss @ c # r) =
        map_option ((@) ts) (map_option ((#) (TPunct (CHR '',''))) (lex LStart (join_with '','' ss @ c # r)))"
      using scans_asD [OF \<open>scans_as s ts\<close>, of "CHR '','' # join_with '','' ss @ c # r"] by (simp add: lex_punct)
    then show ?thesis using Cons.IH by (simp add: Cons t option.map_comp comp_def)
  qed
qed

lemma bare_words:
  "scans_as ''null'' [TNull]" "scans_as ''true'' [TBool True]" "scans_as ''false'' [TBool False]"
  by (rule scans_as_bare; simp add: bare_def between_def bare_token_def)+

lemma number_token: "valid_number n \<Longrightarrow> bare_token n = Some (TNumber n) \<and> n \<noteq> []"
proof -
  assume v: "valid_number n"
  have "\<not> valid_number ''null''" "\<not> valid_number ''true''" "\<not> valid_number ''false''" "\<not> valid_number []"
    by (simp_all add: valid_number_def is_digit_def Let_def)
  with v show ?thesis unfolding bare_token_def by (metis (full_types))
qed

lemma scans_as_print: "printable j \<Longrightarrow> scans_as (print_json j) (tokens j)"
proof (induction j)
  case JNull
  show ?case using bare_words(1) by simp
next
  case (JBool b)
  show ?case using bare_words(2,3) by simp
next
  case (JNum n)
  then show ?case using number_token [of n] by (simp add: scans_as_bare)
next
  case (JStr s)
  then show ?case by (simp add: scans_as_def scans_as_string)
next
  case (JArr js)
  then have "list_all2 scans_as (map print_json js) (map tokens js)"
    by (auto simp: list_all2_conv_all_nth list_all_iff)
  then show ?case
    by (simp add: scans_as_def lex_punct scans_as_commas bare_def between_def option.map_comp comp_def append_Cons_fun)
next
  case (JObj ms)
  have "scans_as (marshal_string (fst m) @ CHR '':'' # print_json (snd m)) (TString (fst m) # TPunct (CHR '':'') # tokens (snd m))"
    if "m \<in> set ms" for m
  proof -
    have "scans_as (print_json (snd m)) (tokens (snd m))" using JObj that by (cases m) (force simp: list_all_iff)
    moreover have "utf8 (fst m)" using JObj.prems that by (simp add: list_all_iff)
    ultimately show ?thesis
      by (simp add: scans_as_def scans_as_string lex_punct option.map_comp comp_def append_Cons_fun)
  qed
  then have "list_all2 scans_as (map (\<lambda>m. marshal_string (fst m) @ CHR '':'' # print_json (snd m)) ms)
      (map (\<lambda>m. TString (fst m) # TPunct (CHR '':'') # tokens (snd m)) ms)"
    by (auto simp: list_all2_conv_all_nth)
  then show ?case
    by (simp add: scans_as_def lex_punct scans_as_commas bare_def between_def option.map_comp comp_def append_Cons_fun)
qed

section \<open>Parsing what was printed\<close>

lemma parse_run_append: "parse_run p (ts @ us) = (case parse_run p ts of None \<Rightarrow> None | Some q \<Rightarrow> parse_run q us)"
  by (induction ts arbitrary: p) (auto split: option.splits)

text \<open>A value with its tokens leads the automaton from \<open>MValue\<close> to the delivery of that value.\<close>

definition parses_at :: "nat \<Rightarrow> json \<Rightarrow> bool" where
  "parses_at n j = (\<forall>st us. length st + n \<le> max_depth \<longrightarrow>
     parse_run (MValue, st) (tokens j @ us) = parse_run (deliver j st) us)"

lemma parses_atD:
  "parses_at n j \<Longrightarrow> length st + n \<le> max_depth \<Longrightarrow> parse_run (MValue, st) (tokens j @ us) = parse_run (deliver j st) us"
  by (simp add: parses_at_def)

lemma parse_elem_start:
  "tokens j = t # ts \<Longrightarrow> t \<noteq> TPunct (CHR '']'') \<Longrightarrow>
   parse_run (MElem, st) (tokens j @ us) = parse_run (MValue, FArr [] # st) (tokens j @ us)"
  by simp

lemma tokens_not_end: "\<exists>t ts. tokens j = t # ts \<and> t \<noteq> TPunct (CHR '']'')"
  by (cases j) simp_all

lemma parse_array_rest:
  assumes "\<And>j. j \<in> set js \<Longrightarrow> parses_at n j" "length st + Suc n \<le> max_depth"
  shows "parse_run (MArr vs, st) (concat (map (\<lambda>j. TPunct (CHR '','') # tokens j) js) @ TPunct (CHR '']'') # us) =
    parse_run (deliver (JArr (vs @ js)) st) us"
  using assms
proof (induction js arbitrary: vs)
  case Nil
  then show ?case by simp
next
  case (Cons j js)
  have "parse_run (MArr vs, st) (concat (map (\<lambda>j. TPunct (CHR '','') # tokens j) (j # js)) @ TPunct (CHR '']'') # us) =
      parse_run (MArr (vs @ [j]), st) (concat (map (\<lambda>j. TPunct (CHR '','') # tokens j) js) @ TPunct (CHR '']'') # us)"
    using parses_atD [OF Cons.prems(1) [of j]] Cons.prems(2) by simp
  also have "\<dots> = parse_run (deliver (JArr ((vs @ [j]) @ js)) st) us"
    by (rule Cons.IH) (use Cons.prems in auto)
  finally show ?case by simp
qed

lemma parse_object_rest:
  assumes "\<And>m. m \<in> set ms \<Longrightarrow> parses_at n (snd m)" "length st + Suc n \<le> max_depth"
  shows "parse_run (MObj vs, st) (concat (map (\<lambda>m. TPunct (CHR '','') # TString (fst m) # TPunct (CHR '':'') # tokens (snd m)) ms) @
      TPunct (CHR ''}'') # us) = parse_run (deliver (JObj (vs @ ms)) st) us"
  using assms
proof (induction ms arbitrary: vs)
  case Nil
  then show ?case by simp
next
  case (Cons m ms)
  have "parse_run (MObj vs, st) (concat (map (\<lambda>m. TPunct (CHR '','') # TString (fst m) # TPunct (CHR '':'') # tokens (snd m)) (m # ms)) @
      TPunct (CHR ''}'') # us) =
      parse_run (MObj (vs @ [m]), st) (concat (map (\<lambda>m. TPunct (CHR '','') # TString (fst m) # TPunct (CHR '':'') # tokens (snd m)) ms) @
      TPunct (CHR ''}'') # us)"
    using parses_atD [OF Cons.prems(1) [of m]] Cons.prems(2) by simp
  also have "\<dots> = parse_run (deliver (JObj ((vs @ [m]) @ ms)) st) us"
    by (rule Cons.IH) (use Cons.prems in auto)
  finally show ?case by simp
qed

lemma commas_Cons: "commas (t # ts) = t @ concat (map ((#) (TPunct (CHR '',''))) ts)"
  by (induction ts arbitrary: t) simp_all

lemma parses_array:
  assumes "\<And>j. j \<in> set js \<Longrightarrow> parses_at n j"
  shows "parses_at (Suc n) (JArr js)"
  unfolding parses_at_def
proof (intro allI impI)
  fix st :: "frame list" and us
  assume room: "length st + Suc n \<le> max_depth"
  then have enter: "parse_run (MValue, st) (tokens (JArr js) @ us) =
      parse_run (MElem, st) (commas (map tokens js) @ TPunct (CHR '']'') # us)" by (simp add: begin_value_def)
  show "parse_run (MValue, st) (tokens (JArr js) @ us) = parse_run (deliver (JArr js) st) us"
  proof (cases js)
    case Nil
    then show ?thesis unfolding enter by simp
  next
    case (Cons j js')
    let ?rest = "concat (map (\<lambda>j. TPunct (CHR '','') # tokens j) js') @ TPunct (CHR '']'') # us"
    obtain t ts where "tokens j = t # ts" "t \<noteq> TPunct (CHR '']'')" using tokens_not_end by blast
    then have "parse_run (MElem, st) (tokens j @ ?rest) = parse_run (MValue, FArr [] # st) (tokens j @ ?rest)"
      by (rule parse_elem_start)
    also have "\<dots> = parse_run (MArr [j], st) ?rest"
      using parses_atD [OF assms [of j], of "FArr [] # st"] room Cons by simp
    also have "\<dots> = parse_run (deliver (JArr ([j] @ js')) st) us"
      by (rule parse_array_rest) (use assms room Cons in auto)
    finally show ?thesis unfolding enter by (simp add: Cons commas_Cons comp_def)
  qed
qed

lemma parses_object:
  assumes "\<And>m. m \<in> set ms \<Longrightarrow> parses_at n (snd m)"
  shows "parses_at (Suc n) (JObj ms)"
  unfolding parses_at_def
proof (intro allI impI)
  fix st :: "frame list" and us
  assume room: "length st + Suc n \<le> max_depth"
  let ?tok = "\<lambda>m. TString (fst m) # TPunct (CHR '':'') # tokens (snd m)"
  have enter: "parse_run (MValue, st) (tokens (JObj ms) @ us) =
      parse_run (MMember, st) (commas (map ?tok ms) @ TPunct (CHR ''}'') # us)"
    using room by (simp add: begin_value_def)
  show "parse_run (MValue, st) (tokens (JObj ms) @ us) = parse_run (deliver (JObj ms) st) us"
  proof (cases ms)
    case Nil
    then show ?thesis unfolding enter by simp
  next
    case (Cons m ms')
    let ?rest = "concat (map (\<lambda>m. TPunct (CHR '','') # ?tok m) ms') @ TPunct (CHR ''}'') # us"
    have "parse_run (MMember, st) (?tok m @ ?rest) = parse_run (MObj [m], st) ?rest"
      using parses_atD [OF assms [of m], of "FObj [] (fst m) # st"] room Cons by simp
    also have "\<dots> = parse_run (deliver (JObj ([m] @ ms')) st) us"
      by (rule parse_object_rest) (use assms room Cons in auto)
    finally show ?thesis unfolding enter by (simp add: Cons commas_Cons comp_def)
  qed
qed

lemma parses_at_mono: "parses_at m j \<Longrightarrow> m \<le> n \<Longrightarrow> parses_at n j"
  by (auto simp: parses_at_def)

lemma parses_depth: "parses_at (depth j) j"
proof (induction j)
  case (JArr js)
  have "parses_at (Max (set (0 # map depth js))) j" if "j \<in> set js" for j
    by (rule parses_at_mono [OF JArr [OF that]]) (rule Max_ge, use that in auto)
  then show ?case using parses_array by simp
next
  case (JObj ms)
  have "parses_at (Max (set (0 # map (\<lambda>m. depth (snd m)) ms))) (snd m)" if "m \<in> set ms" for m
  proof (rule parses_at_mono)
    show "parses_at (depth (snd m)) (snd m)" using JObj that by (cases m) force
    show "depth (snd m) \<le> Max (set (0 # map (\<lambda>m. depth (snd m)) ms))" by (rule Max_ge) (use that in auto)
  qed
  then show ?case using parses_object by simp
qed (simp_all add: parses_at_def begin_value_def)

text \<open>What \<open>Marshal\<close> prints is parsed back.\<close>

lemma parse_print_json: "printable j \<Longrightarrow> depth j \<le> max_depth \<Longrightarrow> parse_json (print_json j) = Some j"
  using scans_asD [OF scans_as_print, of j "[]"] parses_atD [OF parses_depth [of j], of "[]" "[]"]
  by (simp add: parse_json_def lex.simps)

end
