(* ===== verification/GoJsonStruct.thy ===== *)
theory GoJsonStruct
  imports GoJsonParse "HOL-Library.AList"
begin

text \<open>
  Structs in \<open>encoding/json\<close>: a struct is decoded member by member into its fields, and printed
  with its fields in order. \<open>json_codec\<close> is what a configuration type provides, and the round trip
  is proved once for all of them.
\<close>

section \<open>Decoding fields\<close>

text \<open>
  A field's decoder changes the struct and may report an error; \<open>Unmarshal\<close> goes on after a type
  error and reports the first one at the end. A null leaves a scalar as it is.
\<close>

type_synonym 'r field_decoder = "json \<Rightarrow> 'r \<Rightarrow> 'r \<times> go_error option"
type_synonym 'r fields = "(string \<times> 'r field_decoder) list"

definition type_error :: go_error where "type_error = ErrExt ''json: cannot unmarshal value of another type''"
definition syntax_error :: go_error where "syntax_error = ErrExt ''json: invalid syntax''"

definition string_field :: "(string \<Rightarrow> 'r \<Rightarrow> 'r) \<Rightarrow> 'r field_decoder" where
  "string_field upd j r =
     (case j of JStr s \<Rightarrow> (upd s r, None) | JNull \<Rightarrow> (r, None) | _ \<Rightarrow> (r, Some type_error))"

definition bool_field :: "(bool \<Rightarrow> 'r \<Rightarrow> 'r) \<Rightarrow> 'r field_decoder" where
  "bool_field upd j r =
     (case j of JBool b \<Rightarrow> (upd b r, None) | JNull \<Rightarrow> (r, None) | _ \<Rightarrow> (r, Some type_error))"

definition int_field :: "(int \<Rightarrow> 'r \<Rightarrow> 'r) \<Rightarrow> 'r field_decoder" where
  "int_field upd j r =
     (case j of
        JNum n \<Rightarrow> (case atoi n of Inr i \<Rightarrow> (upd i r, None) | Inl e \<Rightarrow> (r, Some type_error))
      | JNull \<Rightarrow> (r, None)
      | _ \<Rightarrow> (r, Some type_error))"

text \<open>The value of a string element, with the error it causes.\<close>

definition string_element :: "json \<Rightarrow> string \<times> go_error option" where
  "string_element j = string_field (\<lambda>s _. s) j []"

definition first_error :: "go_error option list \<Rightarrow> go_error option" where
  "first_error es = (case filter (\<lambda>e. e \<noteq> None) es of [] \<Rightarrow> None | e # _ \<Rightarrow> e)"

text \<open>A string slice, always decoded from an empty one; a null is the nil slice.\<close>

definition strings_field :: "(string list \<Rightarrow> 'r \<Rightarrow> 'r) \<Rightarrow> 'r field_decoder" where
  "strings_field upd j r =
     (case j of
        JArr js \<Rightarrow> (upd (map (fst \<circ> string_element) js) r, first_error (map (snd \<circ> string_element) js))
      | JNull \<Rightarrow> (upd [] r, None)
      | _ \<Rightarrow> (r, Some type_error))"

text \<open>A string map: members are added to the map that is there; a null is the nil map.\<close>

definition string_map_field :: "('r \<Rightarrow> (string \<times> string) list) \<Rightarrow> ((string \<times> string) list \<Rightarrow> 'r \<Rightarrow> 'r) \<Rightarrow> 'r field_decoder" where
  "string_map_field get upd j r =
     (case j of
        JObj ms \<Rightarrow>
          (upd (fold (\<lambda>(k, v). AList.update k (fst (string_element v))) ms (get r)) r,
           first_error (map (snd \<circ> string_element \<circ> snd) ms))
      | JNull \<Rightarrow> (upd [] r, None)
      | _ \<Rightarrow> (r, Some type_error))"

text \<open>The field of a member: its exact name, or the first name that agrees up to case.\<close>

definition field_of :: "'r fields \<Rightarrow> string \<Rightarrow> 'r field_decoder option" where
  "field_of fs k =
     (case map_of fs k of
        Some d \<Rightarrow> Some d
      | None \<Rightarrow> map_option snd (find (\<lambda>(n, d). equal_fold_ascii k n) fs))"

definition decode_member :: "'r fields \<Rightarrow> string \<times> json \<Rightarrow> 'r \<times> go_error option \<Rightarrow> 'r \<times> go_error option" where
  "decode_member fs m acc =
     (case field_of fs (fst m) of
        None \<Rightarrow> acc
      | Some d \<Rightarrow>
          (case d (snd m) (fst acc) of
             (r, e) \<Rightarrow> (r, case snd acc of None \<Rightarrow> e | Some e' \<Rightarrow> Some e')))"

definition decode_struct :: "'r fields \<Rightarrow> json \<Rightarrow> 'r \<Rightarrow> 'r \<times> go_error option" where
  "decode_struct fs j r =
     (case j of
        JObj ms \<Rightarrow> fold (decode_member fs) ms (r, None)
      | JNull \<Rightarrow> (r, None)
      | _ \<Rightarrow> (r, Some type_error))"

text \<open>A pointer to a struct: allocated by any value but null.\<close>

definition pointer_field :: "'s fields \<Rightarrow> 's \<Rightarrow> ('r \<Rightarrow> 's option) \<Rightarrow> ('s option \<Rightarrow> 'r \<Rightarrow> 'r) \<Rightarrow> 'r field_decoder" where
  "pointer_field fs zero get upd j r =
     (if j = JNull then (upd None r, None)
      else (case decode_struct fs j (case get r of None \<Rightarrow> zero | Some x \<Rightarrow> x) of (x, e) \<Rightarrow> (upd (Some x) r, e)))"

text \<open>\<open>Unmarshal\<close> into a zero struct: what it holds afterwards, and the error.\<close>

definition unmarshal_into :: "'r fields \<Rightarrow> 'r \<Rightarrow> string \<Rightarrow> 'r \<times> go_error option" where
  "unmarshal_into fs zero text =
     (case parse_json text of None \<Rightarrow> (zero, Some syntax_error) | Some j \<Rightarrow> decode_struct fs j zero)"

definition unmarshal :: "'r fields \<Rightarrow> 'r \<Rightarrow> string \<Rightarrow> 'r result" where
  "unmarshal fs zero text =
     (case unmarshal_into fs zero text of (r, None) \<Rightarrow> Inr r | (r, Some e) \<Rightarrow> Inl e)"

section \<open>Encoding fields\<close>

abbreviation json_int :: "int \<Rightarrow> json" where "json_int i \<equiv> JNum (itoa i)"

text \<open>A slice and a map of strings; the model does not distinguish nil from empty, and both are null.\<close>

definition json_strings :: "string list \<Rightarrow> json" where
  "json_strings ss = (if ss = [] then JNull else JArr (map JStr ss))"

definition json_string_map :: "(string \<times> string) list \<Rightarrow> json" where
  "json_string_map ms = (if ms = [] then JNull else JObj (map (\<lambda>(k, v). (k, JStr v)) ms))"

section \<open>Lemmas\<close>

lemma show_nat_no_zero: "show_nat n = CHR ''0'' # cs \<Longrightarrow> n = 0 \<and> cs = []"
proof (induction n arbitrary: cs rule: show_nat.induct)
  case (1 n)
  show ?case
  proof (cases "n < 10")
    case True
    then have "digit_char n = CHR ''0''" "cs = []" using 1(2) by (subst (asm) show_nat.simps, simp)+
    then have "(of_char (digit_char n) :: nat) = 48" by simp
    with True show ?thesis using \<open>cs = []\<close> by (simp add: of_digit_char)
  next
    case False
    then have "show_nat (n div 10) @ [digit_char (n mod 10)] = CHR ''0'' # cs"
      using 1(2) by (subst (asm) show_nat.simps) simp
    then obtain ds where "show_nat (n div 10) = CHR ''0'' # ds"
      using show_nat_nonempty [of "n div 10"] by (cases "show_nat (n div 10)") auto
    then have "n div 10 = 0" using 1(1) [OF False] by blast
    with False show ?thesis by simp
  qed
qed

lemma digit_bare: "is_digit c \<Longrightarrow> bare c"
  by (simp add: is_digit_def bare_def between_def)

lemma valid_number_digits:
  assumes "list_all is_digit ds" "ds \<noteq> []" "take 1 ds = ''0'' \<Longrightarrow> ds = ''0''"
  shows "valid_number ds" "valid_number (CHR ''-'' # ds)"
proof -
  have tw: "takeWhile is_digit ds = ds" "dropWhile is_digit ds = []"
    using assms(1) by (simp_all add: list_all_iff)
  have "take 1 ds \<noteq> ''-''" using assms(1,2) not_digit_sign(1) by (cases ds) auto
  moreover have "is_digit (CHR ''0'')" by (simp add: is_digit_def)
  ultimately show "valid_number ds" "valid_number (CHR ''-'' # ds)"
    using assms(1-3) by (simp_all add: valid_number_def all_digits_def Let_def tw)
qed

lemma itoa_number [simp]: "valid_number (itoa i)" "list_all bare (itoa i)"
proof -
  have first: "take 1 (show_nat n) = ''0'' \<Longrightarrow> show_nat n = ''0''" for n
    using show_nat_no_zero [of n] by (cases "show_nat n") auto
  show "valid_number (itoa i)"
    using valid_number_digits [OF show_nat_digits show_nat_nonempty first] by (simp add: itoa_def)
  have "list_all bare (show_nat n)" for n using show_nat_digits [of n] digit_bare by (auto simp: list_all_iff)
  then show "list_all bare (itoa i)" by (simp add: itoa_def bare_def)
qed

lemma int_field_itoa [simp]: "in_int64 i \<Longrightarrow> int_field upd (json_int i) r = (upd i r, None)"
  by (simp add: int_field_def atoi_itoa)

lemma string_field_simps [simp]: "string_field upd (JStr s) r = (upd s r, None)"
  by (simp add: string_field_def)

lemma bool_field_simps [simp]: "bool_field upd (JBool b) r = (upd b r, None)"
  by (simp add: bool_field_def)

lemma first_error_none: "list_all (\<lambda>e. e = None) es \<Longrightarrow> first_error es = None"
  by (induction es) (simp_all add: first_error_def)

lemma first_error_map_none [simp]: "first_error (map (\<lambda>x. None) xs) = None"
  by (rule first_error_none) (simp add: list_all_iff)

lemma strings_field_json [simp]: "strings_field upd (json_strings ss) r = (upd ss r, None)"
  by (simp add: strings_field_def json_strings_def string_element_def first_error_none list_all_iff comp_def)

lemma update_fresh: "k \<notin> fst ` set al \<Longrightarrow> AList.update k v al = al @ [(k, v)]"
  by (induction al) auto

lemma fold_update_distinct:
  "distinct (map fst (al @ ms)) \<Longrightarrow> fold (\<lambda>(k, v). AList.update k v) ms al = al @ ms"
proof (induction ms arbitrary: al)
  case Nil
  then show ?case by simp
next
  case (Cons m ms)
  obtain k v where m: "m = (k, v)" by (cases m)
  have "fold (\<lambda>(k, v). AList.update k v) ms (al @ [m]) = (al @ [m]) @ ms" by (rule Cons.IH) (use Cons.prems in auto)
  moreover have "AList.update k v al = al @ [m]" using Cons.prems by (auto simp: m intro: update_fresh)
  ultimately show ?case by (simp add: m)
qed

lemma string_map_field_json [simp]:
  "distinct (map fst ms) \<Longrightarrow> get r = [] \<Longrightarrow> string_map_field get upd (json_string_map ms) r = (upd ms r, None)"
  using fold_update_distinct [of "[]" ms]
  by (auto simp: string_map_field_def json_string_map_def string_element_def fold_map comp_def case_prod_unfold)

lemma printable_strings [simp]: "printable (json_strings ss) = list_all utf8 ss"
  by (simp add: json_strings_def list_all_iff)

lemma printable_string_map [simp]: "printable (json_string_map ms) = list_all (\<lambda>m. utf8 (fst m) \<and> utf8 (snd m)) ms"
  by (auto simp: json_string_map_def list_all_iff)

lemma Max_image_zero: "ms \<noteq> [] \<Longrightarrow> (\<And>x. x \<in> set ms \<Longrightarrow> f x = 0) \<Longrightarrow> (MAX x\<in>set ms. f x) = (0 :: nat)"
  by (subst image_cong [where g = "\<lambda>_. 0" and N = "set ms"]) auto

lemma depth_collections: "depth (json_strings ss) \<le> 1" "depth (json_string_map ms) \<le> 1"
  by (auto simp: json_strings_def json_string_map_def intro: Max_image_zero)

end
