(* ===== verification/Codec.thy ===== *)
theory Codec
  imports Runner GoJsonStruct
begin

text \<open>
  A tunnel configuration crosses a process boundary: the provider marshals it, \<open>ForkTunnel\<close> puts the
  text into the child's environment, the runner hands it to \<open>StartRemoteTunnel\<close>, which unmarshals it.
  \<open>json_codec\<close> is what a configuration type promises; \<open>forked_tunnel\<close> adds the tunnel it belongs to.
\<close>

locale json_codec =
  fixes encode :: "'c \<Rightarrow> json"
    and decoder :: "'c fields"
    and zero :: 'c
    and wf :: "'c \<Rightarrow> bool"
    and canon :: "'c \<Rightarrow> 'c"
  assumes encode_printable: "wf c \<Longrightarrow> printable (encode c)"
    and encode_depth: "depth (encode c) \<le> 4"
    and decode_encode: "wf c \<Longrightarrow> decode_struct decoder (encode c) zero = (canon c, None)"
begin

lemma unmarshal_marshal: "wf c \<Longrightarrow> unmarshal decoder zero (print_json (encode c)) = Inr (canon c)"
  using encode_depth [of c]
  by (simp add: unmarshal_def unmarshal_into_def parse_print_json encode_printable decode_encode max_depth_def)

lemma marshal_nonempty: "wf c \<Longrightarrow> print_json (encode c) \<noteq> []"
  using encode_printable [of c] by (cases "encode c") (auto simp: number_token marshal_string_def)

lemma marshal_inj: "wf c \<Longrightarrow> wf d \<Longrightarrow> print_json (encode c) = print_json (encode d) \<Longrightarrow> canon c = canon d"
  using unmarshal_marshal [of c] unmarshal_marshal [of d] by simp

end

locale forked_tunnel = json_codec +
  fixes kind :: tunnel_kind
begin

text \<open>The child of a fork decodes the configuration the parent encoded.\<close>

lemma child_decodes:
  assumes "ForkTunnel w (TunnelType kind) logName (Inr (print_json (encode c))) = Some (evs, r)"
    and "StartChild args env \<in> set evs" and "wf c" and "in_int64 (fw_ppid w)"
  shows "\<exists>call. main_start env args (Inr ()) = RunTunnel (Inr call) \<and> sc_kind call = kind \<and>
    sc_parent call = fw_ppid w \<and> unmarshal decoder zero (sc_config call) = Inr (canon c)"
  using fork_runs_child [OF assms(1,2) marshal_nonempty [OF assms(3)] assms(4)] unmarshal_marshal [OF assms(3)]
  by auto

end

end
