(* ===== verification/SshTunnel.thy ===== *)
theory SshTunnel
  imports SshForward Codec
begin

text \<open>
  \<open>internal/ssh/auth.go\<close> and \<open>internal/ssh/tunnel.go\<close>: which credentials a tunnel offers, and the life
  of an SSH tunnel. Key parsing, the agent protocol and the network belong to libraries and the
  system: parameters and answers.
\<close>

section \<open>Configuration\<close>

record ssh_config =
  LocalHost :: string
  LocalPort :: int
  SSHHost :: string
  SSHKey :: string
  SSHKeyPassphrase :: string
  SSHPassword :: string
  SSHPort :: int
  SSHUser :: string
  TargetHost :: string
  TargetPort :: int
  TargetSocket :: string

definition defaultSSHPort :: int where "defaultSSHPort = 22"
definition defaultSSHUser :: string where "defaultSSHUser = ''root''"

definition defaultKeyNames :: "string list" where
  "defaultKeyNames = [''id_rsa'', ''id_ecdsa'', ''id_ecdsa_sk'', ''id_ed25519'', ''id_ed25519_sk'']"

definition ssh_log_name :: "ssh_config \<Rightarrow> string" where
  "ssh_log_name cfg =
     (let target = (if TargetSocket cfg \<noteq> [] then replace_all (CHR ''/'') ''_'' (TargetSocket cfg)
                    else itoa (TargetPort cfg))
      in ''ssh-tunnel-'' @ SSHHost cfg @ ''-'' @ target @ ''.log'')"

text \<open>The JSON form of the configuration, and the fields \<open>Unmarshal\<close> fills.\<close>

definition empty_ssh_config :: ssh_config where
  "empty_ssh_config = \<lparr>LocalHost = [], LocalPort = 0, SSHHost = [], SSHKey = [], SSHKeyPassphrase = [],
     SSHPassword = [], SSHPort = 0, SSHUser = [], TargetHost = [], TargetPort = 0, TargetSocket = []\<rparr>"

definition ssh_json :: "ssh_config \<Rightarrow> json" where
  "ssh_json c = JObj
     [(''LocalHost'', JStr (LocalHost c)),
      (''LocalPort'', json_int (LocalPort c)),
      (''SSHHost'', JStr (SSHHost c)),
      (''SSHKey'', JStr (SSHKey c)),
      (''SSHKeyPassphrase'', JStr (SSHKeyPassphrase c)),
      (''SSHPassword'', JStr (SSHPassword c)),
      (''SSHPort'', json_int (SSHPort c)),
      (''SSHUser'', JStr (SSHUser c)),
      (''TargetHost'', JStr (TargetHost c)),
      (''TargetPort'', json_int (TargetPort c)),
      (''TargetSocket'', JStr (TargetSocket c))]"

definition ssh_fields :: "ssh_config fields" where
  "ssh_fields =
     [(''LocalHost'', string_field (\<lambda>v c. c\<lparr>LocalHost := v\<rparr>)),
      (''LocalPort'', int_field (\<lambda>v c. c\<lparr>LocalPort := v\<rparr>)),
      (''SSHHost'', string_field (\<lambda>v c. c\<lparr>SSHHost := v\<rparr>)),
      (''SSHKey'', string_field (\<lambda>v c. c\<lparr>SSHKey := v\<rparr>)),
      (''SSHKeyPassphrase'', string_field (\<lambda>v c. c\<lparr>SSHKeyPassphrase := v\<rparr>)),
      (''SSHPassword'', string_field (\<lambda>v c. c\<lparr>SSHPassword := v\<rparr>)),
      (''SSHPort'', int_field (\<lambda>v c. c\<lparr>SSHPort := v\<rparr>)),
      (''SSHUser'', string_field (\<lambda>v c. c\<lparr>SSHUser := v\<rparr>)),
      (''TargetHost'', string_field (\<lambda>v c. c\<lparr>TargetHost := v\<rparr>)),
      (''TargetPort'', int_field (\<lambda>v c. c\<lparr>TargetPort := v\<rparr>)),
      (''TargetSocket'', string_field (\<lambda>v c. c\<lparr>TargetSocket := v\<rparr>))]"

definition ssh_encodable :: "ssh_config \<Rightarrow> bool" where
  "ssh_encodable c \<longleftrightarrow> list_all utf8 [LocalHost c, SSHHost c, SSHKey c, SSHKeyPassphrase c, SSHPassword c, SSHUser c, TargetHost c, TargetSocket c] \<and>
     list_all in_int64 [LocalPort c, SSHPort c, TargetPort c]"

interpretation ssh_codec: forked_tunnel ssh_json ssh_fields empty_ssh_config ssh_encodable "\<lambda>c. c" Ssh
proof
  fix c :: ssh_config
  show "ssh_encodable c \<Longrightarrow> printable (ssh_json c)" by (simp add: ssh_json_def ssh_encodable_def)
  show "depth (ssh_json c) \<le> 4" by (simp add: ssh_json_def)
  show "ssh_encodable c \<Longrightarrow> decode_struct ssh_fields (ssh_json c) empty_ssh_config = (c, None)"
    by (simp add: ssh_json_def ssh_encodable_def decode_struct_def decode_member_def field_of_def ssh_fields_def empty_ssh_config_def)
qed

definition fork_ssh_tunnel :: "'st fork_world \<Rightarrow> ssh_config \<Rightarrow> (fork_event list \<times> int result) option" where
  "fork_ssh_tunnel w cfg = ForkTunnel w (TunnelType Ssh) (ssh_log_name cfg) (Inr (print_json (ssh_json cfg)))"

definition targetEndpoint :: "ssh_config \<Rightarrow> string \<times> string" where
  "targetEndpoint cfg =
     (if TargetSocket cfg \<noteq> [] then (''unix'', TargetSocket cfg)
      else (''tcp'', join_host_port (TargetHost cfg) (itoa (TargetPort cfg))))"

section \<open>Credentials\<close>

text \<open>
  What the code asks of its surroundings: whether \<open>os.Stat\<close> of a path succeeds, what reading it
  gives, the home directory, the agent socket and whether dialling it works; and the two parsers
  of \<open>golang.org/x/crypto/ssh\<close>.
\<close>

record 's key_world =
  kw_stat :: "string \<Rightarrow> bool"
  kw_read :: "string \<Rightarrow> string result"
  kw_home :: "string result"
  kw_agent :: string
  kw_agent_dial :: "unit result"
  kw_parse :: "string \<Rightarrow> 's result"
  kw_parse_pass :: "string \<Rightarrow> string \<Rightarrow> 's result"

datatype 's auth_method = PublicKeys "'s list" | Password string | AgentKeys string

definition parseConfiguredKey :: "'s key_world \<Rightarrow> string \<Rightarrow> string \<Rightarrow> 's result" where
  "parseConfiguredKey w key passphrase =
     bind_res (if kw_stat w key then wrapping (''read SSH key file '' @ key) (kw_read w key) else Inr key)
       (\<lambda>pem. if passphrase \<noteq> []
               then wrapping ''parse encrypted SSH key'' (kw_parse_pass w pem passphrase)
               else wrapping ''parse SSH key'' (kw_parse w pem))"

text \<open>The loop over the default key files: unreadable and unparsable ones are skipped.\<close>

fun usable_keys :: "'s key_world \<Rightarrow> string \<Rightarrow> string list \<Rightarrow> 's list" where
  "usable_keys w home [] = []"
| "usable_keys w home (name # names) =
     (case kw_read w (path_join (path_join home ''.ssh'') name) of
        Inl e \<Rightarrow> usable_keys w home names
      | Inr pem \<Rightarrow>
          (case kw_parse w pem of
             Inl e \<Rightarrow> usable_keys w home names
           | Inr signer \<Rightarrow> signer # usable_keys w home names))"

definition defaultKeys :: "'s key_world \<Rightarrow> 's auth_method option" where
  "defaultKeys w =
     (let home = (case kw_home w of Inl e \<Rightarrow> ''/root'' | Inr h \<Rightarrow> h);
          signers = usable_keys w home defaultKeyNames
      in if signers = [] then None else Some (PublicKeys signers))"

definition agentKeys :: "'s key_world \<Rightarrow> 's auth_method option" where
  "agentKeys w =
     (if kw_agent w = [] then None
      else (case kw_agent_dial w of Inl e \<Rightarrow> None | Inr u \<Rightarrow> Some (AgentKeys (kw_agent w))))"

definition no_credentials :: go_error where
  "no_credentials = ErrNew (''no SSH credentials: set ssh_key or ssh_password, '' @
     ''keep a key in ~/.ssh, or run an ssh-agent'')"

definition option_list :: "'a option \<Rightarrow> 'a list" where
  "option_list x = (case x of None \<Rightarrow> [] | Some y \<Rightarrow> [y])"

definition authMethods :: "'s key_world \<Rightarrow> ssh_config \<Rightarrow> 's auth_method list result" where
  "authMethods w cfg =
     bind_res (if SSHKey cfg \<noteq> []
               then bind_res (parseConfiguredKey w (SSHKey cfg) (SSHKeyPassphrase cfg)) (\<lambda>s. Inr [PublicKeys [s]])
               else Inr [])
       (\<lambda>keys.
         let methods = keys @ (if SSHPassword cfg \<noteq> [] then [Password (SSHPassword cfg)] else []) in
         if methods \<noteq> [] then Inr methods
         else (let found = option_list (defaultKeys w) @ option_list (agentKeys w) in
               if found = [] then Inl no_credentials else Inr found))"

record 's client_config =
  cc_user :: string
  cc_auth :: "'s auth_method list"
  cc_timeout :: nat

text \<open>\<open>clientConfig\<close>; host keys are not checked, and \<open>dialTimeout\<close> is 15 seconds.\<close>

definition clientConfig :: "'s key_world \<Rightarrow> ssh_config \<Rightarrow> 's client_config result" where
  "clientConfig w cfg =
     bind_res (authMethods w cfg)
       (\<lambda>methods. Inr \<lparr>cc_user = (if SSHUser cfg = [] then defaultSSHUser else SSHUser cfg),
                       cc_auth = methods, cc_timeout = 15\<rparr>)"

text \<open>
  What \<open>agentKeys\<close> gives the handshake: at each call of the callback a fresh connection, the keys the
  agent lists, and a signer for every one of them that keeps the socket and the key only.
\<close>

record 'k agent_signer =
  as_socket :: string
  as_pub :: 'k

definition PublicKey :: "'k agent_signer \<Rightarrow> 'k" where
  "PublicKey s = as_pub s"

definition agent_callback :: "string \<Rightarrow> unit result \<Rightarrow> 'k list result \<Rightarrow> 'k agent_signer list result" where
  "agent_callback socket dialled listed =
     bind_res dialled (\<lambda>u. bind_res listed (\<lambda>ks. Inr (map (\<lambda>k. \<lparr>as_socket = socket, as_pub = k\<rparr>) ks)))"

text \<open>
  \<open>agentSigner.SignWithAlgorithm\<close>: a fresh connection to the agent, its signers, and the first one
  with the public key that was offered; \<open>sign\<close> is the signature that signer gives.
\<close>

definition SignWithAlgorithm :: "unit result \<Rightarrow> 's list result \<Rightarrow> ('s \<Rightarrow> string) \<Rightarrow> ('s \<Rightarrow> 'g result) \<Rightarrow>
    string \<Rightarrow> string \<Rightarrow> 'g result" where
  "SignWithAlgorithm dialled listed public_key sign pub pub_type =
     bind_res (wrapping ''connect to ssh-agent'' dialled) (\<lambda>u.
     bind_res listed (\<lambda>signers.
       case find (\<lambda>s. public_key s = pub) signers of
         None \<Rightarrow> Inl (ErrNew (''ssh-agent dropped the '' @ pub_type @ '' key it offered''))
       | Some s \<Rightarrow> sign s))"

text \<open>\<open>Sign\<close> is the same with no algorithm named; \<open>sign\<close> is what a signer of the agent does for one.\<close>

definition Sign :: "unit result \<Rightarrow> 's list result \<Rightarrow> ('s \<Rightarrow> string) \<Rightarrow> (string \<Rightarrow> 's \<Rightarrow> 'g result) \<Rightarrow>
    string agent_signer \<Rightarrow> string \<Rightarrow> 'g result" where
  "Sign dialled listed public_key sign s pub_type =
     SignWithAlgorithm dialled listed public_key (sign []) (PublicKey s) pub_type"

text \<open>
  Every key the agent lists is offered, in its order; and a signature is made by a key of the agent
  that is the very key that was offered, or there is none.
\<close>

lemma agent_offers_all:
  "agent_callback socket (Inr ()) (Inr ks) = Inr offered \<Longrightarrow> map PublicKey offered = ks"
  by (auto simp: agent_callback_def PublicKey_def bind_res_Inr comp_def)

lemma agent_signs_with_offered:
  assumes "SignWithAlgorithm (Inr ()) (Inr signers) public_key sign pub pub_type = Inr g"
  shows "\<exists>s \<in> set signers. public_key s = pub \<and> sign s = Inr g"
  using assms find_Some_split [of "\<lambda>s. public_key s = pub" signers]
  by (auto simp: SignWithAlgorithm_def bind_res_def wrapping_def split: option.split_asm)

section \<open>The tunnel\<close>

datatype tunnel_event =
    NotifyInterrupt
  | ConnectBastion string
  | ListenOn string
  | ProbeTarget string string
  | CloseProbe
  | SignalReadiness
  | ServeConnections
  | LogStopping
  | CloseServer
  | CloseClients
  | StopNotify

record 's ssh_world =
  sw_keys :: "'s key_world"
  sw_connect :: "unit result"
  sw_listen :: "unit result"
  sw_probe :: "unit result"
  sw_ready :: "unit result"
  sw_serve :: "unit result"

definition local_addr :: "ssh_config \<Rightarrow> string" where
  "local_addr cfg =
     join_host_port (if LocalHost cfg = [] then ''localhost'' else LocalHost cfg) (itoa (LocalPort cfg))"

definition ssh_addr :: "ssh_config \<Rightarrow> string" where
  "ssh_addr cfg = join_host_port (SSHHost cfg) (itoa (if SSHPort cfg = 0 then defaultSSHPort else SSHPort cfg))"

text \<open>\<open>runTunnel\<close>: the deferred calls run in the reverse order of the \<open>defer\<close> statements.\<close>

definition run_ssh_tunnel :: "'s ssh_world \<Rightarrow> ssh_config \<Rightarrow> (tunnel_event, unit) eff" where
  "run_ssh_tunnel w cfg =
     and_then (pure_res (clientConfig (sw_keys w) cfg)) (\<lambda>clientCfg.
     let (network, target) = targetEndpoint cfg in
     and_then (perform NotifyInterrupt (Inr ())) (\<lambda>u.
     deferred [CloseClients, StopNotify] (
       and_then (perform (ConnectBastion (ssh_addr cfg))
                  (wrapping (''connect to SSH bastion '' @ ssh_addr cfg) (sw_connect w))) (\<lambda>u.
       and_then (perform (ListenOn (local_addr cfg))
                  (wrapping (''listen on '' @ local_addr cfg) (sw_listen w))) (\<lambda>u.
       deferred [CloseServer] (
         and_then (perform (ProbeTarget network target)
                    (wrapping (''connect to SSH target '' @ target) (sw_probe w))) (\<lambda>u.
         and_then (perform CloseProbe (Inr ())) (\<lambda>u.
         and_then (perform SignalReadiness (sw_ready w)) (\<lambda>u.
         deferred [LogStopping] (perform ServeConnections (sw_serve w)))))))))))"

text \<open>\<open>StartRemoteTunnel\<close>: the configuration, the watch on the parent, the tunnel.\<close>

definition start_ssh_tunnel :: "string \<Rightarrow> unit result \<Rightarrow> 's ssh_world \<Rightarrow> (tunnel_event, unit) eff" where
  "start_ssh_tunnel cfgJson watched w =
     and_then (pure_res (unmarshal ssh_fields empty_ssh_config cfgJson)) (\<lambda>cfg. and_then (pure_res watched) (\<lambda>u. run_ssh_tunnel w cfg))"

lemmas ssh_tunnel_defs = run_ssh_tunnel_def and_then_def deferred_def perform_def pure_res_def Let_def

section \<open>Properties\<close>

lemma parseConfiguredKey_frame:
  "parseConfiguredKey (w\<lparr>kw_home := h, kw_agent := a, kw_agent_dial := d\<rparr>) key pass = parseConfiguredKey w key pass"
  by (simp add: parseConfiguredKey_def)

text \<open>Configured credentials are the only ones offered. With \<open>ssh_key\<close> or \<open>ssh_password\<close> set, the
  methods are the configured key, then the password, whatever lies in \<open>~/.ssh\<close> or the agent;
  a configured key that does not parse is an error and never falls back to another method.\<close>

lemma configured_credentials_only:
  assumes "SSHKey cfg \<noteq> [] \<or> SSHPassword cfg \<noteq> []"
  shows "authMethods w cfg =
    (if SSHKey cfg = [] then Inr [Password (SSHPassword cfg)]
     else (case parseConfiguredKey w (SSHKey cfg) (SSHKeyPassphrase cfg) of
         Inl e \<Rightarrow> Inl e
       | Inr s \<Rightarrow> Inr (PublicKeys [s] # (if SSHPassword cfg = [] then [] else [Password (SSHPassword cfg)])))) \<and>
    authMethods (w\<lparr>kw_home := h, kw_agent := a, kw_agent_dial := d\<rparr>) cfg = authMethods w cfg"
  using assms
  by (cases "SSHKey cfg = []"; cases "parseConfiguredKey w (SSHKey cfg) (SSHKeyPassphrase cfg)")
     (simp_all add: authMethods_def parseConfiguredKey_frame)

definition agent_world :: "string key_world" where
  "agent_world = \<lparr>kw_stat = (\<lambda>p. False), kw_read = (\<lambda>p. Inl ErrNotExist), kw_home = Inr ''/home/me'',
     kw_agent = ''/run/agent'', kw_agent_dial = Inr (), kw_parse = (\<lambda>pem. Inr pem),
     kw_parse_pass = (\<lambda>pem p. Inr pem)\<rparr>"

lemma configured_credentials_only_witness:
  "authMethods agent_world (empty_ssh_config\<lparr>SSHPassword := ''pw''\<rparr>) = Inr [Password ''pw'']"
proof -
  have "SSHKey (empty_ssh_config\<lparr>SSHPassword := ''pw''\<rparr>) \<noteq> [] \<or> SSHPassword (empty_ssh_config\<lparr>SSHPassword := ''pw''\<rparr>) \<noteq> []"
    by simp
  from configured_credentials_only [OF this, of agent_world] show ?thesis by (simp add: empty_ssh_config_def)
qed

text \<open>C36: An SSH tunnel reports readiness only once it can be used, and releases what it took. Readiness
  is signalled exactly when the credentials, the bastion, the local listener and the target
  probe all worked, with the probe closed before it; connections are served only after it was
  signalled; whenever the bastion was dialled the run ends by closing the clients, and the
  listener before them whenever it was opened.\<close>

theorem ssh_tunnel_ready_and_released:
  "(SignalReadiness \<in> set (fst (run_ssh_tunnel w cfg)) \<longleftrightarrow>
      is_ok (clientConfig (sw_keys w) cfg) \<and> is_ok (sw_connect w) \<and> is_ok (sw_listen w) \<and> is_ok (sw_probe w)) \<and>
   (ServeConnections \<in> set (fst (run_ssh_tunnel w cfg)) \<longleftrightarrow>
      SignalReadiness \<in> set (fst (run_ssh_tunnel w cfg)) \<and> is_ok (sw_ready w)) \<and>
   (case clientConfig (sw_keys w) cfg of
      Inl e \<Rightarrow> run_ssh_tunnel w cfg = ([], Inl e)
    | Inr c \<Rightarrow> (\<exists>evs. fst (run_ssh_tunnel w cfg) =
          NotifyInterrupt # ConnectBastion (ssh_addr cfg) # evs @
          (if is_ok (sw_connect w) \<and> is_ok (sw_listen w) then [CloseServer] else []) @ [CloseClients, StopNotify]))"
proof (cases "clientConfig (sw_keys w) cfg")
  case (Inl e)
  then show ?thesis by (simp add: ssh_tunnel_defs)
next
  case (Inr c)
  obtain network target where t: "targetEndpoint cfg = (network, target)" by (cases "targetEndpoint cfg")
  show ?thesis
    by (cases "sw_connect w"; cases "sw_listen w"; cases "sw_probe w"; cases "sw_ready w")
       (simp_all add: ssh_tunnel_defs Inr t)
qed

text \<open>The log of a tunnel stays inside the log directory: whatever socket path or port the target
  has, a host without a separator gives a file directly in the directory.\<close>

lemma ssh_log_in_directory:
  assumes "CHR ''/'' \<notin> set (SSHHost cfg)" and "dir \<noteq> []"
  shows "path_join dir (ssh_log_name cfg) =
    path_of (path_rooted dir) (path_components dir @ [ssh_log_name cfg])"
proof -
  have "CHR ''/'' \<notin> set (ssh_log_name cfg)"
    using assms(1) itoa_no_slash [of "TargetPort cfg"] replace_all_removes [of "CHR ''/''" "''_''" "TargetSocket cfg"]
    by (simp add: ssh_log_name_def Let_def)
  then have "plain_name (ssh_log_name cfg)"
    by (simp add: plain_name_def) (simp add: ssh_log_name_def Let_def)
  then show ?thesis using assms(2) by (rule path_join_plain)
qed

lemma ssh_log_in_directory_example:
  "path_join ''/var/log'' (ssh_log_name (empty_ssh_config\<lparr>SSHHost := ''bastion'', TargetSocket := ''/run/../db.sock''\<rparr>)) =
     ''/var/log/ssh-tunnel-bastion-_run_.._db.sock.log''"
  using ssh_log_in_directory [of "empty_ssh_config\<lparr>SSHHost := ''bastion'', TargetSocket := ''/run/../db.sock''\<rparr>" "''/var/log''"]
  by (simp add: ssh_log_name_def replace_all_def path_components_def path_rooted_def has_prefix_def path_of_def Let_def)

end
