(* ===== verification/KubeEndpoints.thy ===== *)
theory KubeEndpoints
  imports Codec "HOL-Library.Char_ord" "HOL-Library.List_Lexorder" "HOL-Library.Multiset"
begin

text \<open>
  \<open>internal/kubernetes/endpoints.go\<close> and \<open>config.go\<close>: the client configuration, and the choice of one
  ready pod and port. The objects of the Kubernetes API carry the fields the code reads; the API
  server and \<open>client-go\<close> are oracles. Go compares strings by bytes, which is the lexicographic
  order on \<open>char list\<close>.
\<close>

section \<open>Configuration\<close>

record exec_config =
  APIVersion :: string
  Command :: string
  Env :: "(string \<times> string) list"
  Args :: "string list"

text \<open>\<open>Exec.Env\<close> is a Go map: its pairs are listed in the order one iteration visits them.\<close>

record kube_config =
  Namespace :: string
  ServiceName :: string
  TargetPort :: int
  LocalHost :: string
  LocalPort :: int
  Host :: string
  Username :: string
  Password :: string
  Insecure :: bool
  TLSServerName :: string
  ClientCertificate :: string
  ClientKey :: string
  ClusterCACertificate :: string
  ConfigPaths :: "string list"
  ConfigPath :: string
  ConfigContext :: string
  ConfigContextAuthInfo :: string
  ConfigContextCluster :: string
  Token :: string
  ProxyURL :: string
  Exec :: "exec_config option"

text \<open>The JSON form of the configuration. A Go map is printed with its keys in byte order.\<close>

definition sorted_env :: "exec_config \<Rightarrow> exec_config" where
  "sorted_env x = x\<lparr>Env := sort_key fst (Env x)\<rparr>"

definition exec_json :: "exec_config \<Rightarrow> json" where
  "exec_json x = JObj
     [(''APIVersion'', JStr (APIVersion x)), (''Command'', JStr (Command x)),
      (''Env'', json_string_map (sort_key fst (Env x))), (''Args'', json_strings (Args x))]"

definition empty_exec :: exec_config where
  "empty_exec = \<lparr>APIVersion = [], Command = [], Env = [], Args = []\<rparr>"

definition exec_fields :: "exec_config fields" where
  "exec_fields =
     [(''APIVersion'', string_field (\<lambda>v x. x\<lparr>APIVersion := v\<rparr>)), (''Command'', string_field (\<lambda>v x. x\<lparr>Command := v\<rparr>)),
      (''Env'', string_map_field Env (\<lambda>v x. x\<lparr>Env := v\<rparr>)), (''Args'', strings_field (\<lambda>v x. x\<lparr>Args := v\<rparr>))]"

definition exec_encodable :: "exec_config \<Rightarrow> bool" where
  "exec_encodable x \<longleftrightarrow> utf8 (APIVersion x) \<and> utf8 (Command x) \<and> list_all utf8 (Args x) \<and>
     list_all (\<lambda>m. utf8 (fst m) \<and> utf8 (snd m)) (Env x) \<and> distinct (map fst (Env x))"

definition empty_kube_config :: kube_config where
  "empty_kube_config = \<lparr>Namespace = [], ServiceName = [], TargetPort = 0, LocalHost = [], LocalPort = 0, Host = [], Username = [], Password = [], Insecure = False, TLSServerName = [], ClientCertificate = [], ClientKey = [], ClusterCACertificate = [], ConfigPaths = [], ConfigPath = [], ConfigContext = [], ConfigContextAuthInfo = [], ConfigContextCluster = [], Token = [], ProxyURL = [], Exec = None\<rparr>"

definition kube_json :: "kube_config \<Rightarrow> json" where
  "kube_json c = JObj
     [(''Namespace'', JStr (Namespace c)),
      (''ServiceName'', JStr (ServiceName c)),
      (''TargetPort'', json_int (TargetPort c)),
      (''LocalHost'', JStr (LocalHost c)),
      (''LocalPort'', json_int (LocalPort c)),
      (''Host'', JStr (Host c)),
      (''Username'', JStr (Username c)),
      (''Password'', JStr (Password c)),
      (''Insecure'', JBool (Insecure c)),
      (''TLSServerName'', JStr (TLSServerName c)),
      (''ClientCertificate'', JStr (ClientCertificate c)),
      (''ClientKey'', JStr (ClientKey c)),
      (''ClusterCACertificate'', JStr (ClusterCACertificate c)),
      (''ConfigPaths'', json_strings (ConfigPaths c)),
      (''ConfigPath'', JStr (ConfigPath c)),
      (''ConfigContext'', JStr (ConfigContext c)),
      (''ConfigContextAuthInfo'', JStr (ConfigContextAuthInfo c)),
      (''ConfigContextCluster'', JStr (ConfigContextCluster c)),
      (''Token'', JStr (Token c)),
      (''ProxyURL'', JStr (ProxyURL c)),
      (''Exec'', case Exec c of None \<Rightarrow> JNull | Some x \<Rightarrow> exec_json x)]"

definition kube_fields :: "kube_config fields" where
  "kube_fields =
     [(''Namespace'', string_field (\<lambda>v c. c\<lparr>Namespace := v\<rparr>)),
      (''ServiceName'', string_field (\<lambda>v c. c\<lparr>ServiceName := v\<rparr>)),
      (''TargetPort'', int_field (\<lambda>v c. c\<lparr>TargetPort := v\<rparr>)),
      (''LocalHost'', string_field (\<lambda>v c. c\<lparr>LocalHost := v\<rparr>)),
      (''LocalPort'', int_field (\<lambda>v c. c\<lparr>LocalPort := v\<rparr>)),
      (''Host'', string_field (\<lambda>v c. c\<lparr>Host := v\<rparr>)),
      (''Username'', string_field (\<lambda>v c. c\<lparr>Username := v\<rparr>)),
      (''Password'', string_field (\<lambda>v c. c\<lparr>Password := v\<rparr>)),
      (''Insecure'', bool_field (\<lambda>v c. c\<lparr>Insecure := v\<rparr>)),
      (''TLSServerName'', string_field (\<lambda>v c. c\<lparr>TLSServerName := v\<rparr>)),
      (''ClientCertificate'', string_field (\<lambda>v c. c\<lparr>ClientCertificate := v\<rparr>)),
      (''ClientKey'', string_field (\<lambda>v c. c\<lparr>ClientKey := v\<rparr>)),
      (''ClusterCACertificate'', string_field (\<lambda>v c. c\<lparr>ClusterCACertificate := v\<rparr>)),
      (''ConfigPaths'', strings_field (\<lambda>v c. c\<lparr>ConfigPaths := v\<rparr>)),
      (''ConfigPath'', string_field (\<lambda>v c. c\<lparr>ConfigPath := v\<rparr>)),
      (''ConfigContext'', string_field (\<lambda>v c. c\<lparr>ConfigContext := v\<rparr>)),
      (''ConfigContextAuthInfo'', string_field (\<lambda>v c. c\<lparr>ConfigContextAuthInfo := v\<rparr>)),
      (''ConfigContextCluster'', string_field (\<lambda>v c. c\<lparr>ConfigContextCluster := v\<rparr>)),
      (''Token'', string_field (\<lambda>v c. c\<lparr>Token := v\<rparr>)),
      (''ProxyURL'', string_field (\<lambda>v c. c\<lparr>ProxyURL := v\<rparr>)),
      (''Exec'', pointer_field exec_fields empty_exec Exec (\<lambda>v c. c\<lparr>Exec := v\<rparr>))]"

definition kube_encodable :: "kube_config \<Rightarrow> bool" where
  "kube_encodable c \<longleftrightarrow> list_all utf8 [Namespace c, ServiceName c, LocalHost c, Host c, Username c, Password c, TLSServerName c, ClientCertificate c, ClientKey c, ClusterCACertificate c, ConfigPath c, ConfigContext c, ConfigContextAuthInfo c, ConfigContextCluster c, Token c, ProxyURL c] \<and>
     list_all utf8 (ConfigPaths c) \<and> in_int64 (TargetPort c) \<and> in_int64 (LocalPort c) \<and>
     (case Exec c of None \<Rightarrow> True | Some x \<Rightarrow> exec_encodable x)"

text \<open>The child sees the same configuration, with the environment of \<open>exec\<close> as the map it is.\<close>

definition kube_canon :: "kube_config \<Rightarrow> kube_config" where
  "kube_canon c = c\<lparr>Exec := map_option sorted_env (Exec c)\<rparr>"

lemma distinct_map_sort_key: "distinct (map fst xs) \<Longrightarrow> distinct (map fst (sort_key fst xs))"
  by (simp add: distinct_map inj_on_def)

interpretation exec_codec: json_codec exec_json exec_fields empty_exec exec_encodable sorted_env
proof
  fix x :: exec_config
  show "exec_encodable x \<Longrightarrow> printable (exec_json x)" by (simp add: exec_json_def exec_encodable_def list_all_iff)
  show "depth (exec_json x) \<le> 4"
    using depth_collections(1) [of "Args x"] depth_collections(2) [of "sort_key fst (Env x)"] by (simp add: exec_json_def)
  show "exec_encodable x \<Longrightarrow> decode_struct exec_fields (exec_json x) empty_exec = (sorted_env x, None)"
    by (simp add: exec_json_def exec_encodable_def decode_struct_def decode_member_def field_of_def exec_fields_def
        empty_exec_def sorted_env_def distinct_map_sort_key)
qed

lemma exec_json_not_null: "exec_json x \<noteq> JNull" "depth (exec_json x) \<le> 2"
  using depth_collections(1) [of "Args x"] depth_collections(2) [of "sort_key fst (Env x)"]
  by (simp_all add: exec_json_def)

lemma exec_pointer_decodes:
  "exec_encodable x \<Longrightarrow> Exec c = None \<Longrightarrow>
   pointer_field exec_fields empty_exec Exec (\<lambda>v c. c\<lparr>Exec := v\<rparr>) (exec_json x) c = (c\<lparr>Exec := Some (sorted_env x)\<rparr>, None)"
  by (simp add: pointer_field_def exec_json_not_null exec_codec.decode_encode)

lemma null_pointer_decodes: "pointer_field fs zero get upd JNull r = (upd None r, None)"
  by (simp add: pointer_field_def)

interpretation kube_codec: forked_tunnel kube_json kube_fields empty_kube_config kube_encodable kube_canon Kubernetes
proof
  fix c :: kube_config
  show "kube_encodable c \<Longrightarrow> printable (kube_json c)"
    using exec_codec.encode_printable by (auto simp: kube_json_def kube_encodable_def split: option.splits)
  show "depth (kube_json c) \<le> 4"
    using depth_collections(1) [of "ConfigPaths c"] exec_json_not_null(2) [of "the (Exec c)"]
    by (auto simp: kube_json_def split: option.splits)
  show "kube_encodable c \<Longrightarrow> decode_struct kube_fields (kube_json c) empty_kube_config = (kube_canon c, None)"
    by (cases "Exec c")
       (simp_all add: kube_json_def kube_encodable_def decode_struct_def decode_member_def field_of_def kube_fields_def
        empty_kube_config_def kube_canon_def exec_pointer_decodes null_pointer_decodes)
qed

text \<open>The fields of \<open>ClientConfigLoadingRules\<close> and \<open>ConfigOverrides\<close> that are set; empty is unset.\<close>

record loading_rules =
  Precedence :: "string list"
  ExplicitPath :: string

record exec_override =
  eo_api_version :: string
  eo_command :: string
  eo_args :: "string list"
  eo_env :: "(string \<times> string) list"
  eo_interactive :: string

record config_overrides =
  co_context :: string
  co_context_auth :: string
  co_context_cluster :: string
  co_token :: string
  co_username :: string
  co_password :: string
  co_client_cert :: string
  co_client_key :: string
  co_ca :: string
  co_server :: string
  co_insecure :: bool
  co_tls_name :: string
  co_proxy :: string
  co_exec :: "exec_override option"

definition loadingRules :: "loading_rules \<Rightarrow> kube_config \<Rightarrow> loading_rules" where
  "loadingRules defaults c =
     (if length (ConfigPaths c) > 0 then defaults\<lparr>Precedence := ConfigPaths c\<rparr>
      else if ConfigPath c \<noteq> [] then defaults\<lparr>ExplicitPath := ConfigPath c\<rparr>
      else defaults)"

definition no_overrides :: config_overrides where
  "no_overrides = \<lparr>co_context = [], co_context_auth = [], co_context_cluster = [], co_token = [],
     co_username = [], co_password = [], co_client_cert = [], co_client_key = [], co_ca = [],
     co_server = [], co_insecure = False, co_tls_name = [], co_proxy = [], co_exec = None\<rparr>"

definition set_if :: "string \<Rightarrow> (string \<Rightarrow> config_overrides \<Rightarrow> config_overrides) \<Rightarrow> config_overrides \<Rightarrow> config_overrides" where
  "set_if v upd o' = (if v \<noteq> [] then upd v o' else o')"

definition exec_override_of :: "exec_config \<Rightarrow> exec_override" where
  "exec_override_of e = \<lparr>eo_api_version = APIVersion e, eo_command = Command e, eo_args = Args e,
     eo_env = fold (\<lambda>(k, v) acc. acc @ [(k, v)]) (Env e) [], eo_interactive = ''IfAvailable''\<rparr>"

definition overrides_of :: "kube_config \<Rightarrow> config_overrides" where
  "overrides_of c =
     (let o1 = set_if (ConfigContext c) (\<lambda>v r. r\<lparr>co_context := v\<rparr>) no_overrides;
          o2 = set_if (ConfigContextAuthInfo c) (\<lambda>v r. r\<lparr>co_context_auth := v\<rparr>) o1;
          o3 = set_if (ConfigContextCluster c) (\<lambda>v r. r\<lparr>co_context_cluster := v\<rparr>) o2;
          o4 = set_if (Token c) (\<lambda>v r. r\<lparr>co_token := v\<rparr>) o3;
          o5 = set_if (Username c) (\<lambda>v r. r\<lparr>co_username := v\<rparr>) o4;
          o6 = set_if (Password c) (\<lambda>v r. r\<lparr>co_password := v\<rparr>) o5;
          o7 = set_if (ClientCertificate c) (\<lambda>v r. r\<lparr>co_client_cert := v\<rparr>) o6;
          o8 = set_if (ClientKey c) (\<lambda>v r. r\<lparr>co_client_key := v\<rparr>) o7;
          o9 = set_if (ClusterCACertificate c) (\<lambda>v r. r\<lparr>co_ca := v\<rparr>) o8;
          o10 = set_if (Host c) (\<lambda>v r. r\<lparr>co_server := v\<rparr>) o9;
          o11 = (if Insecure c then o10\<lparr>co_insecure := True\<rparr> else o10);
          o12 = set_if (TLSServerName c) (\<lambda>v r. r\<lparr>co_tls_name := v\<rparr>) o11;
          o13 = set_if (ProxyURL c) (\<lambda>v r. r\<lparr>co_proxy := v\<rparr>) o12
      in case Exec c of None \<Rightarrow> o13 | Some e \<Rightarrow> o13\<lparr>co_exec := Some (exec_override_of e)\<rparr>)"

text \<open>\<open>restConfig\<close>: \<open>client\<close> is the deferred loading of \<open>client-go\<close>.\<close>

definition restConfig :: "loading_rules \<Rightarrow> (loading_rules \<Rightarrow> config_overrides \<Rightarrow> 'r result) \<Rightarrow> kube_config \<Rightarrow> 'r result" where
  "restConfig defaults client c =
     wrapping ''load kubeconfig'' (client (loadingRules defaults c) (overrides_of c))"

section \<open>Services and pods\<close>

datatype int_or_string = IntVal int | StrVal string | OtherVal string

record service_port =
  sp_name :: string
  sp_port :: int
  sp_target :: int_or_string

record service =
  svc_selector :: "(string \<times> string) list"
  svc_ports :: "service_port list"

record container_port =
  cp_name :: string
  cp_port :: int

record pod =
  pod_name :: string
  pod_deleting :: bool
  pod_phase :: string
  pod_conditions :: "(string \<times> string) list"
  pod_containers :: "container_port list list"

record endpoint =
  ep_pod :: string
  ep_port :: int

definition endpoint_string :: "endpoint \<Rightarrow> string" where
  "endpoint_string e = ep_pod e @ '':'' @ itoa (ep_port e)"

definition podReady :: "pod \<Rightarrow> bool" where
  "podReady p =
     (if pod_deleting p \<or> pod_phase p \<noteq> ''Running'' then False
      else (case find (\<lambda>c. fst c = ''Ready'') (pod_conditions p) of
          None \<Rightarrow> False | Some c \<Rightarrow> snd c = ''True''))"

definition findServicePort :: "service \<Rightarrow> int \<Rightarrow> service_port option" where
  "findServicePort svc port = find (\<lambda>p. sp_port p = port) (svc_ports svc)"

definition resolvePodPort :: "pod \<Rightarrow> int \<Rightarrow> service_port option \<Rightarrow> int result" where
  "resolvePodPort p configured sp =
     (case sp of
        None \<Rightarrow> Inr (to_int32 configured)
      | Some s \<Rightarrow>
          (case sp_target s of
             IntVal n \<Rightarrow> Inr (if n \<noteq> 0 then n else sp_port s)
           | StrVal name \<Rightarrow>
               (case find (\<lambda>c. cp_name c = name) (concat (pod_containers p)) of
                  Some c \<Rightarrow> Inr (cp_port c)
                | None \<Rightarrow> Inl (ErrNew (''pod '' @ pod_name p @ '' has no container port named '' @ quote name)))
           | OtherVal v \<Rightarrow> Inl (ErrNew (''service port has unsupported targetPort '' @ quote v))))"

definition describeServicePorts :: "service \<Rightarrow> string" where
  "describeServicePorts svc =
     (if svc_ports svc = [] then ''none''
      else join_with '', '' (map (\<lambda>p. if sp_name p \<noteq> [] then itoa (sp_port p) @ '' ('' @ sp_name p @ '')''
                                       else itoa (sp_port p)) (svc_ports svc)))"

text \<open>The loop over the sorted pods; \<open>portErr\<close> is the last failure of a ready pod.\<close>

fun pick_pod :: "int \<Rightarrow> service_port option \<Rightarrow> go_error option \<Rightarrow> pod list \<Rightarrow> endpoint result option \<times> go_error option" where
  "pick_pod configured sp portErr [] = (None, portErr)"
| "pick_pod configured sp portErr (p # ps) =
     (if \<not> podReady p then pick_pod configured sp portErr ps
      else (case resolvePodPort p configured sp of
          Inl e \<Rightarrow> pick_pod configured sp (Some e) ps
        | Inr port \<Rightarrow> (Some (Inr \<lparr>ep_pod = pod_name p, ep_port = port\<rparr>), portErr)))"

definition service_id :: "kube_config \<Rightarrow> string" where
  "service_id cfg = Namespace cfg @ ''/'' @ ServiceName cfg"

text \<open>
  \<open>resolveEndpoint\<close>: \<open>get\<close> and \<open>list\<close> are the two API calls (the second one takes the selector, which
  the library formats into a string). \<open>sort.Slice\<close> is not stable, so the order of pods of the same
  name is unspecified; names are unique in a namespace.
\<close>

definition resolveEndpoint :: "service result \<Rightarrow> ((string \<times> string) list \<Rightarrow> pod list result) \<Rightarrow> kube_config \<Rightarrow> endpoint result" where
  "resolveEndpoint get list cfg =
     bind_res (wrapping (''get service '' @ service_id cfg) get) (\<lambda>svc.
       if length (svc_selector svc) = 0
       then Inl (ErrNew (''service '' @ service_id cfg @ '' has no pod selector''))
       else
         (let sp = findServicePort svc (TargetPort cfg) in
          bind_res (wrapping (''list pods for service '' @ service_id cfg) (list (svc_selector svc))) (\<lambda>pods.
            case pick_pod (TargetPort cfg) sp None (sort_key pod_name pods) of
              (Some r, _) \<Rightarrow> r
            | (None, Some e) \<Rightarrow> Inl (wrap_err (''resolve target port for service '' @ service_id cfg) e)
            | (None, None) \<Rightarrow> Inl (ErrNew (''service '' @ service_id cfg @ '' has no ready, non-terminating pods'')))))"

text \<open>The line logged when the configured port is none of the service's.\<close>

definition pod_port_warning :: "kube_config \<Rightarrow> service \<Rightarrow> pod \<Rightarrow> string" where
  "pod_port_warning cfg svc p =
     ''service '' @ service_id cfg @ '' does not expose port '' @ itoa (TargetPort cfg) @ '' (exposed: '' @
     describeServicePorts svc @ ''); treating '' @ itoa (TargetPort cfg) @ '' as a pod port on '' @ pod_name p"

section \<open>Lemmas\<close>

text \<open>What the loop finds: the first ready pod whose port resolves.\<close>

definition serves :: "int \<Rightarrow> service_port option \<Rightarrow> pod \<Rightarrow> bool" where
  "serves configured sp p \<longleftrightarrow> podReady p \<and> is_ok (resolvePodPort p configured sp)"

lemma pick_pod_found:
  "fst (pick_pod configured sp e ps) =
     (case find (serves configured sp) ps of
        None \<Rightarrow> None
      | Some p \<Rightarrow> map_option (\<lambda>port. Inr \<lparr>ep_pod = pod_name p, ep_port = port\<rparr>)
                    (case resolvePodPort p configured sp of Inr port \<Rightarrow> Some port | Inl e \<Rightarrow> None))"
  by (induction ps arbitrary: e) (auto simp: serves_def split: sum.splits)

lemma pick_pod_error:
  "fst (pick_pod configured sp e ps) = None \<Longrightarrow>
     snd (pick_pod configured sp e ps) = None \<longleftrightarrow> e = None \<and> (\<forall>p \<in> set ps. \<not> podReady p)"
  by (induction ps arbitrary: e) (auto split: if_splits sum.splits)

lemma pick_pod_cases:
  assumes "pick_pod configured sp None ps = (r, e)"
  shows "(\<exists>p port. r = Some (Inr \<lparr>ep_pod = pod_name p, ep_port = port\<rparr>) \<and> find (serves configured sp) ps = Some p \<and>
            resolvePodPort p configured sp = Inr port) \<or>
         r = None \<and> find (serves configured sp) ps = None \<and> (e = None \<longleftrightarrow> (\<forall>p \<in> set ps. \<not> podReady p))"
proof (cases "find (serves configured sp) ps")
  case None
  with assms pick_pod_found [of configured sp None ps] pick_pod_error [of configured sp None ps]
  show ?thesis by simp
next
  case (Some p)
  then have "serves configured sp p" by (auto simp: find_Some_iff)
  then obtain port where "resolvePodPort p configured sp = Inr port"
    by (auto simp: serves_def is_ok_def split: sum.splits)
  with Some assms pick_pod_found [of configured sp None ps] show ?thesis by simp
qed

text \<open>The first match in an ascending list is the least one.\<close>

lemma find_sorted_least:
  assumes "find P (sort_key f xs) = Some x"
  shows "x \<in> set xs \<and> P x \<and> (\<forall>y \<in> set xs. P y \<longrightarrow> f x \<le> f y)"
proof -
  obtain us vs where s: "sort_key f xs = us @ x # vs" "P x" "\<forall>u \<in> set us. \<not> P u"
    using find_Some_split [OF assms] by blast
  have "sorted (map f (us @ x # vs))" unfolding s(1) [symmetric] by simp
  then have "\<forall>y \<in> set vs. f x \<le> f y" by (auto simp: sorted_append)
  moreover have "set xs = set (us @ x # vs)" unfolding s(1) [symmetric] by simp
  ultimately show ?thesis using s(2,3) by auto
qed

section \<open>Properties\<close>

text \<open>C22: The endpoint does not depend on the order in which the API server lists the pods: with unique
  pod names, any two listings of the same pods give the same result, errors included up to the
  pod they mention.\<close>

theorem endpoint_order_independent:
  assumes "mset pods = mset pods'" and "distinct (map pod_name pods)"
  shows "resolveEndpoint get (\<lambda>_. Inr pods) cfg = resolveEndpoint get (\<lambda>_. Inr pods') cfg"
proof -
  have "inj_on pod_name (set pods)" using assms(2) by (simp add: distinct_map)
  moreover have "mset (sort_key pod_name pods') = mset pods" using assms(1) by simp
  ultimately have "sort_key pod_name pods = sort_key pod_name pods'"
    by (intro sort_key_inj_key_eq) simp_all
  then show ?thesis unfolding resolveEndpoint_def by (simp only: wrapping_simps bind_res_simps)
qed

definition sample_pod :: "string \<Rightarrow> bool \<Rightarrow> pod" where
  "sample_pod name ready = \<lparr>pod_name = name, pod_deleting = False, pod_phase = ''Running'',
     pod_conditions = [(''Ready'', if ready then ''True'' else ''False'')],
     pod_containers = [[\<lparr>cp_name = ''web'', cp_port = 8080\<rparr>]]\<rparr>"

definition sample_service :: service where
  "sample_service = \<lparr>svc_selector = [(''app'', ''db'')],
     svc_ports = [\<lparr>sp_name = ''http'', sp_port = 80, sp_target = StrVal ''web''\<rparr>]\<rparr>"

definition sample_kube :: kube_config where
  "sample_kube = \<lparr>Namespace = ''prod'', ServiceName = ''db'', TargetPort = 80, LocalHost = ''localhost'', LocalPort = 5000,
     Host = [], Username = [], Password = [], Insecure = False, TLSServerName = [], ClientCertificate = [],
     ClientKey = [], ClusterCACertificate = [], ConfigPaths = [], ConfigPath = [], ConfigContext = [],
     ConfigContextAuthInfo = [], ConfigContextCluster = [], Token = [], ProxyURL = [], Exec = None\<rparr>"

theorem endpoint_order_independent_witness:
  "resolveEndpoint (Inr sample_service) (\<lambda>_. Inr [sample_pod ''b'' True, sample_pod ''a'' True]) sample_kube =
   resolveEndpoint (Inr sample_service) (\<lambda>_. Inr [sample_pod ''a'' True, sample_pod ''b'' True]) sample_kube"
  by (rule endpoint_order_independent) (simp_all add: sample_pod_def)

text \<open>C21: The chosen endpoint is the ready pod of the least name whose port resolves. A result names a
  ready, non-terminating pod of the listing with the port the service maps to, no suitable pod has
  a smaller name, and an error after a successful listing means that no pod is suitable.\<close>

theorem endpoint_least_ready:
  assumes "svc_selector svc \<noteq> []"
  shows "case resolveEndpoint (Inr svc) (\<lambda>_. Inr pods) cfg of
      Inr ep \<Rightarrow> \<exists>p \<in> set pods. pod_name p = ep_pod ep \<and> podReady p \<and>
        resolvePodPort p (TargetPort cfg) (findServicePort svc (TargetPort cfg)) = Inr (ep_port ep) \<and>
        (\<forall>q \<in> set pods. serves (TargetPort cfg) (findServicePort svc (TargetPort cfg)) q \<longrightarrow> pod_name p \<le> pod_name q)
    | Inl e \<Rightarrow> \<forall>q \<in> set pods. \<not> serves (TargetPort cfg) (findServicePort svc (TargetPort cfg)) q"
proof -
  let ?sp = "findServicePort svc (TargetPort cfg)"
  let ?ps = "sort_key pod_name pods"
  obtain r e where pick: "pick_pod (TargetPort cfg) ?sp None ?ps = (r, e)" by (cases "pick_pod (TargetPort cfg) ?sp None ?ps")
  from pick_pod_cases [OF pick] show ?thesis
  proof (elim disjE exE conjE)
    fix p port
    assume p: "r = Some (Inr \<lparr>ep_pod = pod_name p, ep_port = port\<rparr>)" "find (serves (TargetPort cfg) ?sp) ?ps = Some p"
      "resolvePodPort p (TargetPort cfg) ?sp = Inr port"
    from find_sorted_least [OF p(2)] have "p \<in> set pods" "podReady p"
      "\<forall>q \<in> set pods. serves (TargetPort cfg) ?sp q \<longrightarrow> pod_name p \<le> pod_name q" by (auto simp: serves_def)
    with p(1,3) pick assms show ?thesis by (auto simp: resolveEndpoint_def)
  next
    assume n: "r = None" "find (serves (TargetPort cfg) ?sp) ?ps = None"
    then have "\<forall>q \<in> set pods. \<not> serves (TargetPort cfg) ?sp q" by (auto simp: find_None_iff)
    with n(1) pick assms show ?thesis by (auto simp: resolveEndpoint_def split: option.splits)
  qed
qed

theorem endpoint_least_ready_witness:
  "resolveEndpoint (Inr sample_service) (\<lambda>_. Inr [sample_pod ''c'' True, sample_pod ''a'' False, sample_pod ''b'' True]) sample_kube =
   Inr \<lparr>ep_pod = ''b'', ep_port = 8080\<rparr>"
proof -
  have "svc_selector sample_service \<noteq> []" by (simp add: sample_service_def)
  from endpoint_least_ready [OF this, of "[sample_pod ''c'' True, sample_pod ''a'' False, sample_pod ''b'' True]" sample_kube]
  show ?thesis
    by (auto simp: sample_pod_def sample_service_def sample_kube_def podReady_def findServicePort_def
        resolvePodPort_def serves_def is_ok_def split: sum.splits)
qed

text \<open>The forwarded port is a port. When the objects of the API server carry ports between 1 and
  65535 and so does the configuration, so does the endpoint: narrowing the configured port to 32
  bits and defaulting an omitted target port never leave the range.\<close>

lemma endpoint_port_in_range:
  assumes "1 \<le> TargetPort cfg" and "TargetPort cfg \<le> 65535"
    and "\<And>p. p \<in> set pods \<Longrightarrow> \<forall>c \<in> set (concat (pod_containers p)). 1 \<le> cp_port c \<and> cp_port c \<le> 65535"
    and "\<forall>s \<in> set (svc_ports svc). \<forall>n. sp_target s = IntVal n \<longrightarrow> 0 \<le> n \<and> n \<le> 65535"
    and "resolveEndpoint (Inr svc) (\<lambda>_. Inr pods) cfg = Inr ep"
  shows "1 \<le> ep_port ep \<and> ep_port ep \<le> 65535"
proof -
  have "svc_selector svc \<noteq> []" using assms(5) by (auto simp: resolveEndpoint_def)
  from endpoint_least_ready [OF this, of pods cfg] assms(5) obtain p where p: "p \<in> set pods"
      "resolvePodPort p (TargetPort cfg) (findServicePort svc (TargetPort cfg)) = Inr (ep_port ep)" by auto
  show ?thesis
  proof (cases "findServicePort svc (TargetPort cfg)")
    case None
    with p(2) assms(1,2) show ?thesis by (simp add: resolvePodPort_def to_int32_id)
  next
    case (Some s)
    then have s: "s \<in> set (svc_ports svc)" "sp_port s = TargetPort cfg"
      by (auto simp: findServicePort_def find_Some_iff)
    show ?thesis
    proof (cases "sp_target s")
      case (IntVal n)
      with p(2) Some s assms(1,2,4) show ?thesis by (auto simp: resolvePodPort_def split: if_splits)
    next
      case (StrVal name)
      with p(2) Some obtain c where "find (\<lambda>c. cp_name c = name) (concat (pod_containers p)) = Some c" "ep_port ep = cp_port c"
        by (auto simp: resolvePodPort_def split: option.splits)
      then show ?thesis using assms(3) [OF p(1)] by (auto simp: find_Some_iff simp del: set_concat)
    next
      case (OtherVal v)
      with p(2) Some show ?thesis by (simp add: resolvePodPort_def)
    qed
  qed
qed

lemma endpoint_port_in_range_witness: "1 \<le> (8080::int) \<and> ep_port \<lparr>ep_pod = ''a'', ep_port = 8080\<rparr> \<le> 65535"
proof -
  have "resolveEndpoint (Inr sample_service) (\<lambda>_. Inr [sample_pod ''a'' True]) sample_kube =
      Inr \<lparr>ep_pod = ''a'', ep_port = 8080\<rparr>"
    by (simp add: resolveEndpoint_def sample_service_def sample_kube_def sample_pod_def findServicePort_def
        podReady_def resolvePodPort_def)
  from endpoint_port_in_range [OF _ _ _ _ this] show ?thesis
    by (simp add: sample_kube_def sample_pod_def sample_service_def)
qed

end
