(* ===== verification/KubeForward.thy ===== *)
theory KubeForward
  imports KubeEndpoints
begin

text \<open>
  \<open>internal/kubernetes/forward.go\<close> and \<open>tunnel.go\<close>: one port-forward session as a state machine (its
  \<open>select\<close> statements race with the cancellation, the readiness and the end of \<open>client-go\<close>'s
  forwarder), and the tunnel around it.
\<close>

section \<open>Creating the forwarder\<close>

text \<open>\<open>newPortForward\<close>: the round tripper and the forwarder come from \<open>client-go\<close>; the second one gets
  the address and the port pair.\<close>

definition newPortForward :: "unit result \<Rightarrow> (string list \<Rightarrow> string list \<Rightarrow> 'f result) \<Rightarrow> kube_config \<Rightarrow> endpoint \<Rightarrow> (endpoint \<times> 'f) result" where
  "newPortForward round_tripper forwarder cfg ep =
     bind_res (wrapping ''create round tripper'' round_tripper) (\<lambda>u.
     bind_res (wrapping ''create port forwarder''
                 (forwarder [LocalHost cfg] [itoa (LocalPort cfg) @ '':'' @ itoa (ep_port ep)])) (\<lambda>f.
     Inr (ep, f)))"

definition endedError :: "go_error option \<Rightarrow> go_error" where
  "endedError err = (case err of None \<Rightarrow> ErrNew ''client-go stopped forwarding'' | Some e \<Rightarrow> e)"

section \<open>The session\<close>

text \<open>
  Where \<open>run\<close> is: at its first check, in the first \<open>select\<close>, at the second check, about to call
  \<open>signalReady\<close>, in the second \<open>select\<close>, running the deferred \<open>close(f.stop)\<close> with its result
  known, returned.
\<close>

datatype run_pc =
    RStart
  | RFirst
  | RCheck
  | RSignal
  | RSecond
  | RClosing "unit result"
  | RReturned "unit result"

text \<open>
  The context, the ready channel, the result of \<open>f.serve\<close> once it has ended (\<open>None\<close> inside is a nil
  error), the number of \<open>close(f.stop)\<close> and of \<open>signalReady\<close> calls, and whether the serving
  goroutine was started.
\<close>

record session =
  run_at :: run_pc
  run_ctx :: bool
  run_ready :: bool
  run_serving :: bool
  run_served :: "go_error option option"
  run_stops :: nat
  run_signals :: nat

definition session_start :: session where
  "session_start = \<lparr>run_at = RStart, run_ctx = False, run_ready = False, run_serving = False,
     run_served = None, run_stops = 0, run_signals = 0\<rparr>"

definition session_init :: "session \<Rightarrow> bool" where
  "session_init s \<longleftrightarrow> s = session_start"

datatype session_label =
    SCancel
  | SReady
  | SServed "go_error option"
  | SStart
  | SFirstCtx
  | SFirstDone
  | SFirstReady
  | SCheck
  | SSignal "unit result"
  | SSecondCtx
  | SSecondDone
  | SStop

definition start_error :: "endpoint \<Rightarrow> go_error option \<Rightarrow> go_error" where
  "start_error ep err = wrap_err (''start port forward to '' @ endpoint_string ep) (endedError err)"

definition ended_error :: "endpoint \<Rightarrow> go_error option \<Rightarrow> go_error" where
  "ended_error ep err = ErrWrap (''port forward to '' @ endpoint_string ep @ '' ended: '') (endedError err) []"

text \<open>One step of \<open>run\<close> or of its surroundings; the cases follow the text of the function.\<close>

inductive session_step :: "endpoint \<Rightarrow> session \<Rightarrow> session_label \<Rightarrow> session \<Rightarrow> bool" for epnt :: endpoint where
  cancel: "session_step epnt s SCancel (s\<lparr>run_ctx := True\<rparr>)"
| ready: "run_serving s \<Longrightarrow> session_step epnt s SReady (s\<lparr>run_ready := True\<rparr>)"
| served: "run_serving s \<Longrightarrow> run_served s = None \<Longrightarrow>
    session_step epnt s (SServed err) (s\<lparr>run_served := Some err\<rparr>)"
| start_ctx: "run_at s = RStart \<Longrightarrow> run_ctx s \<Longrightarrow> session_step epnt s SStart (s\<lparr>run_at := RClosing (Inr ())\<rparr>)"
| start_serve: "run_at s = RStart \<Longrightarrow> \<not> run_ctx s \<Longrightarrow>
    session_step epnt s SStart (s\<lparr>run_at := RFirst, run_serving := True\<rparr>)"
| first_ctx: "run_at s = RFirst \<Longrightarrow> run_ctx s \<Longrightarrow> session_step epnt s SFirstCtx (s\<lparr>run_at := RClosing (Inr ())\<rparr>)"
| first_done: "run_at s = RFirst \<Longrightarrow> run_served s = Some err \<Longrightarrow>
    session_step epnt s SFirstDone (s\<lparr>run_at := RClosing (Inl (start_error epnt err))\<rparr>)"
| first_ready: "run_at s = RFirst \<Longrightarrow> run_ready s \<Longrightarrow> session_step epnt s SFirstReady (s\<lparr>run_at := RCheck\<rparr>)"
| check: "run_at s = RCheck \<Longrightarrow>
    session_step epnt s SCheck (s\<lparr>run_at := (if run_ctx s then RClosing (Inr ()) else RSignal)\<rparr>)"
| signal: "run_at s = RSignal \<Longrightarrow>
    session_step epnt s (SSignal r) (s\<lparr>run_signals := Suc (run_signals s),
      run_at := (case r of Inl e \<Rightarrow> RClosing (Inl e) | Inr u \<Rightarrow> RSecond)\<rparr>)"
| second_ctx: "run_at s = RSecond \<Longrightarrow> run_ctx s \<Longrightarrow> session_step epnt s SSecondCtx (s\<lparr>run_at := RClosing (Inr ())\<rparr>)"
| second_done: "run_at s = RSecond \<Longrightarrow> run_served s = Some err \<Longrightarrow>
    session_step epnt s SSecondDone (s\<lparr>run_at := RClosing (Inl (ended_error epnt err))\<rparr>)"
| stop: "run_at s = RClosing r \<Longrightarrow>
    session_step epnt s SStop (s\<lparr>run_stops := Suc (run_stops s), run_at := RReturned r\<rparr>)"

inductive_cases session_stepE: "session_step epnt s l s'"
inductive_simps session_stop_step: "session_step epnt s SStop s'"

code_pred session_step .

section \<open>The invariant\<close>

definition session_inv :: "session \<Rightarrow> bool" where
  "session_inv s \<longleftrightarrow>
     run_stops s = (case run_at s of RReturned r \<Rightarrow> 1 | _ \<Rightarrow> 0) \<and>
     run_signals s \<le> 1 \<and>
     (run_at s \<in> {RStart, RFirst, RCheck, RSignal} \<longrightarrow> run_signals s = 0) \<and>
     (run_at s = RSecond \<longrightarrow> run_signals s = 1) \<and>
     (run_signals s = 1 \<longrightarrow> run_ready s) \<and>
     (run_at s \<in> {RCheck, RSignal, RSecond} \<longrightarrow> run_ready s) \<and>
     (run_ready s \<longrightarrow> run_serving s) \<and> (run_served s \<noteq> None \<longrightarrow> run_serving s) \<and>
     (run_at s \<in> {RClosing (Inr ()), RReturned (Inr ())} \<longrightarrow> run_ctx s)"

lemma session_inv_init: "session_init s \<Longrightarrow> session_inv s"
  by (simp add: session_init_def session_start_def session_inv_def)

lemma session_inv_step: "session_step epnt s l s' \<Longrightarrow> session_inv s \<Longrightarrow> session_inv s'"
  by (erule session_stepE; clarsimp simp: session_inv_def split: sum.splits)

interpretation sessions: invariant_system session_init "session_step epnt" session_inv
  by unfold_locales (auto intro: session_inv_init session_inv_step)

section \<open>Progress\<close>

fun session_internal :: "session_label \<Rightarrow> bool" where
  "session_internal SCancel = False"
| "session_internal SReady = False"
| "session_internal (SServed err) = False"
| "session_internal l = True"

definition session_live :: "session \<Rightarrow> bool" where
  "session_live s \<longleftrightarrow> run_ctx s \<or> run_served s \<noteq> None"

definition session_final :: "session \<Rightarrow> bool" where
  "session_final s \<longleftrightarrow> (\<exists>r. run_at s = RReturned r)"

fun run_rank :: "run_pc \<Rightarrow> nat" where
  "run_rank RStart = 6"
| "run_rank RFirst = 5"
| "run_rank RCheck = 4"
| "run_rank RSignal = 3"
| "run_rank RSecond = 2"
| "run_rank (RClosing r) = 1"
| "run_rank (RReturned r) = 0"

lemma session_progress:
  assumes "session_live s" and "\<not> session_final s"
  shows "\<exists>l s'. session_internal l \<and> session_step epnt s l s'"
proof (cases "run_at s")
  case RStart
  then show ?thesis by (cases "run_ctx s") (meson session_internal.simps session_step.intros)+
next
  case RFirst
  with assms(1) show ?thesis
    unfolding session_live_def by (metis not_None_eq session_internal.simps(5,6) session_step.first_ctx session_step.first_done)
next
  case RCheck
  then show ?thesis by (metis session_internal.simps(8) session_step.check)
next
  case RSignal
  then show ?thesis by (metis session_internal.simps(9) session_step.signal)
next
  case RSecond
  with assms(1) show ?thesis
    unfolding session_live_def by (metis not_None_eq session_internal.simps(10,11) session_step.second_ctx session_step.second_done)
next
  case (RClosing r)
  then show ?thesis by (metis session_internal.simps(12) session_step.stop)
next
  case (RReturned r)
  with assms(2) show ?thesis by (simp add: session_final_def)
qed

lemma session_decreases: "session_internal l \<Longrightarrow> session_step epnt s l s' \<Longrightarrow> run_rank (run_at s') < run_rank (run_at s)"
  by (erule session_stepE) (auto split: sum.splits)

lemma session_live_step: "session_live s \<Longrightarrow> session_step epnt s l s' \<Longrightarrow> session_live s'"
  by (erule session_stepE) (auto simp: session_live_def)

interpretation sessions_live: terminating_system session_init "session_step epnt" session_inv
  session_internal session_live session_final "\<lambda>s. run_rank (run_at s)"
  by unfold_locales
     (erule (1) session_progress, erule (1) session_decreases, erule (1) session_live_step)

section \<open>The tunnel\<close>

definition kube_log_name :: "kube_config \<Rightarrow> string" where
  "kube_log_name cfg =
     ''k8s-tunnel-'' @ Namespace cfg @ ''-'' @ ServiceName cfg @ ''-'' @ itoa (TargetPort cfg) @ ''.log''"

definition fork_kube_tunnel :: "'st fork_world \<Rightarrow> kube_config \<Rightarrow> (fork_event list \<times> int result) option" where
  "fork_kube_tunnel w cfg = ForkTunnel w (TunnelType Kubernetes) (kube_log_name cfg) (Inr (print_json (kube_json cfg)))"

datatype kube_event = KNotify | KResolve | KForward string endpoint | KStopping | KStopNotify

text \<open>What \<open>runTunnel\<close> meets: the two library constructors, the API calls, and the result of \<open>run\<close>.\<close>

record 'r kube_world =
  kd_defaults :: loading_rules
  kd_client :: "loading_rules \<Rightarrow> config_overrides \<Rightarrow> 'r result"
  kd_set :: "'r \<Rightarrow> unit result"
  kd_service :: "service result"
  kd_pods :: "(string \<times> string) list \<Rightarrow> pod list result"
  kd_round_tripper :: "unit result"
  kd_forwarder :: "string list \<Rightarrow> string list \<Rightarrow> unit result"
  kd_run :: "unit result"

definition run_kube_tunnel :: "'r kube_world \<Rightarrow> kube_config \<Rightarrow> (kube_event, unit) eff" where
  "run_kube_tunnel w cfg =
     and_then (pure_res (restConfig (kd_defaults w) (kd_client w) cfg)) (\<lambda>clientConfig.
     and_then (pure_res (wrapping ''create k8s client'' (kd_set w clientConfig))) (\<lambda>u.
     and_then (perform KNotify (Inr ())) (\<lambda>u.
     deferred [KStopNotify] (
       and_then (perform KResolve (resolveEndpoint (kd_service w) (kd_pods w) cfg)) (\<lambda>ep.
       and_then (pure_res (newPortForward (kd_round_tripper w) (kd_forwarder w) cfg ep)) (\<lambda>f.
       deferred [KStopping] (perform (KForward (LocalHost cfg) ep) (kd_run w))))))))"

definition start_kube_tunnel :: "string \<Rightarrow> unit result \<Rightarrow> 'r kube_world \<Rightarrow> (kube_event, unit) eff" where
  "start_kube_tunnel cfgJSON watched w =
     and_then (pure_res (unmarshal kube_fields empty_kube_config cfgJSON)) (\<lambda>cfg. and_then (pure_res watched) (\<lambda>u. run_kube_tunnel w cfg))"

section \<open>Properties\<close>

text \<open>C23: A port-forward session tells the truth. \<open>signalReady\<close> is called at most once, and only after
  \<open>client-go\<close> has reported the listener ready; the stop channel is closed exactly once, when
  \<open>run\<close> returns and not before; and \<open>run\<close> returns without an error only when its context was
  cancelled.\<close>

theorem session_signals_and_stops_once:
  assumes "reach session_init (session_step epnt) s"
  shows "run_signals s \<le> 1 \<and> (run_signals s = 1 \<longrightarrow> run_ready s) \<and>
    run_stops s = (case run_at s of RReturned r \<Rightarrow> 1 | _ \<Rightarrow> 0) \<and>
    (run_at s = RReturned (Inr ()) \<longrightarrow> run_ctx s)"
  using sessions.reach_inv [OF assms] by (auto simp: session_inv_def)

definition stopped_session :: session where
  "stopped_session = \<lparr>run_at = RReturned (Inr ()), run_ctx = True, run_ready = True, run_serving = True,
     run_served = None, run_stops = 1, run_signals = 1\<rparr>"

lemma stopped_session_path:
  "path (session_step epnt) session_start [SStart, SReady, SFirstReady, SCheck, SSignal (Inr ()), SCancel, SSecondCtx, SStop]
     stopped_session"
  unfolding session_start_def stopped_session_def
  by (intro path.intros; (rule session_step.start_serve session_step.ready session_step.first_ready session_step.check
        session_step.signal session_step.cancel session_step.second_ctx session_step.stop)?; simp?; (rule path_nil)?)

theorem session_signals_and_stops_once_witness: "run_stops stopped_session = 1 \<and> run_signals stopped_session \<le> 1"
proof -
  have "reach session_init (session_step e) stopped_session" for e
    by (rule path_reach [OF stopped_session_path reach_init]) (simp add: session_init_def)
  from session_signals_and_stops_once [OF this] show ?thesis by (simp add: stopped_session_def)
qed

text \<open>C24: A session ends. Once the context is cancelled or \<open>client-go\<close> has stopped forwarding, \<open>run\<close> is
  never stuck: its own steps, at most six of them, bring it to its return.\<close>

theorem session_terminates:
  assumes "reach session_init (session_step epnt) s" and "run_ctx s \<or> run_served s \<noteq> None"
  shows "(\<exists>ls t r. path (session_step epnt) s ls t \<and> (\<forall>l \<in> set ls. session_internal l) \<and> run_at t = RReturned r) \<and>
    (\<forall>ls t. path (session_step epnt) s ls t \<longrightarrow> (\<forall>l \<in> set ls. session_internal l) \<longrightarrow> length ls \<le> 6)"
proof -
  have inv: "session_inv s" by (rule sessions.reach_inv [OF assms(1)])
  have "run_rank p \<le> 6" for p by (cases p) simp_all
  then have "length ls \<le> 6" if "path (session_step epnt) s ls t" "\<forall>l \<in> set ls. session_internal l" for ls t
    using sessions_live.internal_run_bounded [OF that(1) inv that(2)] by (metis add_leD1 le_trans)
  with sessions_live.reaches_final [OF inv, of epnt] assms(2) show ?thesis
    by (auto simp: session_live_def session_final_def)
qed

theorem session_terminates_witness:
  "\<exists>ls t r. path (session_step \<lparr>ep_pod = ''a'', ep_port = 8080\<rparr>) (session_start\<lparr>run_ctx := True\<rparr>) ls t \<and> run_at t = RReturned r"
proof -
  have "reach session_init (session_step \<lparr>ep_pod = ''a'', ep_port = 8080\<rparr>) (session_start\<lparr>run_ctx := True\<rparr>)"
    by (rule reach_step [where l = SCancel and s = session_start, OF reach_init])
       (simp_all add: session_init_def session_step.cancel)
  from session_terminates [OF this] show ?thesis by auto
qed

end
