(* ===== verification/GoUrl.thy ===== *)
theory GoUrl
  imports GoStrings "HOL-Library.Char_ord" "HOL-Library.List_Lexorder"
begin

text \<open>
  What the program uses of \<open>net/url\<close>: \<open>PathEscape\<close>, \<open>QueryEscape\<close> and \<open>Values.Encode\<close>, with the
  decoding a server applies to them. A string is its bytes; \<open>Char_ord\<close> and \<open>List_Lexorder\<close> give the
  order in which \<open>Encode\<close> sorts the keys.
\<close>

section \<open>Escaping a byte\<close>

definition hex_digit :: "nat \<Rightarrow> char" where
  "hex_digit n = (if n < 10 then char_of (48 + n) else char_of (55 + n))"

definition hex_value :: "char \<Rightarrow> nat option" where
  "hex_value c =
     (let n = of_char c in
      if 48 \<le> n \<and> n \<le> 57 then Some (n - 48)
      else if 65 \<le> n \<and> n \<le> 70 then Some (n - 55)
      else if 97 \<le> n \<and> n \<le> 102 then Some (n - 87)
      else None)"

definition alphanumeric :: "char \<Rightarrow> bool" where
  "alphanumeric c =
     (let n = (of_char c :: nat) in 48 \<le> n \<and> n \<le> 57 \<or> 65 \<le> n \<and> n \<le> 90 \<or> 97 \<le> n \<and> n \<le> 122)"

definition unreserved :: "char \<Rightarrow> bool" where
  "unreserved c \<longleftrightarrow> alphanumeric c \<or> c \<in> set ''-_.~''"

text \<open>\<open>url.shouldEscape\<close> in the modes \<open>encodePathSegment\<close> and \<open>encodeQueryComponent\<close>.\<close>

definition path_safe :: "char \<Rightarrow> bool" where
  "path_safe c \<longleftrightarrow> unreserved c \<or> c \<in> set ''$&+:=@''"

definition percent :: "char \<Rightarrow> string" where
  "percent c = [CHR ''%'', hex_digit (of_char c div 16), hex_digit (of_char c mod 16)]"

definition path_byte :: "char \<Rightarrow> string" where
  "path_byte c = (if path_safe c then [c] else percent c)"

definition query_byte :: "char \<Rightarrow> string" where
  "query_byte c = (if unreserved c then [c] else if c = CHR '' '' then ''+'' else percent c)"

definition PathEscape :: "string \<Rightarrow> string" where
  "PathEscape s = concat (map path_byte s)"

definition QueryEscape :: "string \<Rightarrow> string" where
  "QueryEscape s = concat (map query_byte s)"

text \<open>\<open>url.unescape\<close>: percent triples become bytes, and in a query a plus sign is a space.\<close>

fun unescape :: "bool \<Rightarrow> string \<Rightarrow> string option" where
  "unescape q [] = Some []"
| "unescape q (c # s) =
     (if c = CHR ''%'' then
        (case s of
           h # l # s' \<Rightarrow>
             (case (hex_value h, hex_value l) of
                (Some a, Some b) \<Rightarrow> map_option (Cons (char_of (16 * a + b))) (unescape q s')
              | _ \<Rightarrow> None)
         | _ \<Rightarrow> None)
      else map_option (Cons (if q \<and> c = CHR ''+'' then CHR '' '' else c)) (unescape q s))"

definition PathUnescape :: "string \<Rightarrow> string option" where
  "PathUnescape = unescape False"

definition QueryUnescape :: "string \<Rightarrow> string option" where
  "QueryUnescape = unescape True"

section \<open>The contract of an escaping\<close>

text \<open>Bytes are escaped one by one; decoding takes one escaped byte off the front.\<close>

locale byte_escaping =
  fixes esc :: "char \<Rightarrow> string" and dec :: "string \<Rightarrow> string option"
  assumes dec_nil: "dec [] = Some []"
    and dec_esc: "dec (esc c @ s) = map_option (Cons c) (dec s)"
begin

lemma roundtrip: "dec (concat (map esc s)) = Some s"
  by (induction s) (simp_all add: dec_nil dec_esc)

lemma injective: "concat (map esc s) = concat (map esc t) \<Longrightarrow> s = t"
  using roundtrip [of s] roundtrip [of t] by (metis option.inject)

end

text \<open>The escaped text also avoids a set of delimiters.\<close>

locale delimiter_free = byte_escaping +
  fixes delimiter :: "char \<Rightarrow> bool"
  assumes esc_free: "x \<in> set (esc c) \<Longrightarrow> \<not> delimiter x"
begin

lemma escaped_free: "delimiter x \<Longrightarrow> x \<notin> set (concat (map esc s))"
  using esc_free by auto

end

lemma of_hex_digit: "n < 16 \<Longrightarrow> (of_char (hex_digit n) :: nat) = (if n < 10 then 48 + n else 55 + n)"
  by (simp add: hex_digit_def)

lemma hex_digit_value: "n < 16 \<Longrightarrow> hex_value (hex_digit n) = Some n"
  by (simp add: hex_value_def of_hex_digit Let_def)

lemma hex_digit_alphanumeric: "n < 16 \<Longrightarrow> alphanumeric (hex_digit n)"
  by (simp add: alphanumeric_def of_hex_digit Let_def)

lemma char_nibbles: "char_of (16 * (of_char c div 16) + of_char c mod (16 :: nat)) = c"
  by simp

lemma high_nibble: "(of_char c :: nat) div 16 < 16"
  by (rule less_mult_imp_div_less) simp

lemma unescape_percent: "unescape q (percent c @ s) = map_option (Cons c) (unescape q s)"
  using high_nibble [of c] by (simp add: percent_def hex_digit_value)

lemma percent_chars: "x \<in> set (percent c) \<Longrightarrow> x = CHR ''%'' \<or> alphanumeric x"
  using high_nibble [of c] by (auto simp: percent_def hex_digit_alphanumeric)

lemma alphanumeric_not [simp]:
  "\<not> alphanumeric (CHR ''/'')" "\<not> alphanumeric (CHR ''?'')" "\<not> alphanumeric (CHR ''#'')"
  "\<not> alphanumeric (CHR ''%'')" "\<not> alphanumeric (CHR ''&'')" "\<not> alphanumeric (CHR ''='')"
  "\<not> alphanumeric (CHR ''+'')" "\<not> alphanumeric (CHR '';'')" "\<not> alphanumeric (CHR '' '')"
  by (simp_all add: alphanumeric_def)

definition path_delimiter :: "char \<Rightarrow> bool" where
  "path_delimiter c \<longleftrightarrow> c \<in> set ''/?#;''"

definition query_delimiter :: "char \<Rightarrow> bool" where
  "query_delimiter c \<longleftrightarrow> c \<in> set ''&=#?/;''"

interpretation path_escape: delimiter_free path_byte PathUnescape path_delimiter
proof unfold_locales
  show "PathUnescape (path_byte c @ s) = map_option (Cons c) (PathUnescape s)" for c s
    by (auto simp: PathUnescape_def path_byte_def unescape_percent path_safe_def unreserved_def)
  show "\<not> path_delimiter x" if "x \<in> set (path_byte c)" for x c
    using that percent_chars [of x c]
    by (auto simp: path_byte_def path_safe_def unreserved_def path_delimiter_def split: if_splits)
qed (simp add: PathUnescape_def)

interpretation query_escape: delimiter_free query_byte QueryUnescape query_delimiter
proof unfold_locales
  show "QueryUnescape (query_byte c @ s) = map_option (Cons c) (QueryUnescape s)" for c s
    by (auto simp: QueryUnescape_def query_byte_def unescape_percent unreserved_def)
  show "\<not> query_delimiter x" if "x \<in> set (query_byte c)" for x c
    using that percent_chars [of x c]
    by (auto simp: query_byte_def unreserved_def query_delimiter_def split: if_splits)
qed (simp add: QueryUnescape_def)

section \<open>Values.Encode\<close>

text \<open>A \<open>url.Values\<close> with one value per key, as the program uses it, is an association list.\<close>

definition encode_pair :: "string \<times> string \<Rightarrow> string" where
  "encode_pair kv = QueryEscape (fst kv) @ ''='' @ QueryEscape (snd kv)"

definition encode_values :: "(string \<times> string) list \<Rightarrow> string" where
  "encode_values form = join_with ''&'' (map encode_pair (sort_key fst form))"

text \<open>What a server reads back: the fields between ampersands, each split at its equals sign.\<close>

definition decode_pair :: "string \<Rightarrow> (string \<times> string) option" where
  "decode_pair f =
     (case split_on (CHR ''='') f of
        [k, v] \<Rightarrow> (case (QueryUnescape k, QueryUnescape v) of (Some k', Some v') \<Rightarrow> Some (k', v') | _ \<Rightarrow> None)
      | _ \<Rightarrow> None)"

definition decode_values :: "string \<Rightarrow> (string \<times> string) option list" where
  "decode_values s = map decode_pair (split_on (CHR ''&'') s)"

lemma query_escape_free:
  "CHR ''&'' \<notin> set (QueryEscape s)" "CHR ''='' \<notin> set (QueryEscape s)"
  unfolding QueryEscape_def by (rule query_escape.escaped_free, simp add: query_delimiter_def)+

lemma query_roundtrip: "QueryUnescape (QueryEscape s) = Some s"
  unfolding QueryEscape_def by (rule query_escape.roundtrip)

lemma path_roundtrip: "PathUnescape (PathEscape s) = Some s"
  unfolding PathEscape_def by (rule path_escape.roundtrip)

lemma decode_encode_pair: "decode_pair (encode_pair kv) = Some kv"
  by (simp add: decode_pair_def encode_pair_def split_on_append split_on_word query_escape_free query_roundtrip)

lemma split_join: "ws \<noteq> [] \<Longrightarrow> (\<And>w. w \<in> set ws \<Longrightarrow> d \<notin> set w) \<Longrightarrow> split_on d (join_with [d] ws) = ws"
proof (induction "[d]" ws rule: join_with.induct)
  case (3 s t ss)
  then show ?case by (simp add: split_on_append split_on_word)
qed (simp_all add: split_on_word)

lemma decode_encode_values:
  "form \<noteq> [] \<Longrightarrow> decode_values (encode_values form) = map Some (sort_key fst form)"
proof -
  assume ne: "form \<noteq> []"
  have "split_on (CHR ''&'') (encode_values form) = map encode_pair (sort_key fst form)"
    unfolding encode_values_def
  proof (rule split_join)
    show "map encode_pair (sort_key fst form) \<noteq> []" using ne
      by (metis list.map_disc_iff length_0_conv length_sort)
    show "CHR ''&'' \<notin> set w" if "w \<in> set (map encode_pair (sort_key fst form))" for w
      using that by (auto simp: encode_pair_def query_escape_free)
  qed
  then show ?thesis by (simp add: decode_values_def decode_encode_pair)
qed

end
