(* ===== verification/AzureSession.thy ===== *)
theory AzureSession
  imports GoUrl GoJsonStruct Codec
begin

text \<open>
  The Bastion data-plane session of \<open>internal/azurebastion/session.go\<close>: credentials, the token
  negotiation, the WebSocket address and the clean-up. The operations run one at a time (the
  client's two mutexes), so they are functions of the client's state. The credential, the HTTP
  transport and the WebSocket dialer answer; a reply that does not decode leaves the
  fields it lacks empty.
\<close>

section \<open>State\<close>

record access_token =
  at_token :: string
  at_expires :: int

record session_client =
  baseURL :: string
  wsBaseURL :: string
  targetResourceID :: string
  targetPort :: int
  hostname :: string
  authToken :: string
  nodeID :: string
  cachedToken :: access_token

record token_response =
  tr_auth :: string
  tr_node :: string
  tr_websocket :: string

definition tokenRefreshWindow :: int where "tokenRefreshWindow = 300 * 1000000000"
definition body_limit :: nat where "body_limit = 2 ^ 20"

text \<open>\<open>url.Parse\<close> gives the scheme and the host of an endpoint, or fails.\<close>

definition newSessionClient :: "(string \<Rightarrow> (string \<times> string) option) \<Rightarrow> string \<Rightarrow> string \<Rightarrow> int \<Rightarrow> string \<Rightarrow> int \<Rightarrow>
    session_client result" where
  "newSessionClient parse endpoint target port host never =
     (let ep = (if contains_str ''://'' endpoint then endpoint else ''https://'' @ endpoint) in
      case parse ep of
        None \<Rightarrow> Inl (ErrNew ''invalid Azure Bastion DNS endpoint'')
      | Some (sch, h) \<Rightarrow>
          if h = [] then Inl (ErrNew ''invalid Azure Bastion DNS endpoint'')
          else (let (scheme, wsScheme) = (if sch = ''http'' then (''http'', ''ws'') else (''https'', ''wss'')) in
            Inr \<lparr>baseURL = scheme @ ''://'' @ h, wsBaseURL = wsScheme @ ''://'' @ h, targetResourceID = target,
                 targetPort = port, hostname = host, authToken = [], nodeID = [],
                 cachedToken = \<lparr>at_token = [], at_expires = never\<rparr>\<rparr>))"

section \<open>Requests\<close>

record http_request =
  hr_method :: string
  hr_url :: string
  hr_headers :: "(string \<times> string) list"
  hr_body :: string

text \<open>\<open>http.NewRequest\<close> failed; \<open>Do\<close> failed; a status with a body, whose reading may fail.\<close>

datatype http_reply = BuildError go_error | SendError go_error | Reply int "string result"

datatype session_event = AskCredential | Send http_request | DialWebSocket string

section \<open>accessToken\<close>

definition accessToken :: "int \<Rightarrow> access_token result \<Rightarrow> session_client \<Rightarrow>
    session_event list \<times> string result \<times> session_client" where
  "accessToken now credential c =
     (if at_expires (cachedToken c) - now > tokenRefreshWindow then ([], Inr (at_token (cachedToken c)), c)
      else (case credential of
          Inl e \<Rightarrow> ([AskCredential], Inl (wrap_err ''acquire Azure credential'' e), c)
        | Inr t \<Rightarrow> ([AskCredential], Inr (at_token t), c\<lparr>cachedToken := t\<rparr>)))"

section \<open>negotiate\<close>

definition token_form :: "session_client \<Rightarrow> string \<Rightarrow> (string \<times> string) list" where
  "token_form c access =
     [(''resourceId'', targetResourceID c), (''protocol'', ''tcptunnel''),
      (''workloadHostPort'', itoa (targetPort c)), (''aztoken'', access), (''token'', authToken c)] @
     (if hostname c \<noteq> [] then [(''hostname'', hostname c)] else [])"

definition token_request :: "session_client \<Rightarrow> string \<Rightarrow> http_request" where
  "token_request c access =
     \<lparr>hr_method = ''POST'', hr_url = baseURL c @ ''/api/tokens'',
      hr_headers = (''Content-Type'', ''application/x-www-form-urlencoded'') #
        (if nodeID c \<noteq> [] then [(''X-Node-Id'', nodeID c)] else []),
      hr_body = encode_values (token_form c access)\<rparr>"

definition empty_token :: token_response where
  "empty_token = \<lparr>tr_auth = [], tr_node = [], tr_websocket = []\<rparr>"

text \<open>
  The reply's body: \<open>negotiate\<close> ignores the error of \<open>Unmarshal\<close>, and keeps the fields that were
  decoded before or after one.
\<close>

definition token_fields :: "token_response fields" where
  "token_fields =
     [(''authToken'', string_field (\<lambda>v t. t\<lparr>tr_auth := v\<rparr>)), (''nodeId'', string_field (\<lambda>v t. t\<lparr>tr_node := v\<rparr>)),
      (''websocketToken'', string_field (\<lambda>v t. t\<lparr>tr_websocket := v\<rparr>))]"

definition decode_token :: "string \<Rightarrow> token_response" where
  "decode_token body = fst (unmarshal_into token_fields empty_token body)"

text \<open>The body a server sends for a token.\<close>

definition token_json :: "token_response \<Rightarrow> json" where
  "token_json t = JObj
     [(''authToken'', JStr (tr_auth t)), (''nodeId'', JStr (tr_node t)), (''websocketToken'', JStr (tr_websocket t))]"

interpretation token_codec: json_codec token_json token_fields empty_token
  "\<lambda>t. utf8 (tr_auth t) \<and> utf8 (tr_node t) \<and> utf8 (tr_websocket t)" "\<lambda>t. t"
proof
  fix t :: token_response
  show "utf8 (tr_auth t) \<and> utf8 (tr_node t) \<and> utf8 (tr_websocket t) \<Longrightarrow> printable (token_json t)"
    by (simp add: token_json_def)
  show "depth (token_json t) \<le> 4" by (simp add: token_json_def)
  show "decode_struct token_fields (token_json t) empty_token = (t, None)"
    by (simp add: token_json_def decode_struct_def decode_member_def field_of_def token_fields_def empty_token_def)
qed

lemma decode_token_json:
  "utf8 (tr_auth t) \<and> utf8 (tr_node t) \<and> utf8 (tr_websocket t) \<Longrightarrow> decode_token (print_json (token_json t)) = t"
  using token_codec.unmarshal_marshal [of t]
  by (auto simp: decode_token_def unmarshal_def split: prod.splits option.splits)

definition negotiate :: "string \<Rightarrow> http_reply \<Rightarrow> session_client \<Rightarrow>
    session_event list \<times> token_response result \<times> session_client" where
  "negotiate access reply c =
     (let sent = [Send (token_request c access)] in
      case reply of
        BuildError e \<Rightarrow> ([], Inl (wrap_err ''create Azure Bastion token request'' e), c)
      | SendError e \<Rightarrow> (sent, Inl (wrap_err ''send Azure Bastion token request'' e), c)
      | Reply status (Inl e) \<Rightarrow> (sent, Inl (wrap_err ''read Azure Bastion token response'' e), c)
      | Reply status (Inr text) \<Rightarrow>
          (let body = take body_limit text;
               token = (if length body > 0 then decode_token body else empty_token)
           in if status \<noteq> 200 then
                (sent, Inl (ErrNew (''request Azure Bastion token: HTTP status '' @ itoa status)), c)
              else if tr_auth token = [] \<or> tr_node token = [] \<or> tr_websocket token = [] then
                (sent, Inl (ErrNew ''missing required fields in Azure Bastion token response''), c)
              else (sent, Inr token, c\<lparr>authToken := tr_auth token, nodeID := tr_node token\<rparr>)))"

section \<open>open\<close>

definition ws_url :: "session_client \<Rightarrow> token_response \<Rightarrow> string" where
  "ws_url c token =
     wsBaseURL c @ ''/webtunnelv2/'' @ PathEscape (tr_websocket token) @
     ''?X-Node-Id='' @ QueryEscape (tr_node token)"

definition session_open :: "int \<Rightarrow> access_token result \<Rightarrow> http_reply \<Rightarrow>
    (string \<Rightarrow> 'c result) \<Rightarrow> session_client \<Rightarrow> session_event list \<times> 'c result \<times> session_client" where
  "session_open now credential reply dial c =
     (case accessToken now credential c of
        (evs, Inl e, c1) \<Rightarrow> (evs, Inl e, c1)
      | (evs, Inr access, c1) \<Rightarrow>
          (case negotiate access reply c1 of
             (evs', Inl e, c2) \<Rightarrow> (evs @ evs', Inl e, c2)
           | (evs', Inr token, c2) \<Rightarrow>
               (evs @ evs' @ [DialWebSocket (ws_url c2 token)],
                (case dial (ws_url c2 token) of
                   Inl e \<Rightarrow> Inl (ErrNew ''connect Azure Bastion WebSocket'')
                 | Inr conn \<Rightarrow> Inr conn), c2)))"

section \<open>close\<close>

definition delete_request :: "session_client \<Rightarrow> string \<Rightarrow> string \<Rightarrow> http_request" where
  "delete_request c token node =
     \<lparr>hr_method = ''DELETE'', hr_url = baseURL c @ ''/api/tokens/'' @ PathEscape token,
      hr_headers = (if node \<noteq> [] then [(''X-Node-Id'', node)] else []), hr_body = []\<rparr>"

definition deleteToken :: "http_reply \<Rightarrow> session_client \<Rightarrow> string \<Rightarrow> string \<Rightarrow> session_event list \<times> unit result" where
  "deleteToken reply c token node =
     (if token = [] then ([], Inr ())
      else (case reply of
          BuildError e \<Rightarrow> ([], Inl (ErrNew ''create Azure Bastion session cleanup request''))
        | SendError e \<Rightarrow> ([Send (delete_request c token node)], Inl (ErrNew ''send Azure Bastion session cleanup request''))
        | Reply status body \<Rightarrow>
            ([Send (delete_request c token node)],
             if status \<noteq> 200 \<and> status \<noteq> 204 \<and> status \<noteq> 404
             then Inl (ErrNew (''clean up Azure Bastion session: HTTP status '' @ itoa status)) else Inr ())))"

definition session_close :: "http_reply \<Rightarrow> session_client \<Rightarrow> session_event list \<times> unit result \<times> session_client" where
  "session_close reply c =
     (let token = authToken c; node = nodeID c; c1 = c\<lparr>authToken := [], nodeID := []\<rparr> in
      if token = [] then ([], Inr (), c1)
      else (case deleteToken reply c1 token node of (evs, r) \<Rightarrow> (evs, r, c1)))"

section \<open>Sequences of operations\<close>

datatype session_op = Negotiate string http_reply | CloseSession http_reply

fun session_do :: "session_op \<Rightarrow> session_client \<Rightarrow> session_event list \<times> session_client" where
  "session_do (Negotiate access reply) c =
     (case negotiate access reply c of (evs, r, c1) \<Rightarrow> (evs, c1))"
| "session_do (CloseSession reply) c = (case session_close reply c of (evs, r, c1) \<Rightarrow> (evs, c1))"

definition session_run :: "session_op list \<Rightarrow> session_client \<Rightarrow> session_client" where
  "session_run ops c = fold (\<lambda>op s. snd (session_do op s)) ops c"

text \<open>A negotiation the server granted, with the token it gave.\<close>

definition granted :: "http_reply \<Rightarrow> token_response option" where
  "granted reply =
     (case reply of
        Reply status (Inr text) \<Rightarrow>
          (let token = (if text = [] then empty_token else decode_token (take body_limit text)) in
           if status = 200 \<and> tr_auth token \<noteq> [] \<and> tr_node token \<noteq> [] \<and> tr_websocket token \<noteq> []
           then Some token else None)
      | _ \<Rightarrow> None)"

fun changes_token :: "session_op \<Rightarrow> bool" where
  "changes_token (Negotiate access reply) = (granted reply \<noteq> None)"
| "changes_token (CloseSession reply) = True"

lemma body_limit_pos: "0 < body_limit"
  by (simp add: body_limit_def)

lemma negotiate_granted:
  "negotiate access reply c =
     (case granted reply of
        Some t \<Rightarrow> ([Send (token_request c access)], Inr t, c\<lparr>authToken := tr_auth t, nodeID := tr_node t\<rparr>)
      | None \<Rightarrow> (fst (negotiate access reply c), fst (snd (negotiate access reply c)), c))"
  using body_limit_pos
  by (auto simp: negotiate_def granted_def Let_def empty_token_def split: http_reply.splits sum.splits)

lemma negotiate_none:
  "granted reply = None \<Longrightarrow> snd (snd (negotiate access reply c)) = c \<and>
     \<not> is_ok (fst (snd (negotiate access reply c)))"
  using body_limit_pos
  by (auto simp: negotiate_def granted_def Let_def empty_token_def split: http_reply.splits sum.splits if_splits)

lemma negotiate_some:
  "granted reply = Some t \<Longrightarrow> negotiate access reply c =
     ([Send (token_request c access)], Inr t, c\<lparr>authToken := tr_auth t, nodeID := tr_node t\<rparr>)"
  by (subst negotiate_granted) simp

lemma session_do_unchanged: "\<not> changes_token op \<Longrightarrow> snd (session_do op c) = c"
  by (cases op) (auto simp: case_prod_unfold negotiate_none)

lemma session_run_unchanged:
  "(\<And>op. op \<in> set ops \<Longrightarrow> \<not> changes_token op) \<Longrightarrow> session_run ops c = c"
  unfolding session_run_def by (induction ops arbitrary: c) (simp_all add: session_do_unchanged)

section \<open>Properties\<close>

text \<open>C15: Continuation tokens form a chain. After a granted negotiation, and as long as no later one is
  granted and the session is not closed, every token request carries the token and the node of
  that grant, whatever failed in between; and the fields arrive unaltered: the decoded body is
  the form, sorted by key.\<close>

theorem session_token_chain:
  assumes "granted reply = Some t" and "\<And>op. op \<in> set later \<Longrightarrow> \<not> changes_token op"
  shows "let c' = session_run (earlier @ Negotiate access reply # later) c;
             req = token_request c' access' in
    (''token'', tr_auth t) \<in> set (token_form c' access') \<and> (''X-Node-Id'', tr_node t) \<in> set (hr_headers req) \<and>
    decode_values (hr_body req) = map Some (sort_key fst (token_form c' access')) \<and>
    (\<exists>evs r c''. negotiate access' reply' c' = (evs, r, c'') \<and> (evs = [] \<or> evs = [Send req]))"
proof -
  let ?c0 = "session_run earlier c"
  have "session_run (earlier @ Negotiate access reply # later) c =
      session_run later (snd (session_do (Negotiate access reply) ?c0))"
    by (simp add: session_run_def)
  also have "\<dots> = ?c0\<lparr>authToken := tr_auth t, nodeID := tr_node t\<rparr>"
    using session_run_unchanged [OF assms(2)] negotiate_some [OF assms(1)] by simp
  finally have c': "session_run (earlier @ Negotiate access reply # later) c =
      ?c0\<lparr>authToken := tr_auth t, nodeID := tr_node t\<rparr>" .
  define d where "d = ?c0\<lparr>authToken := tr_auth t, nodeID := tr_node t\<rparr>"
  have "tr_node t \<noteq> []" using assms(1)
    by (auto simp: granted_def Let_def split: http_reply.splits sum.splits if_splits)
  then have "(''token'', tr_auth t) \<in> set (token_form d access')"
    "(''X-Node-Id'', tr_node t) \<in> set (hr_headers (token_request d access'))"
    by (simp_all add: token_form_def token_request_def d_def)
  moreover have "decode_values (hr_body (token_request d access')) = map Some (sort_key fst (token_form d access'))"
    unfolding token_request_def by simp (rule decode_encode_values, simp add: token_form_def)
  moreover have "\<exists>evs r c''. negotiate access' reply' d = (evs, r, c'') \<and>
      (evs = [] \<or> evs = [Send (token_request d access')])"
    by (simp add: negotiate_def Let_def split: http_reply.splits sum.splits)
  ultimately show ?thesis unfolding c' Let_def d_def by blast
qed

definition sample_token :: token_response where
  "sample_token = \<lparr>tr_auth = ''auth'', tr_node = ''node'', tr_websocket = ''ws''\<rparr>"

lemma sample_token_granted: "granted (Reply 200 (Inr (print_json (token_json sample_token)))) = Some sample_token"
proof -
  let ?text = "print_json (token_json sample_token)"
  have shape: "length ?text \<le> body_limit" "?text \<noteq> []"
    by (simp_all add: token_json_def sample_token_def marshal_string_def escape.simps(2) escape_rune_def after_rune_def
        rune_size_ascii escape_ascii_def html_safe_def body_limit_def del: rune_size.simps)
  then show ?thesis
    using decode_token_json [of sample_token] by (simp add: granted_def Let_def sample_token_def)
qed

definition fresh_client :: session_client where
  "fresh_client = \<lparr>baseURL = ''https://b'', wsBaseURL = ''wss://b'', targetResourceID = ''/vm'', targetPort = 22,
     hostname = [], authToken = [], nodeID = [], cachedToken = \<lparr>at_token = [], at_expires = 0\<rparr>\<rparr>"

theorem session_token_chain_witness:
  "(''token'', ''auth'') \<in> set (token_form (session_run
      [Negotiate ''az'' (Reply 200 (Inr (print_json (token_json sample_token)))), Negotiate ''az'' (Reply 503 (Inr ''2''))]
      fresh_client) ''az'')"
proof -
  from session_token_chain [OF sample_token_granted, of "[Negotiate ''az'' (Reply 503 (Inr ''2''))]" "[]" "''az''" fresh_client "''az''"]
  show ?thesis by (simp add: granted_def Let_def sample_token_def)
qed

text \<open>C33: Closing is idempotent and precise. \<open>close\<close> clears the token before anything can fail; it sends
  one request exactly when a token was held, whose path ends in that token, undamaged by the
  escaping; and a second \<open>close\<close> sends nothing and reports no error.\<close>

theorem session_close_once:
  "case session_close reply c of (evs, r, c1) \<Rightarrow>
     authToken c1 = [] \<and> nodeID c1 = [] \<and>
     (case reply of
        BuildError e \<Rightarrow> evs = []
      | _ \<Rightarrow> evs = (if authToken c = [] then [] else [Send (delete_request c (authToken c) (nodeID c))])) \<and>
     (\<exists>seg. hr_url (delete_request c (authToken c) (nodeID c)) = baseURL c @ ''/api/tokens/'' @ seg \<and>
        PathUnescape seg = Some (authToken c) \<and> CHR ''/'' \<notin> set seg \<and> CHR ''?'' \<notin> set seg) \<and>
     session_close reply' c1 = ([], Inr (), c1)"
proof -
  have "PathUnescape (PathEscape s) = Some s" "CHR ''/'' \<notin> set (PathEscape s)" "CHR ''?'' \<notin> set (PathEscape s)" for s
    unfolding PathEscape_def
    by (rule path_escape.roundtrip, (rule path_escape.escaped_free, simp add: path_delimiter_def)+)
  then show ?thesis
    by (auto simp: session_close_def deleteToken_def delete_request_def Let_def split: http_reply.splits)
qed

text \<open>The access token is fetched only when it has to be. \<open>accessToken\<close> answers from the cache
  exactly when the cached token is valid for more than five more minutes; otherwise it asks the
  credential once, and after a success it does not ask again while more than five minutes of the
  new token are left; a failed request leaves the state as it was.\<close>

lemma access_token_cached:
  assumes "accessToken now (Inr t) c = (evs, r, c1)" and "at_expires t - later > tokenRefreshWindow" and "now \<le> later"
    and "at_expires (cachedToken c) - now \<le> tokenRefreshWindow"
  shows "evs = [AskCredential] \<and> r = Inr (at_token t) \<and>
    accessToken later credential c1 = ([], Inr (at_token t), c1) \<and>
    accessToken now (Inl e) c = ([AskCredential], Inl (wrap_err ''acquire Azure credential'' e), c)"
  using assms by (auto simp: accessToken_def)

lemma access_token_cached_example:
  "accessToken 10 (Inl ErrEOF) (fresh_client\<lparr>cachedToken := \<lparr>at_token = ''t'', at_expires = 3600 * 1000000000\<rparr>\<rparr>) =
     ([], Inr ''t'', fresh_client\<lparr>cachedToken := \<lparr>at_token = ''t'', at_expires = 3600 * 1000000000\<rparr>\<rparr>)"
  using access_token_cached [of 0 "\<lparr>at_token = ''t'', at_expires = 3600 * 1000000000\<rparr>" fresh_client _ _ _ 10 "Inl ErrEOF"]
  by (simp add: accessToken_def tokenRefreshWindow_def fresh_client_def)

text \<open>
  Which secrets an error may depend on. Two clients that differ only in the secrets they hold, and two answers
  that an observer of the outcome, but not of the contents, cannot tell apart. For the token request,
  whose URL is the same for both clients and holds no secret, the transport and the credential give equal errors; for the
  other requests their errors may differ in any way.
\<close>

definition same_but_secrets :: "session_client \<Rightarrow> session_client \<Rightarrow> bool" where
  "same_but_secrets c c' \<longleftrightarrow>
     baseURL c' = baseURL c \<and> wsBaseURL c' = wsBaseURL c \<and> targetResourceID c' = targetResourceID c \<and>
     targetPort c' = targetPort c \<and> hostname c' = hostname c \<and>
     at_expires (cachedToken c') = at_expires (cachedToken c)"

fun same_outcome :: "http_reply \<Rightarrow> http_reply \<Rightarrow> bool" where
  "same_outcome (BuildError e) (BuildError e') = True"
| "same_outcome (SendError e) (SendError e') = True"
| "same_outcome (Reply status body) (Reply status' body') = (status = status')"
| "same_outcome r r' = False"

fun same_grant :: "http_reply \<Rightarrow> http_reply \<Rightarrow> bool" where
  "same_grant (BuildError e) (BuildError e') = (e = e')"
| "same_grant (SendError e) (SendError e') = (e = e')"
| "same_grant (Reply status (Inl e)) (Reply status' (Inl e')) = (status = status' \<and> e = e')"
| "same_grant (Reply status (Inr b)) (Reply status' (Inr b')) =
     (status = status' \<and> (granted (Reply status (Inr b)) = None \<longleftrightarrow> granted (Reply status' (Inr b')) = None))"
| "same_grant r r' = False"

fun same_credential :: "access_token result \<Rightarrow> access_token result \<Rightarrow> bool" where
  "same_credential (Inl e) (Inl e') = (e = e')"
| "same_credential (Inr t) (Inr t') = (at_expires t = at_expires t')"
| "same_credential r r' = False"

definition error_of :: "'a result \<Rightarrow> go_error option" where
  "error_of r = (case r of Inl e \<Rightarrow> Some e | Inr x \<Rightarrow> None)"

lemma error_of_simps [simp]: "error_of (Inl e) = Some e" "error_of (Inr x) = None"
  by (simp_all add: error_of_def)

lemma close_hides:
  assumes "same_outcome reply reply'" and "authToken c = [] \<longleftrightarrow> authToken c' = []"
  shows "error_of (fst (snd (session_close reply c))) = error_of (fst (snd (session_close reply' c')))"
  using assms by (cases reply; cases reply'; simp add: session_close_def deleteToken_def Let_def)

lemma accessToken_hides:
  assumes "same_but_secrets c c'" and "same_credential cr cr'"
  obtains e where "fst (snd (accessToken now cr c)) = Inl e" "fst (snd (accessToken now cr' c')) = Inl e"
  | a a' where "fst (snd (accessToken now cr c)) = Inr a" "fst (snd (accessToken now cr' c')) = Inr a'"
    "same_but_secrets (snd (snd (accessToken now cr c))) (snd (snd (accessToken now cr' c')))"
proof -
  have x: "at_expires (cachedToken c') = at_expires (cachedToken c)" using assms(1) by (simp add: same_but_secrets_def)
  show ?thesis
  proof (cases "at_expires (cachedToken c) - now > tokenRefreshWindow")
    case True
    with x assms(1) that(2) show ?thesis by (simp add: accessToken_def)
  next
    case False
    show ?thesis
    proof (cases cr)
      case (Inl e)
      with assms(2) False x that(1) show ?thesis by (cases cr') (simp_all add: accessToken_def)
    next
      case (Inr t)
      then obtain t' where t': "cr' = Inr t'" "at_expires t = at_expires t'" using assms(2) by (cases cr') auto
      have "same_but_secrets (c\<lparr>cachedToken := t\<rparr>) (c'\<lparr>cachedToken := t'\<rparr>)"
        using assms(1) t'(2) by (simp add: same_but_secrets_def)
      with Inr t' False x that(2) show ?thesis by (simp add: accessToken_def)
    qed
  qed
qed

lemma negotiate_hides:
  assumes "same_grant r r'"
  shows "error_of (fst (snd (negotiate a r c))) = error_of (fst (snd (negotiate a' r' c')))"
proof (cases "granted r")
  case (Some t)
  then obtain t' where "granted r' = Some t'" using assms by (cases "(r, r')" rule: same_grant.cases) (auto simp: granted_def)
  with Some show ?thesis by (simp add: negotiate_some)
next
  case None
  with assms show ?thesis
    by (cases "(r, r')" rule: same_grant.cases)
      (auto simp: negotiate_def granted_def Let_def empty_token_def split: if_split_asm)
qed

text \<open>C34: The errors of the session client do not carry its secrets. Two sessions that differ in
  continuation token, node and access token report the same error: \<open>close\<close>, whatever the errors of the HTTP library
  (which may hold the URL with the token) and the bodies; \<open>open\<close>, whatever the tokens of the reply and
  the errors of the WebSocket dialer (which may hold its URL). What \<open>open\<close> does pass on are the
  errors of the credential and of the transport for the token request, and the URL of that request is
  the same for both sessions.\<close>

theorem session_errors_hide_tokens:
  assumes "same_but_secrets c c'"
  shows "(\<forall>reply reply'. same_outcome reply reply' \<and> (authToken c = [] \<longleftrightarrow> authToken c' = []) \<longrightarrow>
      error_of (fst (snd (session_close reply c))) = error_of (fst (snd (session_close reply' c')))) \<and>
    (\<forall>now cr cr' r r' dial_error dial_error'. same_credential cr cr' \<and> same_grant r r' \<longrightarrow>
      error_of (fst (snd (session_open now cr r (\<lambda>u. Inl (dial_error u) :: unit result) c))) =
      error_of (fst (snd (session_open now cr' r' (\<lambda>u. Inl (dial_error' u) :: unit result) c')))) \<and>
    hr_url (token_request c access) = hr_url (token_request c' access')"
proof (intro conjI allI impI)
  show "error_of (fst (snd (session_close reply c))) = error_of (fst (snd (session_close reply' c')))"
    if "same_outcome reply reply' \<and> (authToken c = [] \<longleftrightarrow> authToken c' = [])" for reply reply'
    using close_hides that by blast
  show "error_of (fst (snd (session_open now cr r (\<lambda>u. Inl (dial_error u) :: unit result) c))) =
      error_of (fst (snd (session_open now cr' r' (\<lambda>u. Inl (dial_error' u) :: unit result) c')))"
    if h: "same_credential cr cr' \<and> same_grant r r'" for now cr cr' r r' dial_error dial_error'
  proof (rule accessToken_hides [OF assms conjunct1 [OF h], of now])
    fix a a'
    assume "fst (snd (accessToken now cr c)) = Inr a" and "fst (snd (accessToken now cr' c')) = Inr a'"
    then obtain evs c1 evs' c1' where q: "accessToken now cr c = (evs, Inr a, c1)" "accessToken now cr' c' = (evs', Inr a', c1')"
      by (metis prod.collapse)
    have "error_of (fst (snd (negotiate a r c1))) = error_of (fst (snd (negotiate a' r' c1')))"
      using h by (intro negotiate_hides) simp
    then show ?thesis unfolding session_open_def q
      by (auto simp: error_of_def split: prod.splits sum.splits)
  qed (simp add: session_open_def case_prod_unfold split: prod.splits sum.splits)
  show "hr_url (token_request c access) = hr_url (token_request c' access')"
    using assms by (simp add: same_but_secrets_def token_request_def)
qed

text \<open>Two tokens, and an error that quotes the URL.\<close>

theorem session_errors_hide_tokens_witness:
  "error_of (fst (snd (session_close (SendError (ErrExt ''DELETE https://b/api/tokens/secret''))
       (fresh_client\<lparr>authToken := ''secret'', nodeID := ''n''\<rparr>)))) =
   error_of (fst (snd (session_close (SendError (ErrExt ''DELETE https://b/api/tokens/other''))
       (fresh_client\<lparr>authToken := ''other'', nodeID := []\<rparr>))))"
proof -
  have "same_but_secrets (fresh_client\<lparr>authToken := ''secret'', nodeID := ''n''\<rparr>) (fresh_client\<lparr>authToken := ''other'', nodeID := []\<rparr>)"
    by (simp add: same_but_secrets_def fresh_client_def)
  note hides = session_errors_hide_tokens [OF this, THEN conjunct1, rule_format]
  show ?thesis by (rule hides) simp
qed

text \<open>The WebSocket address cannot be bent by a token. The token is one path segment and the node the
  only query value: neither contains a delimiter of the URL, and a server that decodes them gets
  back exactly what the negotiation returned.\<close>

lemma ws_url_wellformed:
  "\<exists>seg val. ws_url c token = wsBaseURL c @ ''/webtunnelv2/'' @ seg @ ''?X-Node-Id='' @ val \<and>
     set seg \<inter> set ''/?#'' = {} \<and> set val \<inter> set ''/?#&='' = {} \<and>
     PathUnescape seg = Some (tr_websocket token) \<and> QueryUnescape val = Some (tr_node token)"
proof (intro exI conjI)
  show "ws_url c token = wsBaseURL c @ ''/webtunnelv2/'' @ PathEscape (tr_websocket token) @
      ''?X-Node-Id='' @ QueryEscape (tr_node token)" by (simp add: ws_url_def)
  show "set (PathEscape (tr_websocket token)) \<inter> set ''/?#'' = {}"
    using path_escape.escaped_free [of _ "tr_websocket token"] by (auto simp: PathEscape_def path_delimiter_def)
  show "set (QueryEscape (tr_node token)) \<inter> set ''/?#&='' = {}"
    using query_escape.escaped_free [of _ "tr_node token"] by (auto simp: QueryEscape_def query_delimiter_def)
qed (rule path_roundtrip query_roundtrip)+

end
