(* ===== verification/GoNet.thy ===== *)
theory GoNet
  imports GoStrings
begin

text \<open>
  \<open>net.ParseIP\<close>: whether a string is an IPv4 or IPv6 address without a zone, following
  \<open>netip.ParseAddr\<close> of the Go library: four decimal fields without leading zeros, or groups of up
  to four hexadecimal digits with at most one ellipsis and possibly an embedded IPv4 tail.
\<close>

section \<open>IPv4\<close>

text \<open>
  \<open>parseIPv4Fields\<close>: the previous character (\<open>None\<close> at the start), the field's value and number of
  digits, the number of complete fields.
\<close>

fun ipv4_fields :: "char option \<Rightarrow> nat \<Rightarrow> nat \<Rightarrow> nat \<Rightarrow> string \<Rightarrow> bool" where
  "ipv4_fields prev val dig pos [] = (\<not> pos < 3)"
| "ipv4_fields prev val dig pos (c # cs) =
     (if is_digit c then
        (if dig = 1 \<and> val = 0 then False
         else (let v = val * 10 + digit_value c in
               if v > 255 then False else ipv4_fields (Some c) v (dig + 1) pos cs))
      else if c = CHR ''.'' then
        (if prev = None \<or> cs = [] \<or> prev = Some (CHR ''.'') then False
         else if pos = 3 then False
         else ipv4_fields (Some c) 0 0 (pos + 1) cs)
      else False)"

definition parse_ipv4 :: "string \<Rightarrow> bool" where
  "parse_ipv4 s = (s \<noteq> [] \<and> ipv4_fields None 0 0 0 s)"

section \<open>IPv6\<close>

definition is_hex :: "char \<Rightarrow> bool" where
  "is_hex c =
     (let n = (of_char c :: nat) in 48 \<le> n \<and> n \<le> 57 \<or> 65 \<le> n \<and> n \<le> 70 \<or> 97 \<le> n \<and> n \<le> 102)"

text \<open>
  The loop of \<open>parseIPv6\<close>: \<open>i\<close> bytes are filled, \<open>el\<close> tells whether there was an ellipsis. The result
  is the number of bytes filled and whether there was an ellipsis, when the whole string was used.
  Every round fills two bytes, so \<open>16 - i\<close> bounds the recursion.
\<close>

function ipv6_groups :: "nat \<Rightarrow> bool \<Rightarrow> string \<Rightarrow> (nat \<times> bool) option" where
  "ipv6_groups i el s =
     (if \<not> i < 16 then (if s = [] then Some (i, el) else None)
      else (let digits = takeWhile is_hex s; rest = dropWhile is_hex s in
        if length digits > 4 \<or> digits = [] then None
        else (case rest of
            [] \<Rightarrow> Some (i + 2, el)
          | c # cs \<Rightarrow>
              if c = CHR ''.'' then
                (if \<not> el \<and> i \<noteq> 12 \<or> i + 4 > 16 then None
                 else if ipv4_fields None 0 0 0 s then Some (i + 4, el) else None)
              else if c \<noteq> CHR '':'' \<or> cs = [] then None
              else if hd cs = CHR '':'' then
                (if el then None
                 else if tl cs = [] then Some (i + 2, True)
                 else ipv6_groups (i + 2) True (tl cs))
              else ipv6_groups (i + 2) el cs)))"
  by pat_completeness auto
termination by (relation "measure (\<lambda>(i, el, s). 16 - i)") auto

declare ipv6_groups.simps [simp del]

definition parse_ipv6 :: "string \<Rightarrow> bool" where
  "parse_ipv6 s =
     (if has_prefix ''::'' s \<and> length s = 2 then True
      else (case (if has_prefix ''::'' s then ipv6_groups 0 True (drop 2 s) else ipv6_groups 0 False s) of
          None \<Rightarrow> False
        | Some (i, el) \<Rightarrow> (if i < 16 then el else \<not> el)))"

text \<open>\<open>netip.ParseAddr\<close> decides by the first dot, colon or percent sign. A zone makes \<open>ParseIP\<close> fail.\<close>

definition parse_ip :: "string \<Rightarrow> bool" where
  "parse_ip s =
     (case find (\<lambda>c. c = CHR ''.'' \<or> c = CHR '':'' \<or> c = CHR ''%'') s of
        None \<Rightarrow> False
      | Some c \<Rightarrow>
          if c = CHR ''.'' then parse_ipv4 s
          else if c = CHR '':'' then CHR ''%'' \<notin> set s \<and> parse_ipv6 s
          else False)"

section \<open>The alphabet of an address\<close>

definition ip_char :: "char \<Rightarrow> bool" where
  "ip_char c \<longleftrightarrow> is_hex c \<or> c = CHR ''.'' \<or> c = CHR '':''"

lemma digit_is_hex: "is_digit c \<Longrightarrow> is_hex c"
  by (auto simp: is_digit_def is_hex_def Let_def)

lemma ipv4_fields_chars: "ipv4_fields prev val dig pos s \<Longrightarrow> c \<in> set s \<Longrightarrow> ip_char c"
  by (induction prev val dig pos s rule: ipv4_fields.induct)
     (auto simp: ip_char_def digit_is_hex Let_def split: if_splits)

lemma ipv6_groups_chars: "ipv6_groups i el s = Some r \<Longrightarrow> c \<in> set s \<Longrightarrow> ip_char c"
proof (induction i el s rule: ipv6_groups.induct)
  case (1 i el s)
  show ?case
  proof (cases "i < 16")
    case False
    with 1 show ?thesis by (simp add: ipv6_groups.simps [of i el s] split: if_splits)
  next
    case True
    let ?ds = "takeWhile is_hex s" and ?rest = "dropWhile is_hex s"
    have parts: "s = ?ds @ ?rest" by simp
    have hex: "d \<in> set ?ds \<Longrightarrow> ip_char d" for d by (auto simp: ip_char_def dest: set_takeWhileD)
    have ok: "\<not> (length ?ds > 4 \<or> ?ds = [])"
      using 1(3) True by (auto simp: ipv6_groups.simps [of i el s] Let_def split: if_splits)
    show ?thesis
    proof (cases ?rest)
      case Nil
      then have "c \<in> set ?ds" using 1(4) parts by (metis append_Nil2)
      then show ?thesis by (rule hex)
    next
      case (Cons x xs)
      have eq: "ipv6_groups i el s =
          (if x = CHR ''.'' then
             (if \<not> el \<and> i \<noteq> 12 \<or> i + 4 > 16 then None
              else if ipv4_fields None 0 0 0 s then Some (i + 4, el) else None)
           else if x \<noteq> CHR '':'' \<or> xs = [] then None
           else if hd xs = CHR '':'' then
             (if el then None
              else if tl xs = [] then Some (i + 2, True)
              else ipv6_groups (i + 2) True (tl xs))
           else ipv6_groups (i + 2) el xs)"
        using True ok Cons by (simp add: ipv6_groups.simps [of i el s] Let_def)
      have mem: "c \<in> set ?ds \<or> c = x \<or> c \<in> set xs" using 1(4) parts Cons
        by (metis Un_iff set_ConsD set_append)
      show ?thesis
      proof (cases "x = CHR ''.''")
        case True
        with eq 1(3) have "ipv4_fields None 0 0 0 s" by (simp split: if_splits)
        then show ?thesis using 1(4) by (rule ipv4_fields_chars)
      next
        case False
        with eq 1(3) have colon: "x = CHR '':''" "xs \<noteq> []" by (auto split: if_splits)
        have tail: "ip_char c" if "c \<in> set xs"
        proof (cases "hd xs = CHR '':''")
          case True
          with that colon(2) have "c = CHR '':'' \<or> c \<in> set (tl xs)" by (cases xs) auto
          moreover have "ip_char c" if "c \<in> set (tl xs)"
            using 1(1) [OF _ _ _ _ Cons False _ True] 1(3) that eq colon \<open>i < 16\<close> ok False True
            by (auto split: if_splits)
          ultimately show ?thesis by (auto simp: ip_char_def)
        next
          case False
          then show ?thesis
            using 1(2) [OF _ _ _ _ Cons \<open>x \<noteq> CHR ''.''\<close> _ False] 1(3) that eq colon \<open>i < 16\<close> ok \<open>x \<noteq> CHR ''.''\<close>
            by auto
        qed
        with mem colon hex show ?thesis by (auto simp: ip_char_def)
      qed
    qed
  qed
qed

lemma parse_ip_chars:
  assumes "parse_ip s" and "c \<in> set s"
  shows "ip_char c"
proof -
  consider "parse_ipv4 s" | "parse_ipv6 s"
    using assms(1) by (auto simp: parse_ip_def split: option.splits if_splits)
  then show ?thesis
  proof cases
    case 1
    then show ?thesis using assms(2) by (auto simp: parse_ipv4_def intro: ipv4_fields_chars)
  next
    case 2
    show ?thesis
    proof (cases "has_prefix ''::'' s")
      case True
      then obtain t where s: "s = CHR '':'' # CHR '':'' # t" by (cases s; cases "tl s") (auto simp: has_prefix_def)
      show ?thesis
      proof (cases "t = []")
        case True
        with s assms(2) show ?thesis by (auto simp: ip_char_def)
      next
        case False
        with 2 s True obtain r where "ipv6_groups 0 True t = Some r"
          by (auto simp: parse_ipv6_def split: option.splits)
        then have "c \<in> set t \<Longrightarrow> ip_char c" by (rule ipv6_groups_chars)
        with s assms(2) show ?thesis by (auto simp: ip_char_def)
      qed
    next
      case False
      with 2 obtain r where "ipv6_groups 0 False s = Some r"
        by (auto simp: parse_ipv6_def split: option.splits)
      then show ?thesis using assms(2) by (rule ipv6_groups_chars)
    qed
  qed
qed

lemma ip_char_not_slash: "\<not> ip_char (CHR ''/'')"
  by (simp add: ip_char_def is_hex_def)

end
