(* ===== verification/AzureTunnel.thy ===== *)
theory AzureTunnel
  imports AzureSession AzureStream GoNet Codec
begin

text \<open>
  \<open>internal/azurebastion/tunnel.go\<close> and \<open>server.go\<close>: validating a tunnel's configuration, checking the
  Bastion host, and the life of the tunnel. \<open>arm.ParseResourceID\<close> and the ARM client belong to the
  Azure SDK: a parameter and an answer.
\<close>

section \<open>Configuration\<close>

record azure_config =
  BastionHostID :: string
  TargetResourceID :: string
  TargetIPAddress :: string
  TargetPort :: int
  LocalHost :: string
  LocalPort :: int

text \<open>The JSON form, with the names of the field tags; \<open>omitempty\<close> leaves out the empty target fields.\<close>

definition omit_empty :: "string \<Rightarrow> string \<Rightarrow> (string \<times> json) list" where
  "omit_empty name s = (if s = [] then [] else [(name, JStr s)])"

definition azure_json :: "azure_config \<Rightarrow> json" where
  "azure_json c = JObj
     ([(''bastion_host_id'', JStr (BastionHostID c))] @ omit_empty ''target_resource_id'' (TargetResourceID c) @
      omit_empty ''target_ip_address'' (TargetIPAddress c) @
      [(''target_port'', json_int (TargetPort c)), (''local_host'', JStr (LocalHost c)), (''local_port'', json_int (LocalPort c))])"

definition empty_azure_config :: azure_config where
  "empty_azure_config = \<lparr>BastionHostID = [], TargetResourceID = [], TargetIPAddress = [], TargetPort = 0, LocalHost = [], LocalPort = 0\<rparr>"

definition azure_fields :: "azure_config fields" where
  "azure_fields =
     [(''bastion_host_id'', string_field (\<lambda>v c. c\<lparr>BastionHostID := v\<rparr>)),
      (''target_resource_id'', string_field (\<lambda>v c. c\<lparr>TargetResourceID := v\<rparr>)),
      (''target_ip_address'', string_field (\<lambda>v c. c\<lparr>TargetIPAddress := v\<rparr>)),
      (''target_port'', int_field (\<lambda>v c. c\<lparr>TargetPort := v\<rparr>)),
      (''local_host'', string_field (\<lambda>v c. c\<lparr>LocalHost := v\<rparr>)),
      (''local_port'', int_field (\<lambda>v c. c\<lparr>LocalPort := v\<rparr>))]"

definition azure_encodable :: "azure_config \<Rightarrow> bool" where
  "azure_encodable c \<longleftrightarrow> list_all utf8 [BastionHostID c, TargetResourceID c, TargetIPAddress c, LocalHost c] \<and>
     in_int64 (TargetPort c) \<and> in_int64 (LocalPort c)"

interpretation azure_codec: forked_tunnel azure_json azure_fields empty_azure_config azure_encodable "\<lambda>c. c" AzureBastion
proof
  fix c :: azure_config
  show "azure_encodable c \<Longrightarrow> printable (azure_json c)" by (simp add: azure_json_def azure_encodable_def omit_empty_def)
  show "depth (azure_json c) \<le> 4" by (simp add: azure_json_def omit_empty_def)
  show "azure_encodable c \<Longrightarrow> decode_struct azure_fields (azure_json c) empty_azure_config = (c, None)"
    by (auto simp: azure_json_def azure_encodable_def omit_empty_def decode_struct_def decode_member_def field_of_def
        azure_fields_def empty_azure_config_def)
qed

record resource_id =
  SubscriptionID :: string
  ResourceGroupName :: string
  ResourceName :: string
  ResourceType :: string

record tunnel_plan =
  tp_bastion :: resource_id
  tp_target :: string
  tp_hostname :: string
  tp_target_port :: int
  tp_local_host :: string
  tp_local_port :: int

definition DefaultLocalHost :: string where "DefaultLocalHost = ''localhost''"
definition bastionResourceType :: string where "bastionResourceType = ''Microsoft.Network/bastionHosts''"

definition parseBastionHostID :: "(string \<Rightarrow> resource_id result) \<Rightarrow> string \<Rightarrow> resource_id result" where
  "parseBastionHostID parse i =
     (let bad = ErrNew ''bastion_host_id must identify a Microsoft.Network/bastionHosts resource'' in
      case parse i of
        Inl e \<Rightarrow> Inl bad
      | Inr p \<Rightarrow>
          if SubscriptionID p = [] \<or> ResourceGroupName p = [] \<or> ResourceName p = [] \<or>
             \<not> equal_fold_ascii (ResourceType p) bastionResourceType
          then Inl bad else Inr p)"

definition connect_id :: "resource_id \<Rightarrow> string \<Rightarrow> string" where
  "connect_id b ip =
     ''/subscriptions/'' @ SubscriptionID b @ ''/resourceGroups/'' @ ResourceGroupName b @
     ''/providers/Microsoft.Network/bh-hostConnect/'' @ ip"

text \<open>The target: \<open>TargetResourceID\<close> and \<open>Hostname\<close> of the plan.\<close>

definition resolve_target :: "(string \<Rightarrow> resource_id result) \<Rightarrow> azure_config \<Rightarrow> resource_id \<Rightarrow> bool \<Rightarrow> (string \<times> string) result" where
  "resolve_target parse c b hasResource =
     (if hasResource then
        bind_res (wrapping ''target_resource_id'' (parse (TargetResourceID c))) (\<lambda>t.
          if ResourceName t = []
          then Inl (ErrNew (''target_resource_id: missing resource name in '' @ quote (TargetResourceID c)))
          else Inr (TargetResourceID c, []))
      else if \<not> parse_ip (TargetIPAddress c)
      then Inl (ErrNew ''target_ip_address must be a valid IPv4 or IPv6 address'')
      else Inr (connect_id b (TargetIPAddress c), TargetIPAddress c))"

definition resolve :: "(string \<Rightarrow> resource_id result) \<Rightarrow> azure_config \<Rightarrow> tunnel_plan result" where
  "resolve parse c =
     bind_res (parseBastionHostID parse (BastionHostID c)) (\<lambda>b.
       let hasResource = (trim_space (TargetResourceID c) \<noteq> []);
           hasIP = (trim_space (TargetIPAddress c) \<noteq> []);
           localHost = (if trim_space (LocalHost c) = [] then DefaultLocalHost else trim_space (LocalHost c)) in
       if hasResource = hasIP
       then Inl (ErrNew ''exactly one of target_resource_id or target_ip_address must be set'')
       else bind_res (resolve_target parse c b hasResource) (\<lambda>(target, host).
         if TargetPort c < 1 \<or> TargetPort c > 65535 then Inl (ErrNew ''target_port must be between 1 and 65535'')
         else if LocalPort c < 1 \<or> LocalPort c > 65535 then Inl (ErrNew ''local_port must be between 1 and 65535'')
         else if hasIP \<and> TargetPort c \<noteq> 22 \<and> TargetPort c \<noteq> 3389
         then Inl (ErrNew ''target_port must be 22 or 3389 when target_ip_address is set'')
         else Inr \<lparr>tp_bastion = b, tp_target = target, tp_hostname = host, tp_target_port = TargetPort c,
                   tp_local_host = localHost, tp_local_port = LocalPort c\<rparr>))"

definition azure_validate :: "(string \<Rightarrow> resource_id result) \<Rightarrow> azure_config \<Rightarrow> unit result" where
  "azure_validate parse c = bind_res (resolve parse c) (\<lambda>p. Inr ())"

section \<open>The Bastion host\<close>

record bastion_properties =
  bp_dns :: "string option"
  bp_tunneling :: "bool option"
  bp_ip_connect :: "bool option"

record bastion_response =
  br_sku :: "string option option"
  br_properties :: "bastion_properties option"

record bastion_info =
  DNSName :: string
  SKU :: string
  EnableTunneling :: bool
  EnableIPConnect :: bool

definition or_zero :: "'a \<Rightarrow> 'a option \<Rightarrow> 'a" where
  "or_zero z x = (case x of None \<Rightarrow> z | Some y \<Rightarrow> y)"

text \<open>Nil pointers in the response leave the zero values.\<close>

definition discoverBastion :: "(string \<Rightarrow> string \<Rightarrow> bastion_response result) \<Rightarrow> resource_id \<Rightarrow> bastion_info result" where
  "discoverBastion get i =
     bind_res (wrapping ''read Azure Bastion resource'' (get (ResourceGroupName i) (ResourceName i))) (\<lambda>r.
       let props = br_properties r in
       Inr \<lparr>DNSName = (case props of None \<Rightarrow> [] | Some p \<Rightarrow> or_zero [] (bp_dns p)),
            SKU = or_zero [] (or_zero None (br_sku r)),
            EnableTunneling = (case props of None \<Rightarrow> False | Some p \<Rightarrow> or_zero False (bp_tunneling p)),
            EnableIPConnect = (case props of None \<Rightarrow> False | Some p \<Rightarrow> or_zero False (bp_ip_connect p))\<rparr>)"

definition validateBastion :: "bastion_info \<Rightarrow> bool \<Rightarrow> unit result" where
  "validateBastion info usesIPConnect =
     (if SKU info \<noteq> ''Standard'' \<and> SKU info \<noteq> ''Premium'' then
        Inl (ErrNew (''unsupported Azure Bastion SKU '' @ quote (SKU info) @ '': must be Standard or Premium''))
      else if \<not> EnableTunneling info then Inl (ErrNew ''native client tunneling is not enabled on the Azure Bastion host'')
      else if usesIPConnect \<and> \<not> EnableIPConnect info then
        Inl (ErrNew ''IP Connect is not enabled on the Azure Bastion host'')
      else if DNSName info = [] then Inl (ErrNew ''no DNS endpoint on the Azure Bastion resource'')
      else Inr ())"

section \<open>One local connection\<close>

text \<open>\<open>server.handle\<close>: open a session for the connection, then relay with the grace period of the drain.\<close>

datatype 'c handle_result = ConnectionFailed go_error | RelayDraining 'c nat

definition drainGrace :: nat where "drainGrace = 5"

definition azure_handle :: "int \<Rightarrow> access_token result \<Rightarrow> http_reply \<Rightarrow>
    (string \<Rightarrow> 'c result) \<Rightarrow> session_client \<Rightarrow> session_event list \<times> 'c handle_result \<times> session_client" where
  "azure_handle now credential reply dial c =
     (case session_open now credential reply dial c of
        (evs, Inl e, c1) \<Rightarrow> (evs, ConnectionFailed e, c1)
      | (evs, Inr conn, c1) \<Rightarrow> (evs, RelayDraining conn drainGrace, c1))"

section \<open>The tunnel\<close>

definition azure_log_name :: "tunnel_plan \<Rightarrow> string" where
  "azure_log_name plan =
     ''azure-bastion-tunnel-'' @ ResourceName (tp_bastion plan) @ ''-'' @ itoa (tp_target_port plan) @ ''.log''"

definition fork_azure_tunnel :: "(string \<Rightarrow> resource_id result) \<Rightarrow> 'st fork_world \<Rightarrow> azure_config \<Rightarrow>
    (fork_event list \<times> int result) option" where
  "fork_azure_tunnel parse w cfg =
     (case resolve parse cfg of
        Inl e \<Rightarrow> Some ([], Inl e)
      | Inr plan \<Rightarrow> ForkTunnel w (TunnelType AzureBastion) (azure_log_name plan) (Inr (print_json (azure_json cfg))))"

datatype azure_event =
    ReadBastion string string
  | NewSession string
  | ListenLocally string
  | NotifyInterrupts
  | ReportReady
  | ServeTunnel
  | CloseTunnelServer
  | StopInterrupts
  | CloseListening
  | CleanUpSession

record azure_world =
  aw_parse_id :: "string \<Rightarrow> resource_id result"
  aw_watch :: "unit result"
  aw_credential :: "unit result"
  aw_arm_client :: "unit result"
  aw_get :: "string \<Rightarrow> string \<Rightarrow> bastion_response result"
  aw_parse_url :: "string \<Rightarrow> (string \<times> string) option"
  aw_never :: int
  aw_listen :: "unit result"
  aw_ready :: "unit result"
  aw_serve :: "unit result"

text \<open>\<open>StartRemoteTunnel\<close>; the four deferred calls run last to first on every path that reached them.\<close>

definition start_azure_tunnel :: "azure_world \<Rightarrow> string \<Rightarrow> (azure_event, unit) eff" where
  "start_azure_tunnel w configJSON =
     and_then (pure_res (unmarshal azure_fields empty_azure_config configJSON)) (\<lambda>cfg.
     and_then (pure_res (resolve (aw_parse_id w) cfg)) (\<lambda>plan.
     and_then (pure_res (aw_watch w)) (\<lambda>u.
     and_then (pure_res (wrapping ''initialize Azure credential chain'' (aw_credential w))) (\<lambda>u.
     and_then (pure_res (wrapping ''initialize Azure Bastion ARM client'' (aw_arm_client w))) (\<lambda>u.
     and_then (perform (ReadBastion (ResourceGroupName (tp_bastion plan)) (ResourceName (tp_bastion plan)))
                (discoverBastion (aw_get w) (tp_bastion plan))) (\<lambda>info.
     and_then (pure_res (validateBastion info (tp_hostname plan \<noteq> []))) (\<lambda>u.
     and_then (perform (NewSession (DNSName info))
                (newSessionClient (aw_parse_url w) (DNSName info) (tp_target plan) (tp_target_port plan)
                   (tp_hostname plan) (aw_never w))) (\<lambda>session.
     deferred [CleanUpSession] (
       and_then (perform (ListenLocally (join_host_port (tp_local_host plan) (itoa (tp_local_port plan))))
                  (wrapping ''listen on local address'' (aw_listen w))) (\<lambda>u.
       and_then (perform NotifyInterrupts (Inr ())) (\<lambda>u.
       deferred [CloseTunnelServer, StopInterrupts, CloseListening] (
         and_then (perform ReportReady (aw_ready w)) (\<lambda>u.
         perform ServeTunnel (aw_serve w)))))))))))))) "

section \<open>Properties\<close>

lemma trim_space_nil [simp]: "trim_space [] = []"
  by code_simp

text \<open>C18: A plan is well formed. Whenever a configuration resolves, the Bastion ID names a Bastion host,
  both ports are in range, exactly one target was given, the local host is not empty, and an IP
  target is restricted to ports 22 and 3389.\<close>

theorem azure_plan_wellformed:
  assumes "resolve parse c = Inr plan"
  shows "parse (BastionHostID c) = Inr (tp_bastion plan) \<and>
    equal_fold_ascii (ResourceType (tp_bastion plan)) bastionResourceType \<and> ResourceName (tp_bastion plan) \<noteq> [] \<and>
    1 \<le> tp_target_port plan \<and> tp_target_port plan \<le> 65535 \<and> 1 \<le> tp_local_port plan \<and> tp_local_port plan \<le> 65535 \<and>
    tp_local_host plan \<noteq> [] \<and>
    (trim_space (TargetResourceID c) = []) \<noteq> (trim_space (TargetIPAddress c) = []) \<and>
    (if tp_hostname plan = [] then tp_target plan = TargetResourceID c \<and> trim_space (TargetIPAddress c) = []
     else tp_hostname plan = TargetIPAddress c \<and> parse_ip (TargetIPAddress c) \<and> tp_target_port plan \<in> {22, 3389} \<and>
       tp_target plan = connect_id (tp_bastion plan) (TargetIPAddress c))"
proof -
  from assms obtain b where b: "parse (BastionHostID c) = Inr b" "ResourceName b \<noteq> []"
      "equal_fold_ascii (ResourceType b) bastionResourceType" "parseBastionHostID parse (BastionHostID c) = Inr b"
    by (auto simp: resolve_def parseBastionHostID_def bind_res_Inr Let_def split: sum.splits if_splits)
  have "parse_ip [] = False" by (simp add: parse_ip_def)
  with assms b show ?thesis
    by (auto simp: resolve_def resolve_target_def bind_res_Inr Let_def DefaultLocalHost_def split: if_splits)
qed

definition plain_parse :: "string \<Rightarrow> resource_id result" where
  "plain_parse i = Inr \<lparr>SubscriptionID = ''s'', ResourceGroupName = ''g'', ResourceName = ''bastion'',
     ResourceType = ''microsoft.network/BASTIONHOSTS''\<rparr>"

definition ip_config :: azure_config where
  "ip_config = \<lparr>BastionHostID = ''/b'', TargetResourceID = [], TargetIPAddress = ''10.0.0.4'', TargetPort = 22,
     LocalHost = '' '', LocalPort = 5000\<rparr>"

lemma ip_config_resolves:
  "resolve plain_parse ip_config = Inr \<lparr>tp_bastion = \<lparr>SubscriptionID = ''s'', ResourceGroupName = ''g'',
      ResourceName = ''bastion'', ResourceType = ''microsoft.network/BASTIONHOSTS''\<rparr>,
     tp_target = ''/subscriptions/s/resourceGroups/g/providers/Microsoft.Network/bh-hostConnect/10.0.0.4'',
     tp_hostname = ''10.0.0.4'', tp_target_port = 22, tp_local_host = ''localhost'', tp_local_port = 5000\<rparr>"
  by code_simp

theorem azure_plan_wellformed_witness:
  "\<exists>plan. resolve plain_parse ip_config = Inr plan \<and> tp_target_port plan \<in> {22, 3389} \<and> 1 \<le> tp_local_port plan"
  using azure_plan_wellformed [OF ip_config_resolves] ip_config_resolves by auto

text \<open>C38: An IP target cannot reshape the resource it is embedded in. The address has hexadecimal digits,
  dots and colons only, so the synthetic ID ends in exactly one segment after \<open>bh-hostConnect\<close>,
  and it is the address itself.\<close>

theorem ip_target_one_segment:
  assumes "resolve parse c = Inr plan" and "tp_hostname plan \<noteq> []"
  shows "set (tp_hostname plan) \<subseteq> {ch. ip_char ch} \<and>
    last (split_on (CHR ''/'') (tp_target plan)) = tp_hostname plan \<and>
    split_on (CHR ''/'') (tp_target plan) =
      split_on (CHR ''/'') (''/subscriptions/'' @ SubscriptionID (tp_bastion plan) @ ''/resourceGroups/'' @
        ResourceGroupName (tp_bastion plan) @ ''/providers/Microsoft.Network/bh-hostConnect'') @ [tp_hostname plan]"
proof -
  from assms have ip: "parse_ip (tp_hostname plan)" "tp_target plan = connect_id (tp_bastion plan) (tp_hostname plan)"
    by (auto simp: resolve_def resolve_target_def bind_res_Inr Let_def split: if_splits)
  have chars: "set (tp_hostname plan) \<subseteq> {ch. ip_char ch}" using parse_ip_chars [OF ip(1)] by blast
  then have no: "CHR ''/'' \<notin> set (tp_hostname plan)" using ip_char_not_slash by blast
  let ?pre = "''/subscriptions/'' @ SubscriptionID (tp_bastion plan) @ ''/resourceGroups/'' @
        ResourceGroupName (tp_bastion plan) @ ''/providers/Microsoft.Network/bh-hostConnect''"
  have "tp_target plan = ?pre @ CHR ''/'' # tp_hostname plan" by (simp add: ip(2) connect_id_def)
  then have "split_on (CHR ''/'') (tp_target plan) = split_on (CHR ''/'') ?pre @ [tp_hostname plan]"
    by (simp only: split_on_append split_on_word [OF no])
  with chars show ?thesis by simp
qed

theorem ip_target_one_segment_witness: "\<exists>plan. resolve plain_parse ip_config = Inr plan \<and> set (tp_hostname plan) \<subseteq> {ch. ip_char ch}"
  using ip_target_one_segment [OF ip_config_resolves] ip_config_resolves by auto

text \<open>C19: The tunnel is not opened against an unsuitable Bastion, and what it took is given back in
  order. Readiness is reported only when the configuration resolved, the Bastion host is valid for
  the target and the listener is open; and every run that created a session client ends with the
  session clean-up, after closing the server, the interrupt hook and the listener, in this order,
  when the listener was opened.\<close>

theorem azure_tunnel_ready_and_released:
  assumes "unmarshal azure_fields empty_azure_config text = Inr cfg" and "resolve (aw_parse_id w) cfg = Inr plan"
    and "is_ok (aw_watch w)" and "is_ok (aw_credential w)" and "is_ok (aw_arm_client w)"
  shows "(ReportReady \<in> set (fst (start_azure_tunnel w text)) \<longleftrightarrow>
      (\<exists>info. discoverBastion (aw_get w) (tp_bastion plan) = Inr info \<and>
         validateBastion info (tp_hostname plan \<noteq> []) = Inr () \<and> is_ok (aw_listen w) \<and>
         is_ok (newSessionClient (aw_parse_url w) (DNSName info) (tp_target plan) (tp_target_port plan)
            (tp_hostname plan) (aw_never w)))) \<and>
    (\<forall>info. discoverBastion (aw_get w) (tp_bastion plan) = Inr info \<longrightarrow>
       validateBastion info (tp_hostname plan \<noteq> []) = Inr () \<longrightarrow>
       is_ok (newSessionClient (aw_parse_url w) (DNSName info) (tp_target plan) (tp_target_port plan)
            (tp_hostname plan) (aw_never w)) \<longrightarrow>
       (\<exists>us. fst (start_azure_tunnel w text) = us @
         (if is_ok (aw_listen w) then [CloseTunnelServer, StopInterrupts, CloseListening] else []) @ [CleanUpSession]))"
proof -
  note pre = assms
  obtain u1 u2 u3 where ok: "aw_watch w = Inr u1" "aw_credential w = Inr u2" "aw_arm_client w = Inr u3"
    using assms(3-5) by (auto simp: is_ok_def split: sum.splits)
  show ?thesis
  proof (cases "discoverBastion (aw_get w) (tp_bastion plan)")
    case (Inl e)
    with pre ok show ?thesis by (simp add: start_azure_tunnel_def result_simps)
  next
    case d: (Inr info)
    show ?thesis
    proof (cases "validateBastion info (tp_hostname plan \<noteq> [])")
      case (Inl e)
      with pre ok d show ?thesis by (simp add: start_azure_tunnel_def result_simps)
    next
      case v: (Inr u)
      show ?thesis
      proof (cases "newSessionClient (aw_parse_url w) (DNSName info) (tp_target plan) (tp_target_port plan)
            (tp_hostname plan) (aw_never w)")
        case (Inl e)
        with pre ok d v show ?thesis by (simp add: start_azure_tunnel_def result_simps)
      next
        case s: (Inr session)
        from pre ok d v s show ?thesis
          by (cases "aw_listen w"; cases "aw_ready w") (simp_all add: start_azure_tunnel_def result_simps)
      qed
    qed
  qed
qed

definition azure_sample :: azure_world where
  "azure_sample = \<lparr>aw_parse_id = plain_parse, aw_watch = Inr (), aw_credential = Inr (), aw_arm_client = Inr (),
     aw_get = (\<lambda>g n. Inr \<lparr>br_sku = Some (Some ''Standard''), br_properties = Some \<lparr>bp_dns = Some ''b.example'',
        bp_tunneling = Some True, bp_ip_connect = Some True\<rparr>\<rparr>),
     aw_parse_url = (\<lambda>u. Some (''https'', ''b.example'')), aw_never = 0, aw_listen = Inl ErrEOF, aw_ready = Inr (),
     aw_serve = Inr ()\<rparr>"

lemma ip_config_text: "unmarshal azure_fields empty_azure_config (print_json (azure_json ip_config)) = Inr ip_config"
  by (rule azure_codec.unmarshal_marshal) (simp add: azure_encodable_def ip_config_def in_int64_def int64_min_def int64_max_def)

theorem azure_tunnel_ready_and_released_witness:
  "\<exists>us. fst (start_azure_tunnel azure_sample (print_json (azure_json ip_config))) = us @ [CleanUpSession]"
proof -
  have "resolve (aw_parse_id azure_sample) ip_config = Inr (projr (resolve plain_parse ip_config))"
    by (simp add: azure_sample_def ip_config_resolves)
  from azure_tunnel_ready_and_released [OF ip_config_text this, THEN conjunct2] show ?thesis
    by (simp add: azure_sample_def ip_config_resolves discoverBastion_def or_zero_def validateBastion_def
        newSessionClient_def)
qed

end
