(* ===== verification/AzureProcess.thy ===== *)
theory AzureProcess
  imports Serving AzureTunnel
begin

text \<open>
  The serving Azure Bastion tunnel as one system: the connection server, the session client, one
  handler with its relay for every local connection, and the deferred calls of \<open>StartRemoteTunnel\<close> in
  \<open>internal/azurebastion/tunnel.go\<close>. Its relays bound their drain and its remote streams have no
  half-close, so the whole process ends after an interrupt that \<open>Serve\<close> still listens to.
\<close>

section \<open>State\<close>

text \<open>
  A handler (\<open>server.handle\<close>, through \<open>sessionClient.open\<close>): not running; asking for an access token;
  negotiating with it; dialling the WebSocket of a token; relaying; about to return.
  \<open>StartRemoteTunnel\<close>: in \<open>server.Serve\<close>; in the deferred \<open>server.Close()\<close>; about to run the deferred
  \<open>session.close()\<close>; returned.
\<close>

datatype bastion_pc =
    BAway
  | BCredential
  | BNegotiate string
  | BDial token_response
  | BRelay relay
  | BEnd

datatype azure_pc = AzServing | AzCloseServer | AzCleanUp | AzExited

text \<open>\<open>az_sent\<close> holds the requests of the session so far.\<close>

record azure_process =
  az_server :: conn_server
  az_session :: session_client
  az_sent :: "session_event list"
  az_handler :: "nat \<Rightarrow> bastion_pc"
  az_main :: azure_pc

text \<open>\<open>server.Serve\<close> is entered with a session that holds no token.\<close>

definition azure_init :: "azure_process \<Rightarrow> bool" where
  "azure_init s \<longleftrightarrow>
     conn_init (az_server s) \<and> authToken (az_session s) = [] \<and> nodeID (az_session s) = [] \<and> az_sent s = [] \<and>
     (\<forall>c. az_handler s c = BAway) \<and> az_main s = AzServing"

definition bastion_to :: "nat \<Rightarrow> bastion_pc \<Rightarrow> azure_process \<Rightarrow> azure_process" where
  "bastion_to c b s = s\<lparr>az_handler := (az_handler s)(c := b)\<rparr>"

definition azure_server :: "conn_label \<Rightarrow> azure_process \<Rightarrow> azure_process option" where
  "azure_server l s = map_option (\<lambda>v. s\<lparr>az_server := v\<rparr>) (conn_action l (az_server s))"

text \<open>The requests and the new state of an operation of the session.\<close>

definition azure_request :: "session_event list \<Rightarrow> session_client \<Rightarrow> azure_process \<Rightarrow> azure_process" where
  "azure_request evs c s = s\<lparr>az_session := c, az_sent := az_sent s @ evs\<rparr>"

section \<open>The server's side\<close>

fun bastion_closed :: "bastion_pc \<Rightarrow> bastion_pc" where
  "bastion_closed (BRelay r) = BRelay (close_local r)"
| "bastion_closed b = b"

fun azure_effect :: "conn_label \<Rightarrow> azure_process \<Rightarrow> azure_process" where
  "azure_effect (LCloseOne k c) s = bastion_to c (bastion_closed (az_handler s c)) s"
| "azure_effect l s = s"

section \<open>The handlers\<close>

definition az_start :: "nat \<Rightarrow> azure_process \<Rightarrow> azure_process option" where
  "az_start c s =
     (if az_handler s c = BAway \<and> handler_at (az_server s) c = HRunning
      then Some (bastion_to c BCredential s) else None)"

text \<open>Each of the two mutexes of the session is held over one request, so a request is one action.\<close>

definition az_credential :: "nat \<Rightarrow> int \<Rightarrow> access_token result \<Rightarrow> azure_process \<Rightarrow> azure_process option" where
  "az_credential c now credential s =
     (if az_handler s c = BCredential
      then (case accessToken now credential (az_session s) of
          (evs, r, session) \<Rightarrow>
            Some (bastion_to c (case r of Inl e \<Rightarrow> BEnd | Inr access \<Rightarrow> BNegotiate access)
              (azure_request evs session s)))
      else None)"

definition az_negotiate :: "nat \<Rightarrow> http_reply \<Rightarrow> azure_process \<Rightarrow> azure_process option" where
  "az_negotiate c reply s =
     (case az_handler s c of
        BNegotiate access \<Rightarrow>
          (case negotiate access reply (az_session s) of
             (evs, r, session) \<Rightarrow>
               Some (bastion_to c (case r of Inl e \<Rightarrow> BEnd | Inr token \<Rightarrow> BDial token)
                 (azure_request evs session s)))
      | _ \<Rightarrow> None)"

text \<open>The WebSocket is open or not; \<open>relay\<close> then drains for at most \<open>drainGrace\<close>.\<close>

definition bastion_relay :: relay where
  "bastion_relay = RelayDrain (fresh_endpoint True False) (fresh_endpoint False True) (drainGrace > 0)"

definition az_dial :: "nat \<Rightarrow> bool \<Rightarrow> azure_process \<Rightarrow> azure_process option" where
  "az_dial c works s =
     (case az_handler s c of
        BDial token \<Rightarrow>
          Some (bastion_to c (if works then BRelay (start_relay (az_server s) c bastion_relay) else BEnd)
            (azure_request [DialWebSocket (ws_url (az_session s) token)] (az_session s) s))
      | _ \<Rightarrow> None)"

definition az_relay :: "nat \<Rightarrow> relay_label \<Rightarrow> azure_process \<Rightarrow> azure_process option" where
  "az_relay c l s =
     (case az_handler s c of
        BRelay r \<Rightarrow>
          (if l = RShutdown then None
           else map_option (\<lambda>r'. bastion_to c (BRelay r') s) (relay_action l r))
      | _ \<Rightarrow> None)"

definition az_relayed :: "nat \<Rightarrow> azure_process \<Rightarrow> azure_process option" where
  "az_relayed c s =
     (case az_handler s c of
        BRelay r \<Rightarrow> (if main_at r = MReturned then Some (bastion_to c BEnd s) else None)
      | _ \<Rightarrow> None)"

definition az_return :: "nat \<Rightarrow> azure_process \<Rightarrow> azure_process option" where
  "az_return c s =
     (if az_handler s c = BEnd then map_option (bastion_to c BAway) (azure_server (LHandlerReturn c) s) else None)"

section \<open>The deferred calls\<close>

text \<open>\<open>server.Close()\<close>, which leaves nothing to \<open>cancel()\<close> and \<open>listener.Close()\<close>; then \<open>session.close()\<close>.\<close>

definition az_serve_returned :: "azure_process \<Rightarrow> azure_process option" where
  "az_serve_returned s =
     (if az_main s = AzServing \<and> serve_returned (az_server s)
      then map_option (\<lambda>t. t\<lparr>az_main := AzCloseServer\<rparr>) (azure_server LCallerClose s) else None)"

definition az_server_closed :: "azure_process \<Rightarrow> azure_process option" where
  "az_server_closed s =
     (if az_main s = AzCloseServer \<and> closer_at (az_server s) ByCaller = CDone
      then Some (s\<lparr>az_main := AzCleanUp\<rparr>) else None)"

definition az_clean_up :: "http_reply \<Rightarrow> azure_process \<Rightarrow> azure_process option" where
  "az_clean_up reply s =
     (if az_main s = AzCleanUp
      then (case session_close reply (az_session s) of
          (evs, r, session) \<Rightarrow> Some ((azure_request evs session s)\<lparr>az_main := AzExited\<rparr>))
      else None)"

datatype azure_label =
    AzServer conn_label | AzStart nat | AzCredential nat int "access_token result" | AzNegotiate nat http_reply
  | AzDial nat bool | AzRelay nat relay_label | AzRelayed nat | AzReturn nat
  | AzServeReturned | AzServerClosed | AzCleanUpSession http_reply

fun azure_action :: "azure_label \<Rightarrow> azure_process \<Rightarrow> azure_process option" where
  "azure_action (AzServer l) s = (if server_alone l then map_option (azure_effect l) (azure_server l s) else None)"
| "azure_action (AzStart c) s = az_start c s"
| "azure_action (AzCredential c now credential) s = az_credential c now credential s"
| "azure_action (AzNegotiate c reply) s = az_negotiate c reply s"
| "azure_action (AzDial c works) s = az_dial c works s"
| "azure_action (AzRelay c l) s = az_relay c l s"
| "azure_action (AzRelayed c) s = az_relayed c s"
| "azure_action (AzReturn c) s = az_return c s"
| "azure_action AzServeReturned s = az_serve_returned s"
| "azure_action AzServerClosed s = az_server_closed s"
| "azure_action (AzCleanUpSession reply) s = az_clean_up reply s"

definition azure_step :: "azure_process \<Rightarrow> azure_label \<Rightarrow> azure_process \<Rightarrow> bool" where
  "azure_step s l t = (azure_action l s = Some t)"

lemmas azure_handler_defs = az_start_def az_credential_def az_negotiate_def az_dial_def az_relay_def
  az_relayed_def az_return_def

lemmas azure_main_defs = az_serve_returned_def az_server_closed_def az_clean_up_def

lemma azure_parts [simp]:
  "az_server (bastion_to c b s) = az_server s" "az_session (bastion_to c b s) = az_session s"
  "az_sent (bastion_to c b s) = az_sent s" "az_handler (bastion_to c b s) = (az_handler s)(c := b)"
  "az_main (bastion_to c b s) = az_main s"
  "az_server (azure_request evs x s) = az_server s" "az_session (azure_request evs x s) = x"
  "az_sent (azure_request evs x s) = az_sent s @ evs" "az_handler (azure_request evs x s) = az_handler s"
  "az_main (azure_request evs x s) = az_main s"
  by (simp_all add: bastion_to_def azure_request_def)

lemma azure_server_Some:
  "azure_server l s = Some t \<longleftrightarrow> (\<exists>v. conn_action l (az_server s) = Some v \<and> t = s\<lparr>az_server := v\<rparr>)"
  by (auto simp: azure_server_def)

section \<open>The invariant\<close>

text \<open>
  What the position of a handler says of its goroutine and, while the server has its connection
  closed, of its relay.
\<close>

definition draining :: "relay \<Rightarrow> bool" where
  "draining r \<longleftrightarrow> reach relay_init relay_step r \<and> grace r \<and> \<not> ep_half (ep r SideB)"

fun bastion_ok :: "handler_pc \<Rightarrow> bool \<Rightarrow> bastion_pc \<Rightarrow> bool" where
  "bastion_ok h sock BAway = True"
| "bastion_ok h sock (BRelay r) = (h = HRunning \<and> draining r \<and> (sock \<or> \<not> ep_open (ep r SideA)))"
| "bastion_ok h sock b = (h = HRunning)"

fun_cases bastion_ok_relayE [elim!]: "bastion_ok h sock (BRelay r)"

fun azure_main_ok :: "serve_pc \<Rightarrow> close_pc \<Rightarrow> azure_pc \<Rightarrow> bool" where
  "azure_main_ok v c AzServing = (c = CIdle)"
| "azure_main_ok v c AzCloseServer = ((\<exists>r. v = SReturned r) \<and> c \<noteq> CIdle)"
| "azure_main_ok v c m = ((\<exists>r. v = SReturned r) \<and> c = CDone)"

text \<open>The clean-up request is the last one, and leaves no token behind.\<close>

definition cleans_up :: "session_event \<Rightarrow> bool" where
  "cleans_up e = (case e of Send q \<Rightarrow> hr_method q = ''DELETE'' | _ \<Rightarrow> False)"

definition sent_ok :: "azure_pc \<Rightarrow> session_client \<Rightarrow> session_event list \<Rightarrow> bool" where
  "sent_ok m c sent =
     (if m = AzExited
      then authToken c = [] \<and> nodeID c = [] \<and>
        (\<exists>us vs. sent = us @ vs \<and> (\<forall>e \<in> set us. \<not> cleans_up e) \<and>
          (vs = [] \<or> (\<exists>token node. token \<noteq> [] \<and> vs = [Send (delete_request c token node)])))
      else (\<forall>e \<in> set sent. \<not> cleans_up e))"

definition bastions_ok :: "conn_server \<Rightarrow> (nat \<Rightarrow> bastion_pc) \<Rightarrow> bool" where
  "bastions_ok v f \<longleftrightarrow> (\<forall>c. bastion_ok (handler_at v c) (c \<in> sock_open v) (f c))"

definition azure_inv :: "azure_process \<Rightarrow> bool" where
  "azure_inv s \<longleftrightarrow>
     reach conn_init conn_step (az_server s) \<and> bastions_ok (az_server s) (az_handler s) \<and>
     azure_main_ok (serve_at (az_server s)) (closer_at (az_server s) ByCaller) (az_main s) \<and>
     sent_ok (az_main s) (az_session s) (az_sent s)"

lemma azure_invD:
  assumes "azure_inv s"
  shows "reach conn_init conn_step (az_server s)" "bastions_ok (az_server s) (az_handler s)"
    "azure_main_ok (serve_at (az_server s)) (closer_at (az_server s) ByCaller) (az_main s)"
    "sent_ok (az_main s) (az_session s) (az_sent s)" "conn_inv (az_server s)"
    "bastion_ok (handler_at (az_server s) c) (c \<in> sock_open (az_server s)) (az_handler s c)"
  using assms conns.reach_inv [of "az_server s"] by (simp_all add: azure_inv_def bastions_ok_def)

lemma bastions_upd:
  "bastions_ok v f \<Longrightarrow> bastion_ok (handler_at v c) (c \<in> sock_open v) b \<Longrightarrow> bastions_ok v (f(c := b))"
  by (simp add: bastions_ok_def)

lemma draining_closed: "draining r \<Longrightarrow> draining (close_local r)"
  by (simp add: draining_def close_local_reach)

lemma draining_step:
  assumes "draining r" and "relay_action l r = Some r'"
  shows "draining r'" and "\<not> ep_open (ep r SideA) \<Longrightarrow> \<not> ep_open (ep r' SideA)"
  using assms relay_reach [of r l r'] relay_frame [of r l r'] by (auto simp: draining_def relay_step_def)

lemma draining_start: "draining (start_relay v c bastion_relay)"
proof -
  have "relay_init bastion_relay" unfolding relay_init_def bastion_relay_def by blast
  then have "reach relay_init relay_step bastion_relay" by (rule reach_init)
  then have "draining bastion_relay"
    by (simp add: draining_def bastion_relay_def RelayDrain_def fresh_endpoint_def drainGrace_def)
  then show ?thesis by (simp add: start_relay_def draining_closed)
qed

lemma bastion_ok_frame:
  "bastion_ok h sock b \<Longrightarrow> (h = HRunning \<Longrightarrow> h' = HRunning) \<Longrightarrow> (sock \<Longrightarrow> sock') \<Longrightarrow> bastion_ok h' sock' b"
  by (cases b) auto

lemma bastion_ok_closed: "bastion_ok h sock b \<Longrightarrow> bastion_ok h False (bastion_closed b)"
  by (cases b) (auto intro: draining_closed)

lemma bastion_ok_idle: "bastion_ok h sock b \<Longrightarrow> h \<noteq> HRunning \<Longrightarrow> b = BAway"
  by (cases b) auto

text \<open>A step of the server.\<close>

lemma bastions_server:
  assumes ok: "bastions_ok v f" and step: "conn_action l v = Some v'" and alone: "server_alone l" and inv: "count_inv v"
  shows "bastions_ok v' (case l of LCloseOne k c \<Rightarrow> f(c := bastion_closed (f c)) | _ \<Rightarrow> f)" (is "bastions_ok v' ?g")
  unfolding bastions_ok_def
proof
  fix c
  have okc: "bastion_ok (handler_at v c) (c \<in> sock_open v) (f c)" using ok by (simp add: bastions_ok_def)
  show "bastion_ok (handler_at v' c) (c \<in> sock_open v') (?g c)"
  proof (cases "handler_at v c = HRunning")
    case False
    then have "f c = BAway" using okc bastion_ok_idle by blast
    then show ?thesis by (simp split: conn_label.split)
  next
    case True
    then have h': "handler_at v' c = HRunning" by (rule server_frame(4) [OF step alone])
    consider (same) "c \<in> sock_open v \<Longrightarrow> c \<in> sock_open v'" | (closed) k where "l = LCloseOne k c"
      using server_sock_frame [OF step inv h'] by blast
    then show ?thesis
    proof cases
      case closed
      then have "c \<notin> sock_open v'" using step by (auto simp: close_one_def split: close_pc.split_asm if_split_asm)
      with bastion_ok_closed [OF okc] closed True h' show ?thesis by simp
    next
      case same
      then have f: "bastion_ok (handler_at v' c) (c \<in> sock_open v') (f c)"
        by (intro bastion_ok_frame [OF okc]) (simp_all add: h')
      have "bastion_ok h False b \<Longrightarrow> bastion_ok h sock b" for h sock b by (cases b) auto
      with f bastion_ok_closed [OF f] show ?thesis by (auto split: conn_label.split)
    qed
  qed
qed

lemma azure_inv_server:
  assumes inv: "azure_inv s" and "server_alone l" and "azure_server l s = Some t"
  shows "azure_inv (azure_effect l t)"
proof -
  from assms(3) obtain v where v: "conn_action l (az_server s) = Some v" "t = s\<lparr>az_server := v\<rparr>"
    by (auto simp: azure_server_Some)
  have c: "count_inv (az_server s)" using azure_invD(5) [OF inv] by (simp add: conn_inv_def)
  have f: "az_handler (azure_effect l t) =
      (case l of LCloseOne k c \<Rightarrow> (az_handler s)(c := bastion_closed (az_handler s c)) | _ \<Rightarrow> az_handler s)"
    by (cases l) (simp_all add: v(2))
  have p: "az_server (azure_effect l t) = v" "az_session (azure_effect l t) = az_session s"
    "az_main (azure_effect l t) = az_main s" "az_sent (azure_effect l t) = az_sent s"
    by (cases l; simp add: v(2))+
  have "azure_main_ok (serve_at v) (closer_at v ByCaller) (az_main s)"
    using azure_invD(3) [OF inv] server_frame(1,2) [OF v(1)] server_frame(3) [OF v(1) assms(2)]
      caller_idle_frame [OF v(1)] by (cases "az_main s") auto
  with azure_invD(4) [OF inv] bastions_server [OF azure_invD(2) [OF inv] v(1) assms(2) c]
    server_reach [OF azure_invD(1) [OF inv] v(1)]
  show ?thesis by (simp add: azure_inv_def p f)
qed

lemma sent_ok_more:
  "sent_ok m c sent \<Longrightarrow> m \<noteq> AzExited \<Longrightarrow> \<forall>e \<in> set evs. \<not> cleans_up e \<Longrightarrow> sent_ok m c' (sent @ evs)"
  by (auto simp: sent_ok_def)

lemma azure_serving:
  assumes "azure_inv s" and "handler_at (az_server s) c = HRunning"
  shows "az_main s = AzServing"
proof (rule ccontr)
  assume "az_main s \<noteq> AzServing"
  with azure_invD(3) [OF assms(1)] obtain r where "serve_at (az_server s) = SReturned r"
    by (cases "az_main s") auto
  with returned_released(3) [OF azure_invD(5) [OF assms(1)], of r c] assms(2) show False by simp
qed

text \<open>A handler moves, perhaps with a request of the session.\<close>

lemma azure_inv_move:
  assumes inv: "azure_inv s"
    and "bastion_ok (handler_at (az_server s) c) (c \<in> sock_open (az_server s)) b"
  shows "azure_inv (bastion_to c b s)"
  using azure_invD [OF inv] bastions_upd [OF azure_invD(2) [OF inv] assms(2)] by (simp add: azure_inv_def)

lemma azure_inv_request:
  assumes inv: "azure_inv s" and h: "handler_at (az_server s) c = HRunning"
    and "\<forall>e \<in> set evs. \<not> cleans_up e"
  shows "azure_inv (azure_request evs x s)"
  using azure_invD(1-4) [OF inv] sent_ok_more [OF azure_invD(4) [OF inv] _ assms(3), of x] azure_serving [OF inv h]
  by (simp add: azure_inv_def)

lemma credential_requests: "accessToken now cr c = (evs, r, c') \<Longrightarrow> \<forall>e \<in> set evs. \<not> cleans_up e"
  by (auto simp: accessToken_def cleans_up_def split: if_split_asm sum.split_asm)

lemma negotiate_requests: "negotiate access reply c = (evs, r, c') \<Longrightarrow> \<forall>e \<in> set evs. \<not> cleans_up e"
  by (auto simp: negotiate_def cleans_up_def token_request_def Let_def
      split: http_reply.split_asm sum.split_asm if_split_asm)

lemma azure_inv_handlers:
  assumes inv: "azure_inv s"
  shows "az_start c s = Some t \<Longrightarrow> azure_inv t"
    and "az_relay c l s = Some t \<Longrightarrow> azure_inv t"
    and "az_relayed c s = Some t \<Longrightarrow> azure_inv t"
    and "az_credential c now cr s = Some t \<Longrightarrow> azure_inv t"
    and "az_negotiate c reply s = Some t \<Longrightarrow> azure_inv t"
    and "az_dial c works s = Some t \<Longrightarrow> azure_inv t"
proof -
  note ok = azure_invD(6) [OF inv, of c]
  show "az_start c s = Some t \<Longrightarrow> azure_inv t" "az_relayed c s = Some t \<Longrightarrow> azure_inv t"
    using ok by (auto simp: az_start_def az_relayed_def split: if_split_asm bastion_pc.split_asm intro!: azure_inv_move [OF inv])
  show "azure_inv t" if "az_relay c l s = Some t"
  proof -
    from that obtain r r' where r: "az_handler s c = BRelay r" "relay_action l r = Some r'"
      and t: "t = bastion_to c (BRelay r') s" by (auto simp: az_relay_def split: bastion_pc.split_asm if_split_asm)
    with ok draining_step [of r l r'] show ?thesis unfolding t by (intro azure_inv_move [OF inv]) auto
  qed
  have req: "azure_inv (bastion_to c b (azure_request evs x s))"
    if "handler_at (az_server s) c = HRunning" "\<forall>e \<in> set evs. \<not> cleans_up e"
      "bastion_ok HRunning (c \<in> sock_open (az_server s)) b" for b evs x
    using azure_inv_move [OF azure_inv_request [OF inv that(1,2)]] that(1,3) by simp
  show "azure_inv t" if "az_credential c now cr s = Some t"
  proof -
    obtain evs r x where a: "accessToken now cr (az_session s) = (evs, r, x)" by (cases "accessToken now cr (az_session s)")
    with that have "az_handler s c = BCredential"
      and t: "t = bastion_to c (case r of Inl e \<Rightarrow> BEnd | Inr access \<Rightarrow> BNegotiate access) (azure_request evs x s)"
      by (auto simp: az_credential_def split: if_split_asm)
    then show ?thesis unfolding t using ok
      by (intro req credential_requests [OF a]) (simp_all split: sum.split)
  qed
  show "azure_inv t" if "az_negotiate c reply s = Some t"
  proof -
    from that obtain access where a: "az_handler s c = BNegotiate access"
      by (auto simp: az_negotiate_def split: bastion_pc.split_asm)
    obtain evs r x where n: "negotiate access reply (az_session s) = (evs, r, x)"
      by (cases "negotiate access reply (az_session s)")
    with that a have t: "t = bastion_to c (case r of Inl e \<Rightarrow> BEnd | Inr token \<Rightarrow> BDial token) (azure_request evs x s)"
      by (simp add: az_negotiate_def)
    show ?thesis unfolding t using ok a
      by (intro req negotiate_requests [OF n]) (simp_all split: sum.split)
  qed
  show "azure_inv t" if "az_dial c works s = Some t"
  proof -
    from that obtain token where a: "az_handler s c = BDial token"
      by (auto simp: az_dial_def split: bastion_pc.split_asm)
    with that have t: "t = bastion_to c (if works then BRelay (start_relay (az_server s) c bastion_relay) else BEnd)
            (azure_request [DialWebSocket (ws_url (az_session s) token)] (az_session s) s)"
      by (simp add: az_dial_def)
    show ?thesis unfolding t using ok a
      by (intro req) (simp_all add: cleans_up_def draining_start, simp add: start_relay_def)
  qed
qed

lemma azure_inv_return:
  assumes inv: "azure_inv s" and "az_return c s = Some t"
  shows "azure_inv t"
proof -
  from assms(2) obtain v where c: "az_handler s c = BEnd"
    and v: "conn_action (LHandlerReturn c) (az_server s) = Some v"
    and t: "t = bastion_to c BAway (s\<lparr>az_server := v\<rparr>)"
    by (auto simp: az_return_def azure_server_Some split: if_split_asm)
  have h: "handler_at v = (handler_at (az_server s))(c := HReturned)" "sock_open v = sock_open (az_server s)"
    "serve_at v = serve_at (az_server s)" "closer_at v = closer_at (az_server s)"
    using v by (auto simp: handler_return_def split: if_split_asm)
  have "bastions_ok v ((az_handler s)(c := BAway))"
    using azure_invD(2) [OF inv] h by (auto simp: bastions_ok_def)
  with azure_invD(3,4) [OF inv] server_reach [OF azure_invD(1) [OF inv] v] h show ?thesis
    by (simp add: azure_inv_def t)
qed

lemma azure_inv_mains:
  assumes inv: "azure_inv s"
  shows "az_serve_returned s = Some t \<Longrightarrow> azure_inv t"
    and "az_server_closed s = Some t \<Longrightarrow> azure_inv t"
    and "az_clean_up reply s = Some t \<Longrightarrow> azure_inv t"
proof -
  show "azure_inv t" if "az_serve_returned s = Some t"
  proof -
    from that obtain v where m: "az_main s = AzServing" "serve_returned (az_server s)"
      and v: "conn_action LCallerClose (az_server s) = Some v" and t: "t = s\<lparr>az_server := v, az_main := AzCloseServer\<rparr>"
      by (auto simp: az_serve_returned_def azure_server_Some split: if_split_asm)
    have "handler_at v = handler_at (az_server s)" "sock_open v = sock_open (az_server s)"
      "serve_at v = serve_at (az_server s)" "closer_at v ByCaller = CWant"
      using v by (auto simp: caller_close_def split: if_split_asm)
    moreover have "\<exists>r. serve_at (az_server s) = SReturned r"
      using m(2) by (auto simp: serve_returned_def split: serve_pc.split_asm)
    ultimately show ?thesis
      using azure_invD(2,4) [OF inv] server_reach [OF azure_invD(1) [OF inv] v] m(1)
      by (simp add: azure_inv_def t bastions_ok_def sent_ok_def)
  qed
  show "az_server_closed s = Some t \<Longrightarrow> azure_inv t"
    using azure_invD(1-4) [OF inv] by (auto simp: az_server_closed_def azure_inv_def sent_ok_def split: if_split_asm)
  show "azure_inv t" if "az_clean_up reply s = Some t"
  proof -
    obtain evs r x where x: "session_close reply (az_session s) = (evs, r, x)"
      by (cases "session_close reply (az_session s)")
    with that have m: "az_main s = AzCleanUp" and t: "t = (azure_request evs x s)\<lparr>az_main := AzExited\<rparr>"
      by (auto simp: az_clean_up_def split: if_split_asm)
    have closed: "authToken x = [] \<and> nodeID x = [] \<and>
        (evs = [] \<or> (\<exists>token node. token \<noteq> [] \<and> evs = [Send (delete_request x token node)]))"
      using x by (auto simp: session_close_def deleteToken_def Let_def split: if_split_asm http_reply.split_asm)
    have "\<forall>e \<in> set (az_sent s). \<not> cleans_up e" using azure_invD(4) [OF inv] m by (simp add: sent_ok_def)
    with closed have "sent_ok AzExited x (az_sent s @ evs)" by (auto simp: sent_ok_def)
    with azure_invD(1-3) [OF inv] m show ?thesis by (simp add: azure_inv_def t)
  qed
qed

lemma azure_inv_step: "azure_step s l t \<Longrightarrow> azure_inv s \<Longrightarrow> azure_inv t"
  unfolding azure_step_def
  by (cases l) (auto split: if_split_asm intro: azure_inv_server azure_inv_handlers azure_inv_return azure_inv_mains)

lemma azure_inv_init: "azure_init s \<Longrightarrow> azure_inv s"
  by (auto simp: azure_init_def azure_inv_def bastions_ok_def conn_init_def new_conn_server_def sent_ok_def
      intro: reach_init)

interpretation azures: invariant_system azure_init azure_step azure_inv
  by unfold_locales (auto intro: azure_inv_init azure_inv_step)

section \<open>Shutdown\<close>

text \<open>
  The actions of the process itself. The answers of the credential, of the HTTP client and of the
  dialer count among them: a request under a cancelled context or with a timeout is answered.
\<close>

fun azure_internal :: "azure_label \<Rightarrow> bool" where
  "azure_internal (AzServer l) = server_action l"
| "azure_internal (AzRelay c l) = relay_internal l"
| "azure_internal l = True"

definition azure_closing :: "azure_process \<Rightarrow> bool" where
  "azure_closing s \<longleftrightarrow> closing (az_server s) \<or> serve_returned (az_server s)"

definition azure_exited :: "azure_process \<Rightarrow> bool" where
  "azure_exited s \<longleftrightarrow> az_main s = AzExited"

subsection \<open>The rank\<close>

fun bastion_rank :: "handler_pc \<Rightarrow> bastion_pc \<Rightarrow> nat" where
  "bastion_rank h BAway = (if h = HRunning then 24 else 0)"
| "bastion_rank h BCredential = 23"
| "bastion_rank h (BNegotiate access) = 22"
| "bastion_rank h (BDial token) = 21"
| "bastion_rank h (BRelay r) = 2 + relay_rank r"
| "bastion_rank h BEnd = 1"

lemma bastion_rank_le: "bastion_rank h b \<le> 24"
  using relay_rank_bound by (cases b) (auto intro: order_trans [OF _ order_trans [of _ 18 22]])

definition bastions_rank :: "(nat \<Rightarrow> handler_pc) \<Rightarrow> (nat \<Rightarrow> bastion_pc) \<Rightarrow> nat" where
  "bastions_rank h f = (\<Sum>c \<in> {c. h c \<noteq> HAbsent}. bastion_rank (h c) (f c))"

fun azure_main_rank :: "azure_pc \<Rightarrow> nat" where
  "azure_main_rank AzServing = 53"
| "azure_main_rank AzCloseServer = 2"
| "azure_main_rank AzCleanUp = 1"
| "azure_main_rank AzExited = 0"

definition azure_rank :: "azure_process \<Rightarrow> nat" where
  "azure_rank s = 25 * conn_rank (az_server s) + bastions_rank (handler_at (az_server s)) (az_handler s) +
     azure_main_rank (az_main s)"

lemma bastions_rank_upd:
  assumes "finite {c. h c \<noteq> HAbsent}" and "h c \<noteq> HAbsent" and "bastion_rank (h c) b < bastion_rank (h c) (f c)"
  shows "bastions_rank h (f(c := b)) < bastions_rank h f"
proof -
  have "(\<Sum>d \<in> {c. h c \<noteq> HAbsent} - {c}. bastion_rank (h d) ((f(c := b)) d)) =
      (\<Sum>d \<in> {c. h c \<noteq> HAbsent} - {c}. bastion_rank (h d) (f d))" by (rule sum.cong) auto
  with assms show ?thesis
    unfolding bastions_rank_def
    using sum.remove [OF assms(1), of c "\<lambda>d. bastion_rank (h d) ((f(c := b)) d)"]
      sum.remove [OF assms(1), of c "\<lambda>d. bastion_rank (h d) (f d)"] by simp
qed

lemma bastions_rank_cong:
  "(\<And>c. bastion_rank (h c) (g c) = bastion_rank (h c) (f c)) \<Longrightarrow> bastions_rank h g = bastions_rank h f"
  by (simp add: bastions_rank_def)

text \<open>A step of the server moves one goroutine at most, which costs no more than one of its own steps.\<close>

lemma server_one_handler:
  "conn_action l v = Some v' \<Longrightarrow> \<exists>c x. handler_at v' = (handler_at v)(c := x) \<and> (x \<noteq> HAbsent \<or> x = handler_at v c)"
  by (cases l; (clarsimp simp: conn_action_defs split: if_split_asm serve_pc.split_asm close_pc.split_asm)?;
      (metis fun_upd_triv handler_pc.distinct)?)

lemma bastions_rank_server:
  assumes "finite {c. h c \<noteq> HAbsent}" and "x \<noteq> HAbsent \<or> x = h c"
  shows "bastions_rank (h(c := x)) f \<le> bastions_rank h f + 24"
proof (cases "x = HAbsent")
  case True
  with assms(2) have "h(c := x) = h" by auto
  then show ?thesis by simp
next
  case False
  let ?S = "{c. h c \<noteq> HAbsent}"
  have "{d. (h(c := x)) d \<noteq> HAbsent} = insert c (?S - {c})" using False by auto
  moreover have "finite (?S - {c})" "c \<notin> ?S - {c}" using assms(1) by auto
  note sum.insert [OF this, of "\<lambda>d. bastion_rank ((h(c := x)) d) (f d)"]
  ultimately have "bastions_rank (h(c := x)) f =
      bastion_rank ((h(c := x)) c) (f c) + (\<Sum>d \<in> ?S - {c}. bastion_rank ((h(c := x)) d) (f d))"
    by (simp only: bastions_rank_def)
  also have "(\<Sum>d \<in> ?S - {c}. bastion_rank ((h(c := x)) d) (f d)) = (\<Sum>d \<in> ?S - {c}. bastion_rank (h d) (f d))"
    by (rule sum.cong) auto
  also have "\<dots> \<le> bastions_rank h f" unfolding bastions_rank_def by (rule sum_mono2) (use assms(1) in auto)
  finally show ?thesis using bastion_rank_le [of "(h(c := x)) c" "f c"] by linarith
qed

lemma azure_finite: "azure_inv s \<Longrightarrow> finite {c. handler_at (az_server s) c \<noteq> HAbsent}"
  using azure_invD(5) [of s] by (simp add: conn_inv_def count_inv_def seen_def)

text \<open>A handler that moves without the server.\<close>

lemma rank_move:
  assumes inv: "azure_inv s" and "az_server t = az_server s" "az_main t = az_main s"
    and "az_handler t = (az_handler s)(c := b)" and "handler_at (az_server s) c = HRunning"
    and "bastion_rank HRunning b < bastion_rank HRunning (az_handler s c)"
  shows "azure_rank t < azure_rank s"
  using bastions_rank_upd [OF azure_finite [OF inv], of c b "az_handler s"] assms by (simp add: azure_rank_def)

lemma rank_server:
  assumes inv: "azure_inv s" and "conn_action l (az_server s) = Some v" and "conn_rank v < conn_rank (az_server s)"
    and "az_server t = v" "az_main t = az_main s"
    and "\<And>c. bastion_rank (handler_at v c) (az_handler t c) \<le> bastion_rank (handler_at v c) (az_handler s c)"
  shows "azure_rank t < azure_rank s"
proof -
  obtain c x where h: "handler_at v = (handler_at (az_server s))(c := x)" "x \<noteq> HAbsent \<or> x = handler_at (az_server s) c"
    using server_one_handler [OF assms(2)] by blast
  have "bastions_rank (handler_at v) (az_handler t) \<le> bastions_rank (handler_at v) (az_handler s)"
    unfolding bastions_rank_def by (rule sum_mono) (rule assms(6))
  also have "\<dots> \<le> bastions_rank (handler_at (az_server s)) (az_handler s) + 24"
    unfolding h(1) by (rule bastions_rank_server [OF azure_finite [OF inv] h(2)])
  finally show ?thesis using assms(3-5) by (simp add: azure_rank_def)
qed

text \<open>The rank falls with the actions on the connection server, those of a handler, and the deferred calls.\<close>

lemma azure_decreases_server:
  assumes inv: "azure_inv s" and "azure_internal l" and step: "azure_step s l t"
    and l: "l = AzServer k \<or> l = AzReturn c \<or> l = AzServeReturned"
  shows "azure_rank t < azure_rank s"
proof -
  note ok = azure_invD(6) [OF inv]
  note act = step [unfolded azure_step_def]
  from l show ?thesis
  proof (elim disjE)
    assume AzServer: "l = AzServer k"
    with act obtain v where v: "server_alone k" "conn_action k (az_server s) = Some v"
      and t: "t = azure_effect k (s\<lparr>az_server := v\<rparr>)"
      by (auto simp: azure_server_Some split: if_split_asm)
    have "conn_rank v < conn_rank (az_server s)"
      using conn_decreases [OF azure_invD(5) [OF inv], of k v] AzServer assms(2) v(2) by (simp add: conn_step_def)
    moreover have "bastion_rank h (bastion_closed b) = bastion_rank h b" for h b by (cases b) simp_all
    then have "bastion_rank (handler_at v c) (az_handler t c) = bastion_rank (handler_at v c) (az_handler s c)" for c
      unfolding t by (cases k) simp_all
    moreover have "az_server t = v" "az_main t = az_main s" unfolding t by (cases k; simp)+
    ultimately show ?thesis by (intro rank_server [OF inv v(2)]) simp_all
  next
    assume AzReturn: "l = AzReturn c"
    with act obtain v where c: "az_handler s c = BEnd"
      and v: "conn_action (LHandlerReturn c) (az_server s) = Some v" and t: "t = bastion_to c BAway (s\<lparr>az_server := v\<rparr>)"
      by (auto simp: az_return_def azure_server_Some split: if_split_asm)
    have "handler_at v c = HReturned" using v by (auto simp: handler_return_def split: if_split_asm)
    then show ?thesis
      by (intro rank_server [OF inv v handler_return_less [OF azure_invD(5) [OF inv] v]]) (simp_all add: t)
  next
    assume AzServeReturned: "l = AzServeReturned"
    with act obtain v where m: "az_main s = AzServing" "serve_returned (az_server s)"
      and v: "conn_action LCallerClose (az_server s) = Some v" and t: "t = s\<lparr>az_server := v, az_main := AzCloseServer\<rparr>"
      by (auto simp: az_serve_returned_def azure_server_Some split: if_split_asm)
    obtain r where "serve_at (az_server s) = SReturned r"
      using m(2) by (auto simp: serve_returned_def split: serve_pc.split_asm)
    then have "conn_rank v \<le> conn_rank (az_server s) + 2" by (rule caller_close_rank [OF azure_invD(5) [OF inv] _ v])
    moreover have "handler_at v = handler_at (az_server s)" using v by (auto simp: caller_close_def split: if_split_asm)
    ultimately show ?thesis using m(1) by (simp add: azure_rank_def t)
  qed
qed

lemma azure_decreases_handler:
  assumes inv: "azure_inv s" and "azure_internal l" and step: "azure_step s l t"
    and l: "l = AzStart c \<or> l = AzCredential c now cr \<or> l = AzNegotiate c reply \<or> l = AzDial c works \<or>
      l = AzRelay c k \<or> l = AzRelayed c"
  shows "azure_rank t < azure_rank s"
proof -
  note ok = azure_invD(6) [OF inv]
  note act = step [unfolded azure_step_def]
  from l show ?thesis
  proof (elim disjE)
    assume AzStart: "l = AzStart c"
    with act ok [of c] show ?thesis
      by (auto simp: az_start_def split: if_split_asm intro!: rank_move [OF inv, of _ c BCredential])
  next
    assume AzCredential: "l = AzCredential c now cr"
    obtain evs r x where q: "accessToken now cr (az_session s) = (evs, r, x)" by (cases "accessToken now cr (az_session s)")
    from AzCredential act q have a: "az_handler s c = BCredential"
      and t: "t = bastion_to c (case r of Inl e \<Rightarrow> BEnd | Inr access \<Rightarrow> BNegotiate access) (azure_request evs x s)"
      by (auto simp: az_credential_def split: if_split_asm)
    from ok [of c] a show ?thesis unfolding t by (intro rank_move [OF inv]) (auto split: sum.split)
  next
    assume AzNegotiate: "l = AzNegotiate c reply"
    with act obtain access where a: "az_handler s c = BNegotiate access"
      by (auto simp: az_negotiate_def split: bastion_pc.split_asm)
    obtain evs r x where q: "negotiate access reply (az_session s) = (evs, r, x)"
      by (cases "negotiate access reply (az_session s)")
    from AzNegotiate act a q have
      t: "t = bastion_to c (case r of Inl e \<Rightarrow> BEnd | Inr token \<Rightarrow> BDial token) (azure_request evs x s)"
      by (simp add: az_negotiate_def)
    from ok [of c] a show ?thesis unfolding t by (intro rank_move [OF inv]) (auto split: sum.split)
  next
    assume AzDial: "l = AzDial c works"
    have start: "relay_rank (start_relay v c bastion_relay) \<le> 18" for v c by (rule relay_rank_bound)
    from AzDial act obtain token where a: "az_handler s c = BDial token"
      and t: "t = bastion_to c (if works then BRelay (start_relay (az_server s) c bastion_relay) else BEnd)
            (azure_request [DialWebSocket (ws_url (az_session s) token)] (az_session s) s)"
      by (auto simp: az_dial_def split: bastion_pc.split_asm)
    with ok [of c] start [of "az_server s" c] show ?thesis unfolding t by (intro rank_move [OF inv]) auto
  next
    assume AzRelay: "l = AzRelay c k"
    with act obtain r r' where r: "az_handler s c = BRelay r" "relay_action k r = Some r'"
      and t: "t = bastion_to c (BRelay r') s"
      by (auto simp: az_relay_def split: bastion_pc.split_asm if_split_asm)
    have "relay_rank r' < relay_rank r"
      using relay_decreases [of k r r'] AzRelay assms(2) r(2) by (simp add: relay_step_def)
    with ok [of c] r(1) show ?thesis unfolding t by (intro rank_move [OF inv]) auto
  next
    assume AzRelayed: "l = AzRelayed c"
    with act obtain r where "az_handler s c = BRelay r" and t: "t = bastion_to c BEnd s"
      by (auto simp: az_relayed_def split: bastion_pc.split_asm if_split_asm)
    with ok [of c] show ?thesis unfolding t by (intro rank_move [OF inv]) auto
  qed
qed

lemma azure_decreases:
  assumes inv: "azure_inv s" and "azure_internal l" and step: "azure_step s l t"
  shows "azure_rank t < azure_rank s"
proof -
  note server = azure_decreases_server [OF assms] and handler = azure_decreases_handler [OF assms]
  note act = step [unfolded azure_step_def]
  show ?thesis
  proof (cases l)
    case AzServerClosed
    with act show ?thesis by (auto simp: az_server_closed_def azure_rank_def split: if_split_asm)
  next
    case (AzCleanUpSession reply)
    with act show ?thesis
      by (auto simp: az_clean_up_def azure_rank_def split: if_split_asm prod.split_asm)
  qed (use server handler in blast)+
qed

subsection \<open>Progress\<close>

lemma azure_can:
  "azure_internal l \<Longrightarrow> azure_action l s = Some t \<Longrightarrow> \<exists>l t. azure_internal l \<and> azure_step s l t"
  by (auto simp: azure_step_def)

lemma azure_server_can:
  assumes "server_alone l" and "server_action l" and "conn_action l (az_server s) = Some v"
  shows "\<exists>l t. azure_internal l \<and> azure_step s l t"
  by (rule azure_can [of "AzServer l"]) (simp_all add: assms azure_server_def)

text \<open>The handler of a connection that the server has closed.\<close>

lemma bastion_can:
  assumes inv: "azure_inv s" and h: "handler_at (az_server s) c = HRunning" and closed: "c \<notin> sock_open (az_server s)"
  shows "\<exists>l t. azure_internal l \<and> azure_step s l t"
proof (cases "az_handler s c")
  case BAway
  with h show ?thesis by (intro azure_can [of "AzStart c"]) (simp_all add: az_start_def)
next
  case BCredential
  then show ?thesis
    by (intro azure_can [of "AzCredential c 0 (Inl ErrCanceled)"]) (simp_all add: az_credential_def case_prod_unfold)
next
  case (BNegotiate access)
  then show ?thesis
    by (intro azure_can [of "AzNegotiate c (SendError ErrCanceled)"]) (simp_all add: az_negotiate_def case_prod_unfold)
next
  case (BDial token)
  then show ?thesis by (intro azure_can [of "AzDial c False"]) (simp_all add: az_dial_def)
next
  case (BRelay r)
  with azure_invD(6) [OF inv, of c] closed have r: "draining r" "\<not> ep_open (ep r SideA)" by simp_all
  show ?thesis
  proof (cases "main_at r = MReturned")
    case True
    with BRelay show ?thesis by (intro azure_can [of "AzRelayed c"]) (simp_all add: az_relayed_def)
  next
    case False
    have "relay_inv r" using r(1) relays.reach_inv by (simp add: draining_def)
    moreover have "relay_live r" using r by (simp add: relay_live_def draining_def)
    ultimately obtain l r' where l: "relay_internal l" "relay_action l r = Some r'"
      using relay_progress [of r] False by (auto simp: relay_final_def relay_step_def)
    have "l \<noteq> RShutdown" using l(1) by auto
    with BRelay l show ?thesis by (intro azure_can [of "AzRelay c l"]) (simp_all add: az_relay_def)
  qed
next
  case BEnd
  with h show ?thesis
    by (intro azure_can [of "AzReturn c"]) (simp_all add: az_return_def azure_server_def handler_return_def)
qed

lemma azure_progress:
  assumes inv: "azure_inv s" and live: "azure_closing s" and nf: "\<not> azure_exited s"
  shows "\<exists>l t. azure_internal l \<and> azure_step s l t"
proof -
  note main = azure_invD(3) [OF inv] and srv = azure_invD(5) [OF inv]
  show ?thesis
  proof (cases "az_main s")
    case AzServing
    show ?thesis
    proof (cases "serve_returned (az_server s)")
      case True
      with AzServing main show ?thesis
        by (intro azure_can [of AzServeReturned]) (simp_all add: az_serve_returned_def azure_server_def caller_close_def)
    next
      case False
      with live have "closing (az_server s)" by (simp add: azure_closing_def)
      from serving_progress [OF srv this False] show ?thesis using azure_server_can bastion_can [OF inv] by blast
    qed
  next
    case AzCloseServer
    show ?thesis
    proof (cases "closer_at (az_server s) ByCaller = CDone")
      case True
      with AzCloseServer show ?thesis by (intro azure_can [of AzServerClosed]) (simp_all add: az_server_closed_def)
    next
      case False
      with caller_close_progress [OF srv] AzCloseServer main show ?thesis using azure_server_can by fastforce
    qed
  next
    case AzCleanUp
    then show ?thesis
      by (intro azure_can [of "AzCleanUpSession (SendError ErrCanceled)"]) (simp_all add: az_clean_up_def case_prod_unfold)
  next
    case AzExited
    with nf show ?thesis by (simp add: azure_exited_def)
  qed
qed

lemma azure_closing_step:
  assumes inv: "azure_inv s" and live: "azure_closing s" and int: "azure_internal l" and step: "azure_step s l t"
  shows "azure_closing t"
proof -
  note act = step [unfolded azure_step_def]
  have same: "az_server t = az_server s \<Longrightarrow> ?thesis" using live by (simp add: azure_closing_def)
  show ?thesis
  proof (cases l)
    case (AzServer k)
    with act obtain v where v: "conn_action k (az_server s) = Some v" and t: "t = azure_effect k (s\<lparr>az_server := v\<rparr>)"
      by (auto simp: azure_server_Some split: if_split_asm)
    have "az_server t = v" unfolding t by (cases k) simp_all
    with conn_closing_step [OF azure_invD(5) [OF inv], of k v] returned_frame [OF v] live int AzServer v show ?thesis
      by (auto simp: azure_closing_def conn_step_def)
  next
    case (AzReturn c)
    with act live closing_frame [of "LHandlerReturn c" "az_server s"] returned_frame [of "LHandlerReturn c" "az_server s"]
    show ?thesis by (auto simp: az_return_def azure_server_Some azure_closing_def split: if_split_asm)
  next
    case AzServeReturned
    with act live closing_frame [of LCallerClose "az_server s"] returned_frame [of LCallerClose "az_server s"]
    show ?thesis by (auto simp: az_serve_returned_def azure_server_Some azure_closing_def split: if_split_asm)
  qed (rule same; use act in \<open>auto simp: azure_handler_defs azure_main_defs
        split: if_split_asm bastion_pc.split_asm prod.split_asm\<close>)+
qed

interpretation azures_live:
  terminating_system azure_init azure_step azure_inv azure_internal azure_closing azure_exited azure_rank
  by unfold_locales (blast intro: azure_progress azure_decreases azure_closing_step)+

section \<open>Properties\<close>

text \<open>C8: An interrupted Azure tunnel ends. Once the context is cancelled while \<open>Serve\<close> is in its accept
  loop, or the hook on the context has started \<open>Close\<close>, or \<open>Serve\<close> has returned, the whole process,
  with its server, its handlers in whatever request and its relays, reaches the return of
  \<open>StartRemoteTunnel\<close> by its own actions, and every run of them is bounded. Its own actions
  include the answers to its requests (their context is cancelled or they have a timeout) and
  writes to open streams. An interrupt that comes after \<open>Accept\<close> has failed is not covered, and
  rightly so (\<open>late_interrupt_ignored\<close>).\<close>

theorem azure_process_exits:
  assumes "reach azure_init azure_step s"
    and "ctx_done (az_server s) \<and> accepting (serve_at (az_server s)) \<or> after_at (az_server s) = Fired \<or>
      serve_returned (az_server s)"
  shows "(\<exists>ls t. path azure_step s ls t \<and> (\<forall>l \<in> set ls. azure_internal l) \<and> az_main t = AzExited) \<and>
    (\<forall>ls t. path azure_step s ls t \<longrightarrow> (\<forall>l \<in> set ls. azure_internal l) \<longrightarrow> length ls \<le> azure_rank s)"
proof -
  note inv = azures.reach_inv [OF assms(1)]
  have "azure_closing s"
    using assms(2) interrupted_closing [OF azure_invD(1) [OF inv]] by (auto simp: azure_closing_def)
  from azures_live.reaches_final [OF inv this] azures_live.internal_run_bounded [OF _ inv] show ?thesis
    unfolding azure_exited_def by fastforce
qed

text \<open>A connection is being negotiated when the tunnel is interrupted; the negotiation is granted, the
  WebSocket is not opened, and the clean-up deletes the token.\<close>

definition sample_reply :: http_reply where
  "sample_reply = Reply 200 (Inr (print_json (token_json sample_token)))"

lemmas negotiate_sample = negotiate_some [OF sample_token_granted, folded sample_reply_def]

definition serving_azure :: azure_process where
  "serving_azure =
     \<lparr>az_server = new_conn_server, az_session = fresh_client, az_sent = [], az_handler = (\<lambda>_. BAway),
      az_main = AzServing\<rparr>"

definition interrupted_azure :: azure_process where
  "interrupted_azure = the (exec_labels azure_action
     [AzServer (LAccept 1), AzServer LRegister, AzStart 1,
      AzCredential 1 0 (Inr \<lparr>at_token = ''az'', at_expires = 1\<rparr>), AzServer LCancel] serving_azure)"


lemmas azure_eval = azure_handler_defs azure_main_defs azure_server_def bastion_to_def azure_request_def
  conn_action_defs serve_error_def new_conn_server_def accessToken_def tokenRefreshWindow_def negotiate_sample
  serve_returned_def session_close_def deleteToken_def Let_def

lemma interrupted_azure_run:
  "exec_labels azure_action
     [AzServer (LAccept 1), AzServer LRegister, AzStart 1,
      AzCredential 1 0 (Inr \<lparr>at_token = ''az'', at_expires = 1\<rparr>), AzServer LCancel] serving_azure =
   Some interrupted_azure"
  by (simp add: interrupted_azure_def serving_azure_def fresh_client_def azure_eval)

lemma azure_exec_reach: "exec_labels azure_action ls serving_azure = Some t \<Longrightarrow> reach azure_init azure_step t"
  unfolding azure_step_def
  by (rule exec_labels_reach [where s = serving_azure])
    (simp_all add: azure_init_def serving_azure_def conn_init_def fresh_client_def)

theorem azure_process_exits_witness: "\<exists>ls t. path azure_step interrupted_azure ls t \<and> az_main t = AzExited"
proof -
  have "ctx_done (az_server interrupted_azure) \<and> accepting (serve_at (az_server interrupted_azure))"
    by (simp add: interrupted_azure_def serving_azure_def fresh_client_def azure_eval)
  with azure_process_exits [OF azure_exec_reach [OF interrupted_azure_run]] show ?thesis by blast
qed

text \<open>
  What that leaves out. A connection is relayed and idle when \<open>Accept\<close> fails; \<open>Serve\<close> has removed its
  hook and waits for the relay, and the interrupt that comes then changes nothing: no action of the
  process is possible.
\<close>

definition late_interrupt :: "azure_label list" where
  "late_interrupt =
     [AzServer (LAccept 1), AzServer LRegister, AzStart 1,
      AzCredential 1 0 (Inr \<lparr>at_token = ''az'', at_expires = 1\<rparr>), AzNegotiate 1 sample_reply, AzDial 1 True,
      AzServer (LAcceptFail (ErrExt ''too many open files'')), AzServer LStop, AzServer LCancel]"

definition ignored_azure :: azure_process where
  "ignored_azure = the (exec_labels azure_action late_interrupt serving_azure)"

lemma ignored_azure_run: "exec_labels azure_action late_interrupt serving_azure = Some ignored_azure"
  by (simp add: ignored_azure_def late_interrupt_def serving_azure_def fresh_client_def azure_eval)

lemma ignored_parts:
  "az_handler ignored_azure c = (if c = 1 then BRelay bastion_relay else BAway)"
  "handler_at (az_server ignored_azure) c = (if c = 1 then HRunning else HAbsent)"
  "\<exists>r. serve_at (az_server ignored_azure) = SDraining r" "srv_wg (az_server ignored_azure) = 1"
  "closer_at (az_server ignored_azure) k = CIdle" "after_at (az_server ignored_azure) = Stopped"
  "ctx_done (az_server ignored_azure)" "az_main ignored_azure = AzServing"
  by (simp_all add: ignored_azure_def late_interrupt_def serving_azure_def fresh_client_def azure_eval start_relay_def)

lemma bastion_relay_idle: "relay_internal l \<Longrightarrow> relay_action l bastion_relay = None"
  by (cases l; simp add: bastion_relay_def RelayDrain_def fresh_endpoint_def relay_action_defs split: side.split)

lemma late_interrupt_ignored:
  "reach azure_init azure_step ignored_azure \<and> ctx_done (az_server ignored_azure) \<and>
   \<not> (\<exists>l t. azure_internal l \<and> azure_step ignored_azure l t)"
proof -
  obtain r where r: "serve_at (az_server ignored_azure) = SDraining r" using ignored_parts(3) by blast
  note parts = ignored_parts(1,2,4-8) r
  have "conn_action k (az_server ignored_azure) = None" if "server_action k" for k
    using that by (cases k) (simp_all add: conn_action_defs parts)
  then have "azure_action l ignored_azure = None" if "azure_internal l" for l
    using that bastion_relay_idle
    by (cases l) (auto simp: azure_handler_defs azure_main_defs azure_server_def parts serve_returned_def
        bastion_relay_def RelayDrain_def)
  then show ?thesis
    using azure_exec_reach [OF ignored_azure_run] ignored_parts(7) by (auto simp: azure_step_def)
qed




end
