(* ===== verification/SsmTunnel.thy ===== *)
theory SsmTunnel
  imports Codec
begin

text \<open>
  \<open>internal/ssm/session.go\<close> and \<open>tunnel.go\<close>: the SDK configuration, the SSM session the parent opens
  and hands to the child, and the arguments the child gives to the session-manager plugin. The
  AWS SDK and the plugin are answers and parameters; a pointer field of a response is an option.
\<close>

definition DefaultSSMDocument :: string where
  "DefaultSSMDocument = ''AWS-StartPortForwardingSessionToRemoteHost''"

record session_params =
  SessionId :: string
  TokenValue :: string
  StreamUrl :: string

record ssm_config =
  LocalPort :: string
  SSMInstance :: string
  SSMDocument :: string
  SSMProfile :: string
  SSMRoleARN :: string
  SSMRegion :: string
  TargetHost :: string
  TargetPort :: string
  SessionParams :: "session_params option"

text \<open>The JSON forms; \<open>SessionParams\<close> is left out when it is nil.\<close>

definition session_params_json :: "session_params \<Rightarrow> json" where
  "session_params_json p = JObj
     [(''SessionId'', JStr (SessionId p)), (''TokenValue'', JStr (TokenValue p)), (''StreamUrl'', JStr (StreamUrl p))]"

definition session_params_fields :: "session_params fields" where
  "session_params_fields =
     [(''SessionId'', string_field (\<lambda>v p. p\<lparr>SessionId := v\<rparr>)),
      (''TokenValue'', string_field (\<lambda>v p. p\<lparr>TokenValue := v\<rparr>)),
      (''StreamUrl'', string_field (\<lambda>v p. p\<lparr>StreamUrl := v\<rparr>))]"

definition empty_session_params :: session_params where
  "empty_session_params = \<lparr>SessionId = [], TokenValue = [], StreamUrl = []\<rparr>"

definition session_params_encodable :: "session_params \<Rightarrow> bool" where
  "session_params_encodable p \<longleftrightarrow> utf8 (SessionId p) \<and> utf8 (TokenValue p) \<and> utf8 (StreamUrl p)"

definition ssm_json :: "ssm_config \<Rightarrow> json" where
  "ssm_json c = JObj
     ([(''LocalPort'', JStr (LocalPort c)),
      (''SSMInstance'', JStr (SSMInstance c)),
      (''SSMDocument'', JStr (SSMDocument c)),
      (''SSMProfile'', JStr (SSMProfile c)),
      (''SSMRoleARN'', JStr (SSMRoleARN c)),
      (''SSMRegion'', JStr (SSMRegion c)),
      (''TargetHost'', JStr (TargetHost c)),
      (''TargetPort'', JStr (TargetPort c))] @
      (case SessionParams c of None \<Rightarrow> [] | Some p \<Rightarrow> [(''SessionParams'', session_params_json p)]))"

definition ssm_fields :: "ssm_config fields" where
  "ssm_fields =
     [(''LocalPort'', string_field (\<lambda>v c. c\<lparr>LocalPort := v\<rparr>)),
      (''SSMInstance'', string_field (\<lambda>v c. c\<lparr>SSMInstance := v\<rparr>)),
      (''SSMDocument'', string_field (\<lambda>v c. c\<lparr>SSMDocument := v\<rparr>)),
      (''SSMProfile'', string_field (\<lambda>v c. c\<lparr>SSMProfile := v\<rparr>)),
      (''SSMRoleARN'', string_field (\<lambda>v c. c\<lparr>SSMRoleARN := v\<rparr>)),
      (''SSMRegion'', string_field (\<lambda>v c. c\<lparr>SSMRegion := v\<rparr>)),
      (''TargetHost'', string_field (\<lambda>v c. c\<lparr>TargetHost := v\<rparr>)),
      (''TargetPort'', string_field (\<lambda>v c. c\<lparr>TargetPort := v\<rparr>)),
      (''SessionParams'', pointer_field session_params_fields empty_session_params SessionParams (\<lambda>v c. c\<lparr>SessionParams := v\<rparr>))]"

definition empty_ssm_config :: ssm_config where
  "empty_ssm_config = \<lparr>LocalPort = [], SSMInstance = [], SSMDocument = [], SSMProfile = [], SSMRoleARN = [], SSMRegion = [], TargetHost = [], TargetPort = [], SessionParams = None\<rparr>"

definition ssm_encodable :: "ssm_config \<Rightarrow> bool" where
  "ssm_encodable c \<longleftrightarrow> list_all utf8 [LocalPort c, SSMInstance c, SSMDocument c, SSMProfile c, SSMRoleARN c, SSMRegion c, TargetHost c, TargetPort c] \<and>
     (case SessionParams c of None \<Rightarrow> True | Some p \<Rightarrow> session_params_encodable p)"

interpretation params_codec: json_codec session_params_json session_params_fields empty_session_params
  session_params_encodable "\<lambda>p. p"
proof
  fix p :: session_params
  show "session_params_encodable p \<Longrightarrow> printable (session_params_json p)"
    by (simp add: session_params_json_def session_params_encodable_def)
  show "depth (session_params_json p) \<le> 4" by (simp add: session_params_json_def)
  show "session_params_encodable p \<Longrightarrow> decode_struct session_params_fields (session_params_json p) empty_session_params = (p, None)"
    by (simp add: session_params_json_def decode_struct_def decode_member_def field_of_def session_params_fields_def
        empty_session_params_def)
qed

lemma session_params_json_shape: "session_params_json p \<noteq> JNull" "depth (session_params_json p) \<le> 1"
  by (simp_all add: session_params_json_def)

lemma params_pointer_decodes:
  "session_params_encodable p \<Longrightarrow> SessionParams c = None \<Longrightarrow>
   pointer_field session_params_fields empty_session_params SessionParams (\<lambda>v c. c\<lparr>SessionParams := v\<rparr>)
     (session_params_json p) c = (c\<lparr>SessionParams := Some p\<rparr>, None)"
  by (simp add: pointer_field_def session_params_json_shape params_codec.decode_encode)

interpretation ssm_codec: forked_tunnel ssm_json ssm_fields empty_ssm_config ssm_encodable "\<lambda>c. c" Ssm
proof
  fix c :: ssm_config
  show "ssm_encodable c \<Longrightarrow> printable (ssm_json c)"
    using params_codec.encode_printable by (auto simp: ssm_json_def ssm_encodable_def split: option.splits)
  show "depth (ssm_json c) \<le> 4"
    using session_params_json_shape(2) [of "the (SessionParams c)"] by (cases "SessionParams c") (simp_all add: ssm_json_def)
  show "ssm_encodable c \<Longrightarrow> decode_struct ssm_fields (ssm_json c) empty_ssm_config = (c, None)"
    by (cases "SessionParams c")
       (simp_all add: ssm_json_def ssm_encodable_def decode_struct_def decode_member_def field_of_def ssm_fields_def
        empty_ssm_config_def params_pointer_decodes)
qed

section \<open>SDK configuration\<close>

datatype load_option = WithRegion string | WithSharedConfigProfile string

datatype config_source = SharedConfig string string | OtherSource

text \<open>The region, the sources in order, and the role whose credentials were put in place.\<close>

record aws_config =
  Region :: string
  ConfigSources :: "config_source list"
  AssumedRole :: "string option"

definition load_options :: "ssm_config \<Rightarrow> load_option list" where
  "load_options cfg =
     (if SSMRegion cfg \<noteq> [] then [WithRegion (SSMRegion cfg)] else []) @
     (if SSMProfile cfg \<noteq> [] then [WithSharedConfigProfile (SSMProfile cfg)] else [])"

definition GetNewSDKConfig :: "(load_option list \<Rightarrow> aws_config result) \<Rightarrow> ssm_config \<Rightarrow> aws_config result" where
  "GetNewSDKConfig load cfg =
     bind_res (load (load_options cfg)) (\<lambda>c.
       Inr (if SSMRoleARN cfg \<noteq> [] then c\<lparr>AssumedRole := Some (SSMRoleARN cfg)\<rparr> else c))"

text \<open>The first shared configuration among the sources.\<close>

fun first_shared :: "config_source list \<Rightarrow> (string \<times> string) option" where
  "first_shared [] = None"
| "first_shared (SharedConfig p r # cs) = Some (p, r)"
| "first_shared (OtherSource # cs) = first_shared cs"

definition GetSDKConfigProfile :: "aws_config \<Rightarrow> string" where
  "GetSDKConfigProfile c = (case first_shared (ConfigSources c) of None \<Rightarrow> [] | Some (p, r) \<Rightarrow> p)"

definition GetSDKConfigRole :: "aws_config \<Rightarrow> string" where
  "GetSDKConfigRole c = (case first_shared (ConfigSources c) of None \<Rightarrow> [] | Some (p, r) \<Rightarrow> r)"

section \<open>The session\<close>

record session_input =
  si_target :: string
  si_document :: string
  si_parameters :: "string \<rightharpoonup> string list"

definition CreateSessionInput :: "ssm_config \<Rightarrow> session_input" where
  "CreateSessionInput cfg =
     (let p0 = Map.empty(''localPortNumber'' \<mapsto> [LocalPort cfg]);
          doc = (if SSMDocument cfg = [] then DefaultSSMDocument else SSMDocument cfg);
          p1 = (if TargetHost cfg \<noteq> [] then p0(''host'' \<mapsto> [TargetHost cfg]) else p0);
          p2 = (if TargetPort cfg \<noteq> [] then p1(''portNumber'' \<mapsto> [TargetPort cfg]) else p1)
      in \<lparr>si_target = SSMInstance cfg, si_document = doc, si_parameters = p2\<rparr>)"

record session_response =
  sr_id :: "string option"
  sr_token :: "string option"
  sr_url :: "string option"

text \<open>\<open>startTunnelSession\<close> dereferences the three pointers without a check.\<close>

definition startTunnelSession :: "session_response result \<Rightarrow> session_params result" where
  "startTunnelSession reply =
     bind_res reply (\<lambda>r.
       case (sr_id r, sr_token r, sr_url r) of
         (Some i, Some t, Some u) \<Rightarrow> Inr \<lparr>SessionId = i, TokenValue = t, StreamUrl = u\<rparr>
       | _ \<Rightarrow> Inl NilDeref)"

definition ssm_log_name :: "ssm_config \<Rightarrow> string" where
  "ssm_log_name cfg =
     ''ssm-tunnel-'' @ SSMInstance cfg @ ''-'' @
     (if TargetPort cfg = [] then LocalPort cfg else TargetPort cfg) @ ''.log''"

datatype ssm_event =
    StartSession session_input
  | ForkEvent fork_event
  | TerminateSession string
  | LogTerminateFailure go_error

text \<open>
  \<open>terminateTunnelSession\<close> runs with a context of its own, so the cancellation that made the fork fail
  does not stop it. \<open>ForkRemoteTunnel\<close> hands the child the configuration with the session.
\<close>

definition terminateTunnelSession :: "unit result \<Rightarrow> session_params \<Rightarrow> (ssm_event, unit) eff" where
  "terminateTunnelSession terminated p = perform (TerminateSession (SessionId p)) terminated"

definition fork_ssm_tunnel :: "session_response result \<Rightarrow> unit result \<Rightarrow> 'st fork_world \<Rightarrow>
    ssm_config \<Rightarrow> (ssm_event list \<times> int result) option" where
  "fork_ssm_tunnel reply terminated w cfg =
     (let start = [StartSession (CreateSessionInput cfg)] in
      case startTunnelSession reply of
        Inl e \<Rightarrow> Some (start, Inl e)
      | Inr p \<Rightarrow>
          (let cfg' = cfg\<lparr>SessionParams := Some p\<rparr> in
           case ForkTunnel w (TunnelType Ssm) (ssm_log_name cfg') (Inr (print_json (ssm_json cfg'))) of
             None \<Rightarrow> None
           | Some (evs, Inr pid) \<Rightarrow> Some (start @ map ForkEvent evs, Inr pid)
           | Some (evs, Inl e) \<Rightarrow>
               Some (start @ map ForkEvent evs @
                     (case terminateTunnelSession terminated p of
                        (tevs, Inl te) \<Rightarrow> tevs @ [LogTerminateFailure te]
                      | (tevs, Inr u) \<Rightarrow> tevs), Inl e)))"

section \<open>The child\<close>

definition GetEndpoint :: "(string \<Rightarrow> string result) \<Rightarrow> string \<Rightarrow> string result" where
  "GetEndpoint endpoint region = endpoint region"

text \<open>The plugin's arguments; how the request, a type of the SDK, is marshalled is a parameter.\<close>

definition plugin_args :: "(session_input \<Rightarrow> string) \<Rightarrow> ssm_config \<Rightarrow> session_params \<Rightarrow>
    string \<Rightarrow> string list" where
  "plugin_args input_json cfg p endpoint =
     [''session-manager-plugin'', print_json (session_params_json p), SSMRegion cfg, ''StartSession'', SSMProfile cfg,
      input_json (CreateSessionInput cfg), endpoint]"

datatype ssm_child_event = SignalWhenServing string string | StartPlugin "string list"

definition start_ssm_tunnel :: "(session_input \<Rightarrow> string) \<Rightarrow> (string \<Rightarrow> string result) \<Rightarrow>
    string \<Rightarrow> unit result \<Rightarrow> (ssm_child_event, unit) eff" where
  "start_ssm_tunnel input_json endpoint cfgJson watched =
     and_then (pure_res (unmarshal ssm_fields empty_ssm_config cfgJson)) (\<lambda>cfg.
       case SessionParams cfg of
         None \<Rightarrow> pure_res (Inl (ErrNew ''missing SSM session parameters''))
       | Some p \<Rightarrow>
           and_then (pure_res watched) (\<lambda>u.
           and_then (pure_res (GetEndpoint endpoint (SSMRegion cfg))) (\<lambda>url.
           ([SignalWhenServing ''localhost'' (LocalPort cfg),
             StartPlugin (plugin_args input_json cfg p url)], Inr ()))))"

section \<open>Properties\<close>

lemma CreateSessionInput_params [simp]:
  "CreateSessionInput (cfg\<lparr>SessionParams := p\<rparr>) = CreateSessionInput cfg"
  by (simp add: CreateSessionInput_def Let_def)

text \<open>C20: No SSM session is left behind by a failed start. When the service opened a session, the parent
  terminates exactly that session, once, if the tunnel process could not be started, and reports
  the error of the start, whether or not the termination worked; it does not touch the session
  when the process runs.\<close>

theorem ssm_session_not_leaked:
  assumes "fork_ssm_tunnel (Inr \<lparr>sr_id = Some i, sr_token = Some t, sr_url = Some u\<rparr>) terminated w cfg = Some (evs, r)"
  shows "filter (\<lambda>ev. \<exists>j. ev = TerminateSession j) evs = (if is_ok r then [] else [TerminateSession i]) \<and>
    hd evs = StartSession (CreateSessionInput cfg) \<and>
    (\<exists>fevs. ForkTunnel w (TunnelType Ssm) (ssm_log_name cfg)
       (Inr (print_json (ssm_json (cfg\<lparr>SessionParams := Some \<lparr>SessionId = i, TokenValue = t, StreamUrl = u\<rparr>\<rparr>)))) = Some (fevs, r))"
proof -
  have none: "filter (\<lambda>ev. \<exists>j. ev = TerminateSession j) (map ForkEvent xs) = []" for xs
    by (induction xs) auto
  have name: "ssm_log_name (cfg\<lparr>SessionParams := p\<rparr>) = ssm_log_name cfg" for p by (simp add: ssm_log_name_def)
  show ?thesis
    using assms
    by (auto simp: fork_ssm_tunnel_def terminateTunnelSession_def perform_def startTunnelSession_def Let_def none name split: option.splits sum.splits)
qed

definition ssm_sample :: ssm_config where
  "ssm_sample = \<lparr>LocalPort = ''5000'', SSMInstance = ''i-1'', SSMDocument = [], SSMProfile = [], SSMRoleARN = [],
     SSMRegion = ''eu-west-1'', TargetHost = ''db'', TargetPort = ''5432'', SessionParams = None\<rparr>"

theorem ssm_session_not_leaked_witness:
  "\<exists>evs r. fork_ssm_tunnel (Inr \<lparr>sr_id = Some ''s-1'', sr_token = Some ''t'', sr_url = Some ''wss''\<rparr>) (Inl ErrDeadline)
       (sample_world\<lparr>fw_ctx := Some ErrCanceled\<rparr>) ssm_sample = Some (evs, r) \<and>
     TerminateSession ''s-1'' \<in> set evs"
proof -
  obtain evs r where run: "fork_ssm_tunnel (Inr \<lparr>sr_id = Some ''s-1'', sr_token = Some ''t'', sr_url = Some ''wss''\<rparr>)
      (Inl ErrDeadline) (sample_world\<lparr>fw_ctx := Some ErrCanceled\<rparr>) ssm_sample = Some (evs, r)" "\<not> is_ok r"
    by (simp add: fork_ssm_tunnel_def terminateTunnelSession_def perform_def startTunnelSession_def fork_defs sample_world_def)
  with ssm_session_not_leaked [OF run(1)] have "filter (\<lambda>ev. \<exists>j. ev = TerminateSession j) evs = [TerminateSession ''s-1'']" by simp
  then have "TerminateSession ''s-1'' \<in> set (filter (\<lambda>ev. \<exists>j. ev = TerminateSession j) evs)" by simp
  with run(1) show ?thesis by auto
qed

text \<open>The child continues the parent's session. From the text the parent hands over, the child starts
  the plugin with the session the parent opened and with the very request the parent made, and
  waits for the local port of that request; from a text without a session it starts nothing.\<close>

lemma ssm_child_continues_session:
  assumes "ssm_encodable cfg" and "session_params_encodable p"
  shows "start_ssm_tunnel input_json endpoint (print_json (ssm_json (cfg\<lparr>SessionParams := Some p\<rparr>))) (Inr ()) =
     (case endpoint (SSMRegion cfg) of
        Inl e \<Rightarrow> ([], Inl e)
      | Inr url \<Rightarrow> ([SignalWhenServing ''localhost'' (LocalPort cfg),
          StartPlugin [''session-manager-plugin'', print_json (session_params_json p), SSMRegion cfg, ''StartSession'',
            SSMProfile cfg, input_json (CreateSessionInput cfg), url]], Inr ())) \<and>
   si_parameters (CreateSessionInput cfg) ''localPortNumber'' = Some [LocalPort cfg] \<and>
   fst (start_ssm_tunnel input_json endpoint (print_json (ssm_json (cfg\<lparr>SessionParams := None\<rparr>))) watched) = []"
proof -
  have "ssm_encodable (cfg\<lparr>SessionParams := Some p\<rparr>)" "ssm_encodable (cfg\<lparr>SessionParams := None\<rparr>)"
    using assms by (simp_all add: ssm_encodable_def)
  from this [THEN ssm_codec.unmarshal_marshal] show ?thesis
    by (auto simp: start_ssm_tunnel_def result_simps GetEndpoint_def plugin_args_def CreateSessionInput_def Let_def
        split: sum.splits)
qed

lemma ssm_child_continues_session_witness:
  "fst (start_ssm_tunnel (\<lambda>i. ''{}'') (\<lambda>r. Inr ''https://ssm'') (print_json (ssm_json (ssm_sample\<lparr>SessionParams :=
      Some \<lparr>SessionId = ''s-1'', TokenValue = ''t'', StreamUrl = ''wss''\<rparr>\<rparr>))) (Inr ())) =
   [SignalWhenServing ''localhost'' ''5000'', StartPlugin [''session-manager-plugin'',
      print_json (session_params_json \<lparr>SessionId = ''s-1'', TokenValue = ''t'', StreamUrl = ''wss''\<rparr>), ''eu-west-1'',
      ''StartSession'', [], ''{}'', ''https://ssm'']]"
proof -
  have "ssm_encodable ssm_sample" "session_params_encodable \<lparr>SessionId = ''s-1'', TokenValue = ''t'', StreamUrl = ''wss''\<rparr>"
    by (simp_all add: ssm_encodable_def ssm_sample_def session_params_encodable_def)
  from ssm_child_continues_session [OF this] show ?thesis by (simp add: ssm_sample_def)
qed

end
