(* ===== verification/Duplex.thy ===== *)
theory Duplex
  imports RelayInv Refinement "HOL-Library.Sublist"
begin

text \<open>
  What a copier between two streams promises, whatever loop it uses: two ordered, lossless
  directions, each of which passes the end of its source on as a half-close after the last byte, and
  a return after both ends. The relay is interpreted here, the copy loop of the SSH test server in
  \<open>SshTestServer\<close>.
\<close>

section \<open>Specification\<close>

text \<open>A direction is named by its source; \<open>Got y\<close> is what the stream \<open>y\<close> takes, from the other side.\<close>

datatype duplex_event = Sent side bytes | SentEnd side | Got side bytes | GotEnd side | Finished

record duplex =
  held :: "side \<Rightarrow> bytes"
  ended :: "side \<Rightarrow> bool"
  passed_on :: "side \<Rightarrow> bool"
  finished :: bool

definition fresh_duplex :: duplex where
  "fresh_duplex = \<lparr>held = (\<lambda>_. []), ended = (\<lambda>_. False), passed_on = (\<lambda>_. False), finished = False\<rparr>"

fun duplex_action :: "duplex_event \<Rightarrow> duplex \<Rightarrow> duplex option" where
  "duplex_action (Sent x bs) p =
     (if ended p x then None else Some (p\<lparr>held := (held p)(x := held p x @ bs)\<rparr>))"
| "duplex_action (SentEnd x) p = (if ended p x then None else Some (p\<lparr>ended := (ended p)(x := True)\<rparr>))"
| "duplex_action (Got y bs) p =
     (if prefix bs (held p (other y))
      then Some (p\<lparr>held := (held p)(other y := drop (length bs) (held p (other y)))\<rparr>) else None)"
| "duplex_action (GotEnd y) p =
     (if ended p (other y) \<and> held p (other y) = [] \<and> \<not> passed_on p (other y)
      then Some (p\<lparr>passed_on := (passed_on p)(other y := True)\<rparr>) else None)"
| "duplex_action Finished p =
     (if passed_on p SideA \<and> passed_on p SideB \<and> \<not> finished p then Some (p\<lparr>finished := True\<rparr>) else None)"

definition duplex_step :: "duplex \<Rightarrow> duplex_event \<Rightarrow> duplex \<Rightarrow> bool" where
  "duplex_step p e q = (duplex_action e p = Some q)"

definition duplex_obs :: "duplex \<Rightarrow> duplex_event \<Rightarrow> duplex_event list" where
  "duplex_obs p e = [e]"

lemma duplex_observed_one: "duplex_action e p = Some q \<Longrightarrow> observed duplex_step duplex_obs p [e] q"
  by (rule observed_one [where l = e]) (simp_all add: duplex_step_def duplex_obs_def)

section \<open>What a trace of the specification shows\<close>

fun sent_by :: "side \<Rightarrow> duplex_event list \<Rightarrow> bytes" where
  "sent_by x [] = []"
| "sent_by x (e # es) = (case e of Sent y bs \<Rightarrow> if y = x then bs else [] | _ \<Rightarrow> []) @ sent_by x es"

fun got_by :: "side \<Rightarrow> duplex_event list \<Rightarrow> bytes" where
  "got_by x [] = []"
| "got_by x (e # es) = (case e of Got y bs \<Rightarrow> if y = x then bs else [] | _ \<Rightarrow> []) @ got_by x es"

definition duplex_inv :: "duplex \<Rightarrow> bool" where
  "duplex_inv p \<longleftrightarrow> (\<forall>x. passed_on p x \<longrightarrow> ended p x \<and> held p x = []) \<and>
     (finished p \<longrightarrow> (\<forall>x. passed_on p x))"

lemma eq_other_iff: "SideA = other y \<longleftrightarrow> y = SideB" "SideB = other y \<longleftrightarrow> y = SideA"
  by (cases y; simp)+

lemma all_sides: "(\<forall>x. P x) \<longleftrightarrow> P SideA \<and> P SideB"
  by (metis side.exhaust)

lemma duplex_inv_step: "duplex_step p e q \<Longrightarrow> duplex_inv p \<Longrightarrow> duplex_inv q"
  by (cases e) (auto simp: duplex_step_def duplex_inv_def all_sides split: if_split_asm)

interpretation duplexes: invariant_system "\<lambda>p. p = fresh_duplex" duplex_step duplex_inv
  by unfold_locales (simp add: duplex_inv_def fresh_duplex_def, rule duplex_inv_step)

lemma duplex_step_trace:
  assumes "duplex_step p e t"
  shows "held p x @ sent_by x [e] = got_by (other x) [e] @ held t x"
    and "ended t x \<longleftrightarrow> ended p x \<or> e = SentEnd x"
    and "passed_on t x \<longleftrightarrow> passed_on p x \<or> e = GotEnd (other x)"
    and "finished t \<longleftrightarrow> finished p \<or> e = Finished"
proof -
  have e: "duplex_action e p = Some t" using assms by (simp add: duplex_step_def)
  show "held p x @ sent_by x [e] = got_by (other x) [e] @ held t x"
    using e by (cases e; cases x) (auto simp: prefix_def eq_other_iff split: if_split_asm)
  show "ended t x \<longleftrightarrow> ended p x \<or> e = SentEnd x"
    using e by (cases e) (auto split: if_split_asm)
  show "passed_on t x \<longleftrightarrow> passed_on p x \<or> e = GotEnd (other x)"
    using e by (cases e; cases x) (auto simp: eq_other_iff split: if_split_asm)
  show "finished t \<longleftrightarrow> finished p \<or> e = Finished"
    using e by (cases e) (auto split: if_split_asm)
qed

lemma traces_append [simp]:
  "sent_by x (es @ fs) = sent_by x es @ sent_by x fs" "got_by x (es @ fs) = got_by x es @ got_by x fs"
  by (induction es) simp_all

lemma duplex_trace:
  assumes "observed duplex_step duplex_obs p es q"
  shows "held p x @ sent_by x es = got_by (other x) es @ held q x \<and>
    (ended q x \<longleftrightarrow> ended p x \<or> SentEnd x \<in> set es) \<and>
    (passed_on q x \<longleftrightarrow> passed_on p x \<or> GotEnd (other x) \<in> set es) \<and>
    (finished q \<longleftrightarrow> finished p \<or> Finished \<in> set es)"
  using assms
proof (induction rule: observed.induct)
  case (observed_cons p e t es q)
  have "held p x @ sent_by x (e # es) = (held p x @ sent_by x [e]) @ sent_by x es" by simp
  also have "\<dots> = got_by (other x) [e] @ held t x @ sent_by x es"
    by (simp only: duplex_step_trace(1) [OF observed_cons.hyps(1)] append_assoc)
  also have "\<dots> = got_by (other x) (e # es) @ held q x" using observed_cons.IH by simp
  finally show ?case
    using observed_cons.IH duplex_step_trace(2-4) [OF observed_cons.hyps(1)] by (auto simp: duplex_obs_def)
qed simp

lemma duplex_delivers:
  assumes "observed duplex_step duplex_obs fresh_duplex es q"
  shows "prefix (got_by (other x) es) (sent_by x es) \<and>
    (GotEnd (other x) \<in> set es \<longrightarrow> SentEnd x \<in> set es \<and> got_by (other x) es = sent_by x es) \<and>
    (Finished \<in> set es \<longrightarrow> GotEnd (other x) \<in> set es)"
proof -
  have inv: "duplex_inv q"
    using observed_stable [OF assms, of duplex_inv] duplexes.inv_init duplex_inv_step by blast
  show ?thesis
    using duplex_trace [OF assms, of x] inv by (auto simp: fresh_duplex_def duplex_inv_def prefix_def)
qed

section \<open>What a step does to the streams\<close>

text \<open>
  The bytes a stream takes, its write side closing, and the closing of the last of the two streams,
  read off the streams before and after a step.
\<close>

definition stream_event :: "side \<Rightarrow> relay_stream \<Rightarrow> relay_stream \<Rightarrow> duplex_event list" where
  "stream_event y d e =
     (if ep_out e = ep_out d then [] else [Got y (drop (length (ep_out d)) (ep_out e))]) @
     (if ep_wr d \<and> \<not> ep_wr e then [GotEnd y] else [])"

definition stream_events :: "(side \<Rightarrow> relay_stream) \<Rightarrow> (side \<Rightarrow> relay_stream) \<Rightarrow> duplex_event list" where
  "stream_events f g = stream_event SideA (f SideA) (g SideA) @ stream_event SideB (f SideB) (g SideB) @
     (if (ep_open (f SideA) \<or> ep_open (f SideB)) \<and> \<not> ep_open (g SideA) \<and> \<not> ep_open (g SideB)
      then [Finished] else [])"

lemma stream_events_same [simp]: "stream_events f f = []"
  by (auto simp: stream_events_def stream_event_def)

lemma stream_events_took:
  "ep_open (f y) \<Longrightarrow> bs \<noteq> [] \<Longrightarrow> stream_events f (f(y := (f y)\<lparr>ep_out := ep_out (f y) @ bs\<rparr>)) = [Got y bs]"
  by (cases y) (auto simp: stream_events_def stream_event_def)

lemma stream_events_half_closed:
  "ep_open (f y) \<Longrightarrow> ep_wr (f y) \<Longrightarrow> stream_events f (f(y := (f y)\<lparr>ep_wr := False\<rparr>)) = [GotEnd y]"
  by (cases y) (auto simp: stream_events_def stream_event_def)

lemma stream_events_closed:
  "stream_events f (f(y := (f y)\<lparr>ep_open := False\<rparr>)) =
     (if ep_open (f y) \<and> \<not> ep_open (f (other y)) then [Finished] else [])"
  by (cases y) (auto simp: stream_events_def stream_event_def)

section \<open>The contract of a copier\<close>

text \<open>What a direction of a copier delivers of its source.\<close>

definition delivers :: "side \<Rightarrow> duplex_event list \<Rightarrow> side \<Rightarrow> duplex_event list \<Rightarrow> bool" where
  "delivers x es y fs \<longleftrightarrow> prefix (got_by y fs) (sent_by x es) \<and>
     (GotEnd y \<in> set fs \<longrightarrow> SentEnd x \<in> set es \<and> got_by y fs = sent_by x es)"

locale duplex_copier = simulation init step inv obs "\<lambda>p. p = fresh_duplex" duplex_step duplex_obs rel
  for init :: "'s \<Rightarrow> bool" and step :: "'s \<Rightarrow> 'l \<Rightarrow> 's \<Rightarrow> bool" and inv :: "'s \<Rightarrow> bool"
    and obs :: "'s \<Rightarrow> 'l \<Rightarrow> duplex_event list" and rel :: "'s \<Rightarrow> duplex \<Rightarrow> bool"
begin

lemma copies:
  assumes "init s" and "observed step obs s es t"
  shows "delivers x es (other x) es"
    and "Finished \<in> set es \<Longrightarrow> GotEnd (other x) \<in> set es"
  using refines [OF assms] duplex_delivers [of es] by (auto simp: delivers_def)

end

text \<open>
  What a direction has delivered when it holds nothing back: everything, and the end of the
  destination is seen if and only if the source has ended.
\<close>

definition delivers_all :: "side \<Rightarrow> duplex_event list \<Rightarrow> side \<Rightarrow> duplex_event list \<Rightarrow> bool" where
  "delivers_all x es y fs \<longleftrightarrow> got_by y fs = sent_by x es \<and> (GotEnd y \<in> set fs \<longleftrightarrow> SentEnd x \<in> set es)"

text \<open>
  Where a direction of a copier is, and how the specification moves with it: \<open>duplex_rel\<close> relates the
  two directions and whether the copier has returned to a state of the specification.
\<close>

datatype direction = Reading | Holding bytes | Ending | Ended

fun dir_rel :: "direction \<Rightarrow> bytes \<Rightarrow> bool \<Rightarrow> bool \<Rightarrow> bool" where
  "dir_rel Reading h en pa \<longleftrightarrow> h = [] \<and> \<not> en \<and> \<not> pa"
| "dir_rel (Holding bs) h en pa \<longleftrightarrow> h = bs \<and> \<not> en \<and> \<not> pa"
| "dir_rel Ending h en pa \<longleftrightarrow> h = [] \<and> en \<and> \<not> pa"
| "dir_rel Ended h en pa \<longleftrightarrow> h = [] \<and> en \<and> pa"

definition duplex_rel :: "(side \<Rightarrow> direction) \<Rightarrow> bool \<Rightarrow> duplex \<Rightarrow> bool" where
  "duplex_rel f returned p \<longleftrightarrow> (\<forall>x. dir_rel (f x) (held p x) (ended p x) (passed_on p x)) \<and> finished p = returned"

lemma duplex_rel_at: "duplex_rel f b p \<Longrightarrow> f x = d \<Longrightarrow> dir_rel d (held p x) (ended p x) (passed_on p x)"
  by (auto simp: duplex_rel_def)

lemma duplex_rel_fresh: "duplex_rel (\<lambda>x. Reading) False fresh_duplex"
  by (simp add: duplex_rel_def fresh_duplex_def)

definition shows_as :: "duplex \<Rightarrow> duplex_event list \<Rightarrow> (side \<Rightarrow> direction) \<Rightarrow> bool \<Rightarrow> bool" where
  "shows_as p es f b \<longleftrightarrow> (\<exists>q. observed duplex_step duplex_obs p es q \<and> duplex_rel f b q)"

lemma shows_none: "duplex_rel f b p \<Longrightarrow> shows_as p [] f b"
  unfolding shows_as_def by (blast intro: observed_nil)

lemma shows_one: "duplex_action e p = Some q \<Longrightarrow> duplex_rel f b q \<Longrightarrow> shows_as p [e] f b"
  unfolding shows_as_def by (blast intro: duplex_observed_one)

lemma shows_sent: "duplex_rel f b p \<Longrightarrow> f x = Reading \<Longrightarrow> shows_as p [Sent x bs] (f(x := Holding bs)) b"
  using duplex_rel_at [of f b p x Reading] by (intro shows_one) (auto simp: duplex_rel_def)

lemma shows_sent_end: "duplex_rel f b p \<Longrightarrow> f x = Reading \<Longrightarrow> shows_as p [SentEnd x] (f(x := Ending)) b"
  using duplex_rel_at [of f b p x Reading] by (intro shows_one) (auto simp: duplex_rel_def)

lemma shows_got: "duplex_rel f b p \<Longrightarrow> f x = Holding bs \<Longrightarrow> shows_as p [Got (other x) bs] (f(x := Reading)) b"
  using duplex_rel_at [of f b p x "Holding bs"] by (intro shows_one) (auto simp: duplex_rel_def)

lemma shows_got_end: "duplex_rel f b p \<Longrightarrow> f x = Ending \<Longrightarrow> shows_as p [GotEnd (other x)] (f(x := Ended)) b"
  using duplex_rel_at [of f b p x Ending] by (intro shows_one) (auto simp: duplex_rel_def)

lemma shows_finished:
  "duplex_rel f False p \<Longrightarrow> f SideA = Ended \<Longrightarrow> f SideB = Ended \<Longrightarrow> shows_as p [Finished] f True"
  using duplex_rel_at [of f False p SideA Ended] duplex_rel_at [of f False p SideB Ended]
  by (intro shows_one) (auto simp: duplex_rel_def)

text \<open>A copier holds nothing back when both its directions wait for their source or have ended.\<close>

definition settled :: "(side \<Rightarrow> direction) \<Rightarrow> bool" where
  "settled f \<longleftrightarrow> (\<forall>x. f x = Reading \<or> f x = Ended)"

text \<open>
  A copier whose directions are \<open>dirs\<close>: by its own steps, which show nothing of a source, it gets to
  hold nothing back, whatever its sources do.
\<close>

locale settling_copier = duplex_copier init step inv obs rel
  for init :: "'s \<Rightarrow> bool" and step :: "'s \<Rightarrow> 'l \<Rightarrow> 's \<Rightarrow> bool" and inv :: "'s \<Rightarrow> bool"
    and obs :: "'s \<Rightarrow> 'l \<Rightarrow> duplex_event list" and rel :: "'s \<Rightarrow> duplex \<Rightarrow> bool" +
  fixes dirs :: "'s \<Rightarrow> side \<Rightarrow> direction" and returned :: "'s \<Rightarrow> bool" and passes :: "'l \<Rightarrow> bool"
  assumes rel_dirs: "rel s = duplex_rel (dirs s) (returned s)"
    and pass: "inv s \<Longrightarrow> dirs s x = Holding bs \<or> dirs s x = Ending \<Longrightarrow>
      \<exists>l t. passes l \<and> step s l t \<and> dirs t (other x) = dirs s (other x) \<and> (dirs t x = Reading \<or> dirs t x = Ended)"
begin

lemma settled_delivers_all:
  assumes "init s" and "observed step obs s es t" and "settled (dirs t)"
  shows "delivers_all x es (other x) es"
proof -
  from refines [OF assms(1,2)] obtain q where q: "observed duplex_step duplex_obs fresh_duplex es q" "rel t q" by blast
  from assms(3) have "dirs t x = Reading \<or> dirs t x = Ended" by (simp add: settled_def)
  then have "held q x = [] \<and> (ended q x \<longleftrightarrow> passed_on q x)"
    using duplex_rel_at [of "dirs t" "returned t" q x] q(2) by (auto simp: rel_dirs)
  then show ?thesis using duplex_trace [OF q(1), of x] by (simp add: delivers_all_def fresh_duplex_def)
qed

lemma settles_one:
  assumes "inv s"
  shows "\<exists>ls t. path step s ls t \<and> (\<forall>l \<in> set ls. passes l) \<and> length ls \<le> 1 \<and> inv t \<and>
    dirs t (other x) = dirs s (other x) \<and> (dirs t x = Reading \<or> dirs t x = Ended)"
proof (cases "dirs s x = Reading \<or> dirs s x = Ended")
  case True
  with assms show ?thesis by (intro exI [of _ "[]"] exI [of _ s]) (simp add: path_nil)
next
  case False
  then have "\<exists>bs. dirs s x = Holding bs \<or> dirs s x = Ending" by (cases "dirs s x") auto
  then obtain l t where l: "passes l" "step s l t" and d: "dirs t (other x) = dirs s (other x)"
    "dirs t x = Reading \<or> dirs t x = Ended" using pass [OF assms, of x] by blast
  from inv_step [OF l(2) assms] l d show ?thesis
    by (intro exI [of _ "[l]"] exI [of _ t]) (auto intro: path.intros)
qed

lemma settles:
  assumes "inv s"
  shows "\<exists>ls t. path step s ls t \<and> (\<forall>l \<in> set ls. passes l) \<and> length ls \<le> 2 \<and> settled (dirs t)"
proof -
  from settles_one [OF assms, of SideA] obtain ls t where l: "path step s ls t" "\<forall>l \<in> set ls. passes l"
    "length ls \<le> 1" "inv t" "dirs t SideA = Reading \<or> dirs t SideA = Ended" by blast
  from settles_one [OF l(4), of SideB] obtain ms u where m: "path step t ms u" "\<forall>l \<in> set ms. passes l"
    "length ms \<le> 1" "dirs u SideA = dirs t SideA" "dirs u SideB = Reading \<or> dirs u SideB = Ended" by auto
  from l m show ?thesis
    by (intro exI [of _ "ls @ ms"] exI [of _ u]) (auto simp: settled_def all_sides intro: path_append)
qed

end

section \<open>The relay\<close>

text \<open>
  Relays between two streams with \<open>CloseWrite\<close> (a TCP connection and an SSH channel), as long as no
  call fails; what the observer sees of each step.
\<close>

definition clean_relay_init :: "relay \<Rightarrow> bool" where
  "clean_relay_init s \<longleftrightarrow> (\<exists>g. s = RelayDrain (fresh_endpoint True False) (fresh_endpoint True False) g)"

definition clean_relay_step :: "relay \<Rightarrow> relay_label \<Rightarrow> relay \<Rightarrow> bool" where
  "clean_relay_step s l t \<longleftrightarrow> relay_step s l t \<and> \<not> relay_failed t"

fun relay_source_event :: "relay_label \<Rightarrow> duplex_event list" where
  "relay_source_event (RRead x bs) = [Sent x bs]"
| "relay_source_event (REof x) = [SentEnd x]"
| "relay_source_event l = []"

definition relay_obs :: "relay \<Rightarrow> relay_label \<Rightarrow> duplex_event list" where
  "relay_obs s l = relay_source_event l @
     (case relay_action l s of None \<Rightarrow> [] | Some t \<Rightarrow> stream_events (ep s) (ep t))"

definition clean_relay_inv :: "relay \<Rightarrow> bool" where
  "clean_relay_inv s \<longleftrightarrow> relay_inv s \<and> \<not> relay_failed s \<and> (\<forall>x. ep_half (ep s x) \<and> \<not> ep_masks (ep s x)) \<and>
     (main_at s \<noteq> MReturned \<longrightarrow> ep_open (ep s SideB)) \<and> (\<forall>x. pump s x \<noteq> PWrite [])"

fun pump_dir :: "pump_pc \<Rightarrow> direction" where
  "pump_dir PRead = Reading"
| "pump_dir (PWrite bs) = Holding bs"
| "pump_dir PEof = Ending"
| "pump_dir p = Ended"

definition relay_dirs :: "relay \<Rightarrow> side \<Rightarrow> direction" where
  "relay_dirs s = (\<lambda>x. pump_dir (pump s x))"

definition relay_rel :: "relay \<Rightarrow> duplex \<Rightarrow> bool" where
  "relay_rel s = duplex_rel (relay_dirs s) (main_at s = MReturned)"

lemma relay_ep_kind:
  "relay_step s l t \<Longrightarrow> ep_half (ep t x) = ep_half (ep s x) \<and> ep_masks (ep t x) = ep_masks (ep s x)"
  by (cases l; clarsimp simp: relay_step_def relay_action_defs relay_update_defs Let_def
      split: if_split_asm pump_pc.split_asm)

lemma clean_relay_pumps:
  "clean_relay_inv s \<Longrightarrow> pump s x \<noteq> PFailDst \<and> pump s x \<noteq> PFailSrc \<and> pump s x \<noteq> PDone False"
  by (auto simp: clean_relay_inv_def dest: relay_inv_pump [of s x] simp: pump_inv_def)

lemma clean_relay_open_b:
  assumes "clean_relay_step s l t" and "clean_relay_inv s" and "main_at t \<noteq> MReturned"
  shows "ep_open (ep t SideB)"
  using assms clean_relay_pumps [OF assms(2)]
  by (cases l; clarsimp simp: clean_relay_step_def clean_relay_inv_def relay_step_def relay_action_defs
      relay_update_defs Let_def split: if_split_asm pump_pc.split_asm)

lemma clean_relay_held:
  "relay_step s l t \<Longrightarrow> (\<And>x. pump s x \<noteq> PWrite []) \<Longrightarrow> pump t x \<noteq> PWrite []"
  by (cases l; clarsimp simp: relay_step_def relay_action_defs relay_update_defs Let_def
      split: if_split_asm pump_pc.split_asm)

lemma clean_relay_inv_step:
  assumes step: "clean_relay_step s l t" and inv: "clean_relay_inv s"
  shows "clean_relay_inv t"
proof -
  have s: "relay_step s l t" "\<not> relay_failed t" using step by (simp_all add: clean_relay_step_def)
  from inv have "pump t x \<noteq> PWrite []" for x
    by (intro clean_relay_held [OF s(1)]) (simp add: clean_relay_inv_def)
  moreover have "relay_inv t" using inv s(1) by (auto simp: clean_relay_inv_def intro: relay_inv_step)
  moreover have "ep_half (ep t x) \<and> \<not> ep_masks (ep t x)" for x
    using relay_ep_kind [OF s(1), of x] inv by (simp add: clean_relay_inv_def)
  ultimately show ?thesis
    using clean_relay_open_b [OF step inv] s(2) by (simp add: clean_relay_inv_def)
qed

lemma clean_relay_inv_init: "clean_relay_init s \<Longrightarrow> clean_relay_inv s"
proof -
  assume c: "clean_relay_init s"
  then have "relay_init s" unfolding clean_relay_init_def relay_init_def by blast
  then have "relay_inv s" by (rule relay_inv_init)
  with c show ?thesis
    by (auto simp: clean_relay_init_def clean_relay_inv_def all_sides RelayDrain_def fresh_endpoint_def)
qed

lemma clean_relay_dst_open:
  assumes "clean_relay_inv s" and "\<not> pump_done (pump s x)"
  shows "ep_open (ep s (other x))" and "ep_wr (ep s (other x))" and "ep_half (ep s (other x))"
proof -
  have inv: "relay_inv s" and c: "\<not> relay_failed s" "\<And>x. ep_half (ep s x)" "main_at s \<noteq> MReturned \<Longrightarrow> ep_open (ep s SideB)"
    using assms(1) by (auto simp: clean_relay_inv_def)
  show "ep_half (ep s (other x))" by (rule c(2))
  show "ep_wr (ep s (other x))" using relay_inv_pump [OF inv, of x] assms(2) by (auto simp: pump_inv_def)
  have m: "main_at s \<noteq> MReturned \<and> (x = SideB \<longrightarrow> main_at s = MPump \<and> \<not> timer_fired s)"
    using inv assms(2) by (cases x) (auto simp: relay_inv_def main_inv_def)
  then show "ep_open (ep s (other x))"
    using inv c by (cases x) (auto simp: relay_inv_def open_inv_def)
qed

lemma clean_relay_half_open:
  assumes "clean_relay_inv s" and "pump s x = PEof"
  shows "ep_open (ep s (other x))" and "ep_wr (ep s (other x))"
  using clean_relay_dst_open [OF assms(1), of x] assms(2) by simp_all

lemma set_pump_dirs:
  "relay_dirs (set_pump x k s) = (relay_dirs s)(x := pump_dir k)" "relay_dirs (s\<lparr>ep := e\<rparr>) = relay_dirs s"
  "relay_dirs (s\<lparr>taken := tk\<rparr>) = relay_dirs s" "relay_dirs (s\<lparr>main_at := m\<rparr>) = relay_dirs s"
  "relay_dirs (s\<lparr>timer_fired := b\<rparr>) = relay_dirs s" "relay_dirs (close_ep x s) = relay_dirs s"
  "relay_dirs (take_bytes x bs s) = relay_dirs s"
  "main_at (set_pump x k s) = main_at s" "ep (set_pump x k s) = ep s" "main_at (close_ep x s) = main_at s"
  "main_at (take_bytes x bs s) = main_at s" "relay_failed (set_pump x k s) = relay_failed s"
  by (auto simp: relay_dirs_def set_pump_def close_ep_def take_bytes_def)

lemma relay_dirs_at: "relay_dirs s x = pump_dir (pump s x)"
  by (simp add: relay_dirs_def)

lemma relay_obs_step: "relay_action l s = Some t \<Longrightarrow> relay_obs s l = relay_source_event l @ stream_events (ep s) (ep t)"
  by (simp add: relay_obs_def)

lemma pump_shows:
  assumes inv: "clean_relay_inv s" and rel: "relay_rel s p" and ok: "\<not> relay_failed t"
  shows "pump_read x bs s = Some t \<Longrightarrow> shows_as p (Sent x bs # stream_events (ep s) (ep t)) (relay_dirs t) (main_at t = MReturned)"
    and "pump_eof x s = Some t \<Longrightarrow> shows_as p (SentEnd x # stream_events (ep s) (ep t)) (relay_dirs t) (main_at t = MReturned)"
    and "pump_write x s = Some t \<Longrightarrow> shows_as p (stream_events (ep s) (ep t)) (relay_dirs t) (main_at t = MReturned)"
    and "pump_half_close x w s = Some t \<Longrightarrow> shows_as p (stream_events (ep s) (ep t)) (relay_dirs t) (main_at t = MReturned)"
proof -
  have d: "duplex_rel (relay_dirs s) (main_at s = MReturned) p" using rel by (simp add: relay_rel_def)
  show "shows_as p (Sent x bs # stream_events (ep s) (ep t)) (relay_dirs t) (main_at t = MReturned)"
    if "pump_read x bs s = Some t"
    using that shows_sent [OF d, of x bs] by (auto simp: pump_read_def set_pump_dirs relay_dirs_at split: if_split_asm)
  show "shows_as p (SentEnd x # stream_events (ep s) (ep t)) (relay_dirs t) (main_at t = MReturned)"
    if "pump_eof x s = Some t"
    using that shows_sent_end [OF d, of x] by (auto simp: pump_eof_def set_pump_dirs relay_dirs_at split: if_split_asm)
  show "shows_as p (stream_events (ep s) (ep t)) (relay_dirs t) (main_at t = MReturned)" if "pump_write x s = Some t"
  proof -
    from that obtain bs where bs: "pump s x = PWrite bs" by (auto simp: pump_write_def split: pump_pc.split_asm)
    with inv have "bs \<noteq> []" by (auto simp: clean_relay_inv_def)
    moreover have "relay_dirs s x = Holding bs" using bs by (simp add: relay_dirs_def)
    ultimately show ?thesis using that ok bs shows_got [OF d, of x bs]
      by (auto simp: pump_write_def fail_pump_def set_pump_dirs stream_events_took take_bytes_def split: if_split_asm)
  qed
  show "shows_as p (stream_events (ep s) (ep t)) (relay_dirs t) (main_at t = MReturned)" if "pump_half_close x w s = Some t"
  proof -
    from that have pc: "pump s x = PEof" by (simp add: pump_half_close_def split: if_split_asm)
    then have "relay_dirs s x = Ending" by (simp add: relay_dirs_def)
    with that ok inv pc clean_relay_half_open [OF inv pc] shows_got_end [OF d, of x] show ?thesis
      by (auto simp: pump_half_close_def HalfClose_def Let_def set_pump_dirs stream_events_half_closed
          clean_relay_inv_def split: if_split_asm)
  qed
qed

lemma main_shows:
  assumes inv: "clean_relay_inv s" and rel: "relay_rel s p"
    and "main_join s = Some t \<or> main_drained s = Some t \<or> main_timer s = Some t \<or> main_waited s = Some t \<or>
      main_close_a s = Some t \<or> main_close_b s = Some t"
  shows "shows_as p (stream_events (ep s) (ep t)) (relay_dirs t) (main_at t = MReturned)"
proof -
  have d: "duplex_rel (relay_dirs s) (main_at s = MReturned) p" using rel by (simp add: relay_rel_def)
  have b: "main_at s \<noteq> MReturned \<Longrightarrow> ep_open (ep s SideB)" using inv by (simp add: clean_relay_inv_def)
  show ?thesis
  proof (cases "main_close_b s = Some t")
    case True
    then have at: "main_at s = MCloseB" by (auto simp: main_close_b_def split: if_split_asm)
    with inv have "pump_done (pump s SideA)" "pump_done (pump s SideB)" "\<not> ep_open (ep s SideA)"
      by (auto simp: clean_relay_inv_def relay_inv_def main_inv_def)
    with True at b d shows_finished [of "relay_dirs s" p] show ?thesis
      by (auto simp: main_close_b_def pump_done_iff relay_dirs_def close_ep_def stream_events_closed)
  next
    case False
    with assms(3) b shows_none [OF d] show ?thesis
      by (auto simp: relay_action_defs set_pump_dirs close_ep_def stream_events_closed relay_dirs_def
          split: if_split_asm)
  qed
qed

lemma clean_relay_sim:
  assumes step: "clean_relay_step s l t" and inv: "clean_relay_inv s" and rel: "relay_rel s p"
  shows "\<exists>q. observed duplex_step duplex_obs p (relay_obs s l) q \<and> relay_rel t q"
proof -
  have t: "relay_action l s = Some t" "\<not> relay_failed t"
    using step by (auto simp: clean_relay_step_def relay_step_def)
  have "shows_as p (relay_source_event l @ stream_events (ep s) (ep t)) (relay_dirs t) (main_at t = MReturned)"
  proof (cases l)
    case (RReadClosed x)
    with t inv show ?thesis
      by (auto simp: relay_action_defs relay_update_defs clean_relay_inv_def split: if_split_asm)
  qed (use t clean_relay_pumps [OF inv] in \<open>auto intro: pump_shows [OF inv rel t(2)] main_shows [OF inv rel]
    simp: pump_read_error_def pump_write_error_def pump_fail_dst_def pump_fail_src_def shutdown_a_def
      relay_update_defs split: if_split_asm pump_pc.split_asm\<close>)
  then show ?thesis by (simp add: shows_as_def relay_obs_step [OF t(1)] relay_rel_def)
qed

lemma clean_relay_rel_init: "clean_relay_init s \<Longrightarrow> relay_rel s fresh_duplex"
  by (auto simp: clean_relay_init_def relay_rel_def relay_dirs_def RelayDrain_def duplex_rel_fresh)

interpretation relay_copier: duplex_copier clean_relay_init clean_relay_step clean_relay_inv relay_obs relay_rel
  by unfold_locales
    (auto intro: clean_relay_inv_init clean_relay_inv_step clean_relay_rel_init clean_relay_sim)

text \<open>Writing what it holds and passing the end on are always possible to a pump, and succeed.\<close>

fun relay_passes :: "relay_label \<Rightarrow> bool" where
  "relay_passes (RWrite x) = True"
| "relay_passes (RHalf x works) = works"
| "relay_passes l = False"

lemma clean_relay_pass:
  assumes inv: "clean_relay_inv s" and "relay_dirs s x = Holding bs \<or> relay_dirs s x = Ending"
  shows "\<exists>l t. relay_passes l \<and> clean_relay_step s l t \<and> relay_dirs t (other x) = relay_dirs s (other x) \<and>
    (relay_dirs t x = Reading \<or> relay_dirs t x = Ended)"
proof (cases "pump s x")
  case (PWrite cs)
  with clean_relay_dst_open [OF inv, of x] inv show ?thesis
    by (intro exI [of _ "RWrite x"] exI [of _ "set_pump x PRead (take_bytes (other x) cs s)"])
      (auto simp: clean_relay_step_def relay_step_def pump_write_def relay_dirs_def clean_relay_inv_def
        set_pump_def take_bytes_def)
next
  case PEof
  with clean_relay_dst_open [OF inv, of x] inv show ?thesis
    by (intro exI [of _ "RHalf x True"] exI [of _ "the (pump_half_close x True s)"])
      (auto simp: clean_relay_step_def relay_step_def pump_half_close_def HalfClose_def Let_def relay_dirs_def
        clean_relay_inv_def set_pump_def)
qed (use assms(2) in \<open>simp_all add: relay_dirs_def\<close>)

interpretation relay_settles: settling_copier clean_relay_init clean_relay_step clean_relay_inv relay_obs relay_rel
  relay_dirs "\<lambda>s. main_at s = MReturned" relay_passes
  by unfold_locales (simp add: relay_rel_def, erule (1) clean_relay_pass)

text \<open>The same steps as a function, to run them.\<close>

definition clean_relay_action :: "relay_label \<Rightarrow> relay \<Rightarrow> relay option" where
  "clean_relay_action l s =
     (case relay_action l s of None \<Rightarrow> None | Some t \<Rightarrow> if relay_failed t then None else Some t)"

lemma clean_relay_step_action: "clean_relay_step = (\<lambda>s l t. clean_relay_action l s = Some t)"
  by (auto simp: fun_eq_iff clean_relay_step_def clean_relay_action_def relay_step_def split: option.split)

lemmas clean_relay_runs = exec_observed_run [where act = clean_relay_action and obs = relay_obs,
  folded clean_relay_step_action]

section \<open>Streams in series\<close>

text \<open>
  A connection that carries in order, without loss, what the stream \<open>y\<close> of one copier takes to the
  stream \<open>x\<close> of the next one, and its end after the last byte.
\<close>

definition carries :: "side \<Rightarrow> duplex_event list \<Rightarrow> side \<Rightarrow> duplex_event list \<Rightarrow> bool" where
  "carries y es x fs \<longleftrightarrow> prefix (sent_by x fs) (got_by y es) \<and>
     (SentEnd x \<in> set fs \<longrightarrow> GotEnd y \<in> set es \<and> sent_by x fs = got_by y es)"

lemma delivers_series:
  "delivers x es (other x) es \<Longrightarrow> carries (other x) es x fs \<Longrightarrow> delivers x fs (other x) fs \<Longrightarrow>
    delivers x es (other x) fs"
  by (auto simp: delivers_def carries_def intro: prefix_order.trans)

text \<open>A connection with nothing in flight: it has handed over everything it took, and the end.\<close>

definition carries_all :: "side \<Rightarrow> duplex_event list \<Rightarrow> side \<Rightarrow> duplex_event list \<Rightarrow> bool" where
  "carries_all y es x fs \<longleftrightarrow> sent_by x fs = got_by y es \<and> (SentEnd x \<in> set fs \<longleftrightarrow> GotEnd y \<in> set es)"

lemma delivers_all_series:
  "delivers_all x es (other x) es \<Longrightarrow> carries_all (other x) es x fs \<Longrightarrow> delivers_all x fs (other x) fs \<Longrightarrow>
    delivers_all x es (other x) fs"
  by (simp add: delivers_all_def carries_all_def)

end
