(* ===== verification/SshTestServer.thy ===== *)
theory SshTestServer
  imports Duplex GoStrings
begin

text \<open>
  The in-process bastion of the tests (\<open>internal/ssh/sshtest/server.go\<close>): its keys, its accept loops,
  the dispatch of channels and the copy loop of a channel, which is deliberately not the relay. Both
  loops meet the contract of \<open>Duplex\<close>, and so does a forwarded connection through the two of them.
\<close>

section \<open>Keys\<close>

definition User :: string where
  "User = ''tunneltest''"

text \<open>\<open>t.Fatalf\<close> ends the test: the code after it does not run.\<close>

datatype test_event = Fatalf string | ListenTcp string | CleanupCloses | GoAcceptLoop

definition fatalf :: "string \<Rightarrow> (test_event, 'a) eff" where
  "fatalf m = ([Fatalf m], Inl (ErrNew m))"

definition or_fatal :: "string \<Rightarrow> 'a result \<Rightarrow> (test_event, 'a) eff" where
  "or_fatal pre r = (case r of Inl e \<Rightarrow> fatalf (pre @ error_text e) | Inr x \<Rightarrow> pure_res (Inr x))"

definition newEd25519Signer :: "'k result \<Rightarrow> ('k \<Rightarrow> 's result) \<Rightarrow> (test_event, 'k \<times> 's) eff" where
  "newEd25519Signer GenerateKey NewSignerFromKey =
     and_then (or_fatal ''generating ed25519 key: '' GenerateKey) (\<lambda>priv.
     and_then (or_fatal ''creating signer: '' (NewSignerFromKey priv)) (\<lambda>signer.
       pure_res (Inr (priv, signer))))"

definition GenerateClientKey ::
    "'k result \<Rightarrow> ('k \<Rightarrow> 's result) \<Rightarrow> ('k \<Rightarrow> 'b result) \<Rightarrow> ('b \<Rightarrow> string) \<Rightarrow> ('s \<Rightarrow> 'p) \<Rightarrow>
     (test_event, string \<times> 'p) eff" where
  "GenerateClientKey GenerateKey NewSignerFromKey MarshalPrivateKey EncodeToMemory PublicKeyOf =
     and_then (newEd25519Signer GenerateKey NewSignerFromKey) (\<lambda>(priv, signer).
     and_then (or_fatal ''marshaling key: '' (MarshalPrivateKey priv)) (\<lambda>block.
       pure_res (Inr (EncodeToMemory block, PublicKeyOf signer))))"

section \<open>Server\<close>

text \<open>Public keys are compared by their wire form, \<open>key.Marshal()\<close>.\<close>

definition public_key_callback :: "string \<Rightarrow> string \<Rightarrow> unit result" where
  "public_key_callback authorized key =
     (if key = authorized then Inr () else Inl (ErrNew ''unauthorized public key''))"

record 's server_config =
  PublicKeyCallback :: "string \<Rightarrow> unit result"
  HostKeys :: "'s list"

text \<open>
  The configuration and the handler the accept loop serves with, and the port. \<open>tcp_port\<close> is the port of the address of
  the listener, \<open>None\<close> with the name of its type otherwise.
\<close>

definition StartServerWithChannelHandler ::
    "'k result \<Rightarrow> ('k \<Rightarrow> 's result) \<Rightarrow> 'l result \<Rightarrow> ('l \<Rightarrow> string + int) \<Rightarrow> string \<Rightarrow> 'h \<Rightarrow>
     (test_event, 's server_config \<times> 'h \<times> int) eff" where
  "StartServerWithChannelHandler GenerateKey NewSignerFromKey listen tcp_port authorizedKey handle =
     and_then (newEd25519Signer GenerateKey NewSignerFromKey) (\<lambda>(_, hostSigner).
       let config = \<lparr>PublicKeyCallback = public_key_callback authorizedKey, HostKeys = [hostSigner]\<rparr> in
       and_then (perform (ListenTcp ''127.0.0.1:0'') (Inr ())) (\<lambda>_.
       and_then (or_fatal ''listening: '' listen) (\<lambda>ln.
       and_then ([CleanupCloses, GoAcceptLoop], Inr ()) (\<lambda>_.
         case tcp_port ln of
           Inl ty \<Rightarrow> fatalf (''listener address is not TCP: '' @ ty)
         | Inr port \<Rightarrow> pure_res (Inr (config, handle, port))))))"

text \<open>The accept loop: every connection is handled in a goroutine of its own, until \<open>Accept\<close> fails.\<close>

fun accept_loop :: "'c result list \<Rightarrow> 'c list" where
  "accept_loop [] = []"
| "accept_loop (Inl e # rs) = []"
| "accept_loop (Inr c # rs) = c # accept_loop rs"

record new_channel =
  ChannelType :: string
  ExtraData :: bytes

datatype ssh_conn_event = GoDiscardRequests | GoHandle new_channel | CloseSshConn

text \<open>\<open>ssh.NewServerConn\<close> is an argument; its success gives the channels the client opens.\<close>

definition handleSSHConn ::
    "('s server_config \<Rightarrow> 'c \<Rightarrow> new_channel list result) \<Rightarrow> 's server_config \<Rightarrow> 'c \<Rightarrow> ssh_conn_event list" where
  "handleSSHConn NewServerConn config c =
     (case NewServerConn config c of
        Inl e \<Rightarrow> []
      | Inr chans \<Rightarrow> GoDiscardRequests # map GoHandle chans @ [CloseSshConn])"

section \<open>Channels\<close>

datatype reject_reason = UnknownChannelType | ConnectionFailed

datatype channel_event =
    RejectChannel reject_reason string
  | DialTarget string string
  | AcceptChannel
  | CloseDialled
  | DiscardChannelRequests

record direct_tcpip =
  DestAddr :: string
  DestPort :: "32 word"
  SrcAddr :: string
  SrcPort :: "32 word"

record direct_streamlocal =
  SocketPath :: string
  Reserved :: string
  ReservedU32 :: "32 word"

text \<open>
  A copy in one direction: reading, holding bytes, about to signal the end to its destination (after
  the end of the source or an error, which the loop does not tell apart), done. \<open>SideA\<close> is the
  channel and \<open>SideB\<close> the target; the goroutine copies from \<open>SideA\<close>, the function itself from \<open>SideB\<close>.
\<close>

datatype copy_pc = CopyRead | CopyWrite bytes | CopyEnd | CopyDone

datatype channel_pc = ServeCopying | ServeCloseChannel | ServeCloseTarget | ServeReturned

record fixture =
  stream :: "side \<Rightarrow> relay_stream"
  copying :: "side \<Rightarrow> copy_pc"
  read_from :: "side \<Rightarrow> bytes"
  serving :: channel_pc
  copy_failed :: "side \<Rightarrow> bool"

definition start_copy :: "relay_stream \<Rightarrow> relay_stream \<Rightarrow> fixture" where
  "start_copy ch target =
     \<lparr>stream = (\<lambda>x. case x of SideA \<Rightarrow> ch | SideB \<Rightarrow> target), copying = (\<lambda>_. CopyRead),
      read_from = (\<lambda>_. []), serving = ServeCopying, copy_failed = (\<lambda>_. False)\<rparr>"

text \<open>\<open>serveChannel\<close> up to its copy loops: \<open>dial\<close> is \<open>net.Dial\<close>, \<open>accept\<close> is \<open>nc.Accept\<close>.\<close>

definition serveChannel ::
    "(string \<Rightarrow> string \<Rightarrow> relay_stream result) \<Rightarrow> relay_stream result \<Rightarrow> string \<Rightarrow> string \<Rightarrow>
     (channel_event, fixture) eff" where
  "serveChannel dial accept network address =
     and_then (perform (DialTarget network address) (Inr ())) (\<lambda>_.
       case dial network address of
         Inl e \<Rightarrow> ([RejectChannel ConnectionFailed (error_text e)], Inl e)
       | Inr target \<Rightarrow>
           (case accept of
              Inl e \<Rightarrow> ([AcceptChannel, CloseDialled], Inl e)
            | Inr ch \<Rightarrow> ([AcceptChannel, DiscardChannelRequests], Inr (start_copy ch target))))"

definition handleDirectTCPIP ::
    "(bytes \<Rightarrow> direct_tcpip result) \<Rightarrow> (string \<Rightarrow> string \<Rightarrow> relay_stream result) \<Rightarrow> relay_stream result \<Rightarrow>
     new_channel \<Rightarrow> (channel_event, fixture) eff" where
  "handleDirectTCPIP Unmarshal dial accept nc =
     (case Unmarshal (ExtraData nc) of
        Inl e \<Rightarrow> ([RejectChannel ConnectionFailed ''bad direct-tcpip payload''], Inl e)
      | Inr payload \<Rightarrow>
          serveChannel dial accept ''tcp'' (join_host_port (DestAddr payload) (itoa (uint (DestPort payload)))))"

definition handleStreamLocal ::
    "(bytes \<Rightarrow> direct_streamlocal result) \<Rightarrow> (string \<Rightarrow> string \<Rightarrow> relay_stream result) \<Rightarrow>
     relay_stream result \<Rightarrow> new_channel \<Rightarrow> (channel_event, fixture) eff" where
  "handleStreamLocal Unmarshal dial accept nc =
     (case Unmarshal (ExtraData nc) of
        Inl e \<Rightarrow> ([RejectChannel ConnectionFailed ''bad direct-streamlocal payload''], Inl e)
      | Inr payload \<Rightarrow> serveChannel dial accept ''unix'' (SocketPath payload))"

definition handleChannel ::
    "(bytes \<Rightarrow> direct_tcpip result) \<Rightarrow> (bytes \<Rightarrow> direct_streamlocal result) \<Rightarrow>
     (string \<Rightarrow> string \<Rightarrow> relay_stream result) \<Rightarrow> relay_stream result \<Rightarrow> new_channel \<Rightarrow>
     (channel_event, fixture) eff" where
  "handleChannel UnmarshalTCP UnmarshalLocal dial accept nc =
     (if ChannelType nc = ''direct-tcpip'' then handleDirectTCPIP UnmarshalTCP dial accept nc
      else if ChannelType nc = ''direct-streamlocal@openssh.com''
      then handleStreamLocal UnmarshalLocal dial accept nc
      else ([RejectChannel UnknownChannelType ''unsupported channel type''],
            Inl (ErrNew ''unsupported channel type'')))"

text \<open>\<open>StartServer\<close>: the handler is \<open>handleChannel\<close>, for what the library and the network answer.\<close>

definition start_test_server where
  "start_test_server UnmarshalTCP UnmarshalLocal GenerateKey NewSignerFromKey listen tcp_port authorizedKey =
     StartServerWithChannelHandler GenerateKey NewSignerFromKey listen tcp_port authorizedKey
       (handleChannel UnmarshalTCP UnmarshalLocal)"

fun answers :: "channel_event \<Rightarrow> bool" where
  "answers (RejectChannel r m) = True"
| "answers AcceptChannel = True"
| "answers ev = False"

lemmas channel_defs = handleChannel_def handleDirectTCPIP_def handleStreamLocal_def serveChannel_def

section \<open>The copy loops\<close>

definition set_copy :: "side \<Rightarrow> copy_pc \<Rightarrow> fixture \<Rightarrow> fixture" where
  "set_copy x c s = s\<lparr>copying := (copying s)(x := c)\<rparr>"

definition set_stream :: "side \<Rightarrow> relay_stream \<Rightarrow> fixture \<Rightarrow> fixture" where
  "set_stream x e s = s\<lparr>stream := (stream s)(x := e)\<rparr>"

definition fail_copy :: "side \<Rightarrow> fixture \<Rightarrow> fixture" where
  "fail_copy x s = s\<lparr>copy_failed := (copy_failed s)(x := True)\<rparr>"

definition copy_read :: "side \<Rightarrow> bytes \<Rightarrow> fixture \<Rightarrow> fixture option" where
  "copy_read x bs s =
     (if copying s x = CopyRead \<and> ep_open (stream s x) \<and> bs \<noteq> []
      then Some (set_copy x (CopyWrite bs) (s\<lparr>read_from := (read_from s)(x := read_from s x @ bs)\<rparr>))
      else None)"

definition copy_eof :: "side \<Rightarrow> fixture \<Rightarrow> fixture option" where
  "copy_eof x s =
     (if copying s x = CopyRead \<and> ep_open (stream s x) then Some (set_copy x CopyEnd s) else None)"

text \<open>A read fails when the peer is gone, and always on a stream that is closed.\<close>

definition copy_read_error :: "side \<Rightarrow> fixture \<Rightarrow> fixture option" where
  "copy_read_error x s = (if copying s x = CopyRead then Some (set_copy x CopyEnd (fail_copy x s)) else None)"

definition copy_write :: "side \<Rightarrow> fixture \<Rightarrow> fixture option" where
  "copy_write x s =
     (case copying s x of
        CopyWrite bs \<Rightarrow>
          (let d = stream s (other x) in
           Some (if ep_open d \<and> ep_wr d
                 then set_copy x CopyRead (set_stream (other x) (d\<lparr>ep_out := ep_out d @ bs\<rparr>) s)
                 else set_copy x CopyEnd (fail_copy x s)))
      | _ \<Rightarrow> None)"

definition copy_write_error :: "side \<Rightarrow> nat \<Rightarrow> fixture \<Rightarrow> fixture option" where
  "copy_write_error x n s =
     (case copying s x of
        CopyWrite bs \<Rightarrow>
          (let d = stream s (other x) in
           if ep_open d \<and> n < length bs
           then Some (set_copy x CopyEnd (fail_copy x
             (set_stream (other x) (d\<lparr>ep_out := ep_out d @ take n bs\<rparr>) s)))
           else None)
      | _ \<Rightarrow> None)"

text \<open>
  \<open>CloseWrite\<close> of a stream that has it: it may fail (\<open>works\<close> is false), and the error is dropped.
  \<open>closeWrite\<close> closes the whole connection when the type has no \<open>CloseWrite\<close>.
\<close>

definition CloseWrite :: "bool \<Rightarrow> relay_stream \<Rightarrow> relay_stream" where
  "CloseWrite works e = (if ep_open e \<and> works then e\<lparr>ep_wr := False\<rparr> else e)"

definition closeWrite :: "bool \<Rightarrow> relay_stream \<Rightarrow> relay_stream" where
  "closeWrite works e = (if ep_half e then CloseWrite works e else e\<lparr>ep_open := False\<rparr>)"

text \<open>After a copy: \<open>closeWrite(target)\<close> in the goroutine, \<open>ch.CloseWrite()\<close> in the function.\<close>

definition copy_end :: "side \<Rightarrow> bool \<Rightarrow> fixture \<Rightarrow> fixture option" where
  "copy_end x works s =
     (if copying s x = CopyEnd
      then Some (set_copy x CopyDone
        (set_stream (other x)
          (case x of SideA \<Rightarrow> closeWrite works (stream s SideB) | SideB \<Rightarrow> CloseWrite works (stream s SideA))
          (if works then s else fail_copy x s)))
      else None)"

text \<open>\<open><-done\<close> after the copy of the function, then \<open>ch.Close\<close> and \<open>target.Close\<close>.\<close>

definition serve_join :: "fixture \<Rightarrow> fixture option" where
  "serve_join s =
     (if serving s = ServeCopying \<and> copying s SideB = CopyDone \<and> copying s SideA = CopyDone
      then Some (s\<lparr>serving := ServeCloseChannel\<rparr>) else None)"

definition serve_close_channel :: "fixture \<Rightarrow> fixture option" where
  "serve_close_channel s =
     (if serving s = ServeCloseChannel
      then Some (set_stream SideA ((stream s SideA)\<lparr>ep_open := False\<rparr>) (s\<lparr>serving := ServeCloseTarget\<rparr>))
      else None)"

definition serve_close_target :: "fixture \<Rightarrow> fixture option" where
  "serve_close_target s =
     (if serving s = ServeCloseTarget
      then Some (set_stream SideB ((stream s SideB)\<lparr>ep_open := False\<rparr>) (s\<lparr>serving := ServeReturned\<rparr>))
      else None)"

datatype fixture_label =
    FRead side bytes | FEof side | FReadErr side | FWrite side | FWriteErr side nat | FEnd side bool
  | FJoin | FCloseChannel | FCloseTarget

fun fixture_action :: "fixture_label \<Rightarrow> fixture \<Rightarrow> fixture option" where
  "fixture_action (FRead x bs) s = copy_read x bs s"
| "fixture_action (FEof x) s = copy_eof x s"
| "fixture_action (FReadErr x) s = copy_read_error x s"
| "fixture_action (FWrite x) s = copy_write x s"
| "fixture_action (FWriteErr x n) s = copy_write_error x n s"
| "fixture_action (FEnd x works) s = copy_end x works s"
| "fixture_action FJoin s = serve_join s"
| "fixture_action FCloseChannel s = serve_close_channel s"
| "fixture_action FCloseTarget s = serve_close_target s"

definition fixture_step :: "fixture \<Rightarrow> fixture_label \<Rightarrow> fixture \<Rightarrow> bool" where
  "fixture_step s l t = (fixture_action l s = Some t)"

definition fixture_init :: "fixture \<Rightarrow> bool" where
  "fixture_init s \<longleftrightarrow> (\<exists>half. s = start_copy (fresh_endpoint True False) (fresh_endpoint half False))"

lemmas fixture_action_defs = copy_read_def copy_eof_def copy_read_error_def copy_write_def
  copy_write_error_def copy_end_def serve_join_def serve_close_channel_def serve_close_target_def

lemmas fixture_update_defs = set_copy_def set_stream_def fail_copy_def CloseWrite_def closeWrite_def

section \<open>Invariant\<close>

fun copy_ok :: "copy_pc \<Rightarrow> bool \<Rightarrow> bytes \<Rightarrow> bytes \<Rightarrow> bool" where
  "copy_ok CopyRead failed out rd \<longleftrightarrow> out = rd \<and> \<not> failed"
| "copy_ok (CopyWrite bs) failed out rd \<longleftrightarrow> out @ bs = rd \<and> \<not> failed"
| "copy_ok CopyEnd failed out rd \<longleftrightarrow> (if failed then prefix out rd else out = rd)"
| "copy_ok CopyDone failed out rd \<longleftrightarrow> (if failed then prefix out rd else out = rd)"

definition copy_inv :: "side \<Rightarrow> fixture \<Rightarrow> bool" where
  "copy_inv x s \<longleftrightarrow>
     copy_ok (copying s x) (copy_failed s x) (ep_out (stream s (other x))) (read_from s x) \<and>
     (copying s x = CopyDone \<and> \<not> copy_failed s x \<longrightarrow>
        \<not> ep_open (stream s (other x)) \<or> \<not> ep_wr (stream s (other x)))"

definition serve_inv :: "fixture \<Rightarrow> bool" where
  "serve_inv s \<longleftrightarrow>
     (serving s \<noteq> ServeCopying \<longrightarrow> (\<forall>x. copying s x = CopyDone)) \<and>
     (serving s \<in> {ServeCloseTarget, ServeReturned} \<longrightarrow> \<not> ep_open (stream s SideA)) \<and>
     (serving s = ServeReturned \<longrightarrow> \<not> ep_open (stream s SideB))"

definition fixture_inv :: "fixture \<Rightarrow> bool" where
  "fixture_inv s \<longleftrightarrow> (\<forall>x. copy_inv x s) \<and> serve_inv s"

lemma fixture_inv_init: "fixture_init s \<Longrightarrow> fixture_inv s"
  by (auto simp: fixture_init_def fixture_inv_def copy_inv_def serve_inv_def start_copy_def all_sides
      fresh_endpoint_def)

lemma copy_prefixes:
  "out @ bs = rd \<Longrightarrow> prefix out rd" "out @ bs = rd \<Longrightarrow> prefix (out @ take n bs) rd"
  by (auto simp: take_is_prefix)

lemma copy_ok_frame [simp]:
  "copy_inv y (s\<lparr>serving := v\<rparr>) = copy_inv y s"
  by (simp add: copy_inv_def)

lemma copy_read_inv: "copy_read x bs s = Some t \<Longrightarrow> copy_inv x s \<and> copy_inv (other x) s \<Longrightarrow> copy_inv x t \<and> copy_inv (other x) t"
  by (clarsimp simp: fixture_action_defs Let_def split: if_split_asm copy_pc.split_asm;
      auto simp: fixture_update_defs copy_inv_def intro: copy_prefixes split: side.split)

lemma copy_eof_inv: "copy_eof x s = Some t \<Longrightarrow> copy_inv x s \<and> copy_inv (other x) s \<Longrightarrow> copy_inv x t \<and> copy_inv (other x) t"
  by (clarsimp simp: fixture_action_defs Let_def split: if_split_asm copy_pc.split_asm;
      auto simp: fixture_update_defs copy_inv_def intro: copy_prefixes split: side.split)

lemma copy_read_error_inv: "copy_read_error x s = Some t \<Longrightarrow> copy_inv x s \<and> copy_inv (other x) s \<Longrightarrow> copy_inv x t \<and> copy_inv (other x) t"
  by (clarsimp simp: fixture_action_defs Let_def split: if_split_asm copy_pc.split_asm;
      auto simp: fixture_update_defs copy_inv_def intro: copy_prefixes split: side.split)

lemma copy_write_inv: "copy_write x s = Some t \<Longrightarrow> copy_inv x s \<and> copy_inv (other x) s \<Longrightarrow> copy_inv x t \<and> copy_inv (other x) t"
  by (clarsimp simp: fixture_action_defs Let_def split: if_split_asm copy_pc.split_asm;
      auto simp: fixture_update_defs copy_inv_def intro: copy_prefixes split: side.split)

lemma copy_write_error_inv: "copy_write_error x n s = Some t \<Longrightarrow> copy_inv x s \<and> copy_inv (other x) s \<Longrightarrow> copy_inv x t \<and> copy_inv (other x) t"
  by (clarsimp simp: fixture_action_defs Let_def split: if_split_asm copy_pc.split_asm;
      auto simp: fixture_update_defs copy_inv_def intro: copy_prefixes split: side.split)

lemma copy_end_inv: "copy_end x w s = Some t \<Longrightarrow> copy_inv x s \<and> copy_inv (other x) s \<Longrightarrow> copy_inv x t \<and> copy_inv (other x) t"
  by (cases "copy_failed s x"; cases x; clarsimp simp: copy_end_def split: if_split_asm;
      auto simp: fixture_update_defs copy_inv_def)

lemma serve_join_inv: "serve_join s = Some t \<Longrightarrow> copy_inv x s \<and> copy_inv (other x) s \<Longrightarrow> copy_inv x t \<and> copy_inv (other x) t"
  by (clarsimp simp: fixture_action_defs Let_def split: if_split_asm copy_pc.split_asm;
      auto simp: fixture_update_defs copy_inv_def intro: copy_prefixes split: side.split)

lemma serve_close_channel_inv: "serve_close_channel s = Some t \<Longrightarrow> copy_inv x s \<and> copy_inv (other x) s \<Longrightarrow> copy_inv x t \<and> copy_inv (other x) t"
  by (clarsimp simp: fixture_action_defs Let_def split: if_split_asm copy_pc.split_asm;
      auto simp: fixture_update_defs copy_inv_def intro: copy_prefixes split: side.split)

lemma serve_close_target_inv: "serve_close_target s = Some t \<Longrightarrow> copy_inv x s \<and> copy_inv (other x) s \<Longrightarrow> copy_inv x t \<and> copy_inv (other x) t"
  by (clarsimp simp: fixture_action_defs Let_def split: if_split_asm copy_pc.split_asm;
      auto simp: fixture_update_defs copy_inv_def intro: copy_prefixes split: side.split)

lemmas copy_invs = copy_read_inv copy_eof_inv copy_read_error_inv copy_write_inv copy_write_error_inv copy_end_inv serve_join_inv serve_close_channel_inv serve_close_target_inv

lemma copy_inv_step:
  assumes "fixture_step s l t" and "copy_inv SideA s \<and> copy_inv SideB s"
  shows "copy_inv SideA t \<and> copy_inv SideB t"
proof -
  have both: "copy_inv SideA u \<and> copy_inv SideB u \<longleftrightarrow> copy_inv x u \<and> copy_inv (other x) u" for x u
    by (cases x) auto
  have "\<exists>x. copy_inv x t \<and> copy_inv (other x) t"
    using assms unfolding fixture_step_def
    by (cases l) (simp_all, (metis both copy_invs)+)
  then show ?thesis using both by blast
qed

text \<open>A step of a copy happens while the function is still copying, and leaves it there.\<close>

fun copy_label :: "fixture_label \<Rightarrow> bool" where
  "copy_label FJoin = False"
| "copy_label FCloseChannel = False"
| "copy_label FCloseTarget = False"
| "copy_label l = True"

lemma copy_label_step:
  assumes "fixture_action l s = Some t" and "copy_label l"
  shows "serving t = serving s \<and> (\<exists>x. copying s x \<noteq> CopyDone)"
proof -
  have "serving t = serving s \<and> copying s x \<noteq> CopyDone"
    if "l \<in> {FRead x bs, FEof x, FReadErr x, FWrite x, FWriteErr x n, FEnd x w}" for x bs n w
    using that assms(1)
    by (auto simp: fixture_action_defs set_copy_def set_stream_def fail_copy_def Let_def
        split: if_split_asm copy_pc.split_asm)
  with assms(2) show ?thesis by (cases l) (simp_all, blast+)
qed

lemma serve_inv_step:
  assumes "fixture_step s l t" and "serve_inv s"
  shows "serve_inv t"
proof (cases "copy_label l")
  case True
  with assms copy_label_step [of l s t] have "serving t = ServeCopying"
    by (auto simp: fixture_step_def serve_inv_def)
  then show ?thesis by (simp add: serve_inv_def)
next
  case False
  with assms show ?thesis
    by (cases l) (auto simp: fixture_step_def serve_join_def serve_close_channel_def serve_close_target_def
        set_stream_def serve_inv_def all_sides split: if_split_asm)
qed

lemma fixture_inv_step: "fixture_step s l t \<Longrightarrow> fixture_inv s \<Longrightarrow> fixture_inv t"
  using copy_inv_step serve_inv_step by (auto simp: fixture_inv_def all_sides)

interpretation fixtures: invariant_system fixture_init fixture_step fixture_inv
  by unfold_locales (erule fixture_inv_init, erule (1) fixture_inv_step)

section \<open>Progress\<close>

text \<open>Once both copies have met the end of their source or an error, the function returns.\<close>

fun fixture_internal :: "fixture_label \<Rightarrow> bool" where
  "fixture_internal (FEnd x works) = True"
| "fixture_internal FJoin = True"
| "fixture_internal FCloseChannel = True"
| "fixture_internal FCloseTarget = True"
| "fixture_internal l = False"

definition fixture_live :: "fixture \<Rightarrow> bool" where
  "fixture_live s \<longleftrightarrow> (\<forall>x. copying s x = CopyEnd \<or> copying s x = CopyDone)"

definition fixture_final :: "fixture \<Rightarrow> bool" where
  "fixture_final s \<longleftrightarrow> serving s = ServeReturned"

fun serve_rank :: "channel_pc \<Rightarrow> nat" where
  "serve_rank ServeCopying = 3"
| "serve_rank ServeCloseChannel = 2"
| "serve_rank ServeCloseTarget = 1"
| "serve_rank ServeReturned = 0"

definition copy_rank :: "copy_pc \<Rightarrow> nat" where
  "copy_rank c = (if c = CopyDone then 0 else 1)"

definition fixture_rank :: "fixture \<Rightarrow> nat" where
  "fixture_rank s = copy_rank (copying s SideA) + copy_rank (copying s SideB) + serve_rank (serving s)"

lemma fixture_progress:
  assumes "fixture_live s" and "\<not> fixture_final s"
  shows "\<exists>l t. fixture_internal l \<and> fixture_step s l t"
proof (cases "\<exists>x. copying s x = CopyEnd")
  case True
  then obtain x where "copying s x = CopyEnd" by blast
  then show ?thesis by (intro exI [of _ "FEnd x True"]) (simp add: fixture_step_def copy_end_def)
next
  case False
  with assms(1) have d: "copying s x = CopyDone" for x by (auto simp: fixture_live_def)
  show ?thesis
  proof (cases "serving s")
    case ServeCopying
    with d show ?thesis by (intro exI [of _ FJoin]) (simp add: fixture_step_def serve_join_def)
  next
    case ServeCloseChannel
    then show ?thesis by (intro exI [of _ FCloseChannel]) (simp add: fixture_step_def serve_close_channel_def)
  next
    case ServeCloseTarget
    then show ?thesis by (intro exI [of _ FCloseTarget]) (simp add: fixture_step_def serve_close_target_def)
  next
    case ServeReturned
    with assms(2) show ?thesis by (simp add: fixture_final_def)
  qed
qed

lemma fixture_decreases:
  assumes "fixture_internal l" and "fixture_step s l t"
  shows "fixture_rank t < fixture_rank s"
proof (cases l)
  case (FEnd x w)
  with assms show ?thesis
    by (cases x) (auto simp: fixture_step_def copy_end_def fixture_rank_def set_copy_def set_stream_def
        fail_copy_def copy_rank_def split: if_split_asm)
qed (use assms in \<open>auto simp: fixture_step_def fixture_action_defs fixture_update_defs fixture_rank_def
  split: if_split_asm\<close>)

lemma fixture_live_step: "fixture_live s \<Longrightarrow> fixture_internal l \<Longrightarrow> fixture_step s l t \<Longrightarrow> fixture_live t"
  by (cases l) (auto simp: fixture_step_def fixture_action_defs fixture_update_defs fixture_live_def
      split: if_split_asm)

interpretation fixtures_live: terminating_system fixture_init fixture_step fixture_inv
  fixture_internal fixture_live fixture_final fixture_rank
  by unfold_locales (erule (1) fixture_progress, erule (1) fixture_decreases, erule (2) fixture_live_step)

section \<open>The contract of a copier\<close>

definition clean_fixture_init :: "fixture \<Rightarrow> bool" where
  "clean_fixture_init s \<longleftrightarrow> s = start_copy (fresh_endpoint True False) (fresh_endpoint True False)"

definition clean_fixture_step :: "fixture \<Rightarrow> fixture_label \<Rightarrow> fixture \<Rightarrow> bool" where
  "clean_fixture_step s l t \<longleftrightarrow> fixture_step s l t \<and> (\<forall>x. \<not> copy_failed t x)"

fun fixture_source_event :: "fixture_label \<Rightarrow> duplex_event list" where
  "fixture_source_event (FRead x bs) = [Sent x bs]"
| "fixture_source_event (FEof x) = [SentEnd x]"
| "fixture_source_event l = []"

definition fixture_obs :: "fixture \<Rightarrow> fixture_label \<Rightarrow> duplex_event list" where
  "fixture_obs s l = fixture_source_event l @
     (case fixture_action l s of None \<Rightarrow> [] | Some t \<Rightarrow> stream_events (stream s) (stream t))"

definition clean_fixture_inv :: "fixture \<Rightarrow> bool" where
  "clean_fixture_inv s \<longleftrightarrow> fixture_inv s \<and> (\<forall>x. \<not> copy_failed s x) \<and>
     (\<forall>x. ep_half (stream s x) \<and> copying s x \<noteq> CopyWrite [] \<and> (copying s x \<noteq> CopyDone \<longrightarrow> ep_wr (stream s (other x)))) \<and>
     (serving s \<in> {ServeCopying, ServeCloseChannel} \<longrightarrow> ep_open (stream s SideA)) \<and>
     (serving s \<noteq> ServeReturned \<longrightarrow> ep_open (stream s SideB))"

fun copy_dir :: "copy_pc \<Rightarrow> direction" where
  "copy_dir CopyRead = Reading"
| "copy_dir (CopyWrite bs) = Holding bs"
| "copy_dir CopyEnd = Ending"
| "copy_dir CopyDone = Ended"

definition fixture_dirs :: "fixture \<Rightarrow> side \<Rightarrow> direction" where
  "fixture_dirs s = (\<lambda>x. copy_dir (copying s x))"

definition fixture_rel :: "fixture \<Rightarrow> duplex \<Rightarrow> bool" where
  "fixture_rel s = duplex_rel (fixture_dirs s) (serving s = ServeReturned)"

lemma fixture_step_half: "fixture_step s l t \<Longrightarrow> ep_half (stream t x) = ep_half (stream s x)"
  by (cases l; clarsimp simp: fixture_step_def fixture_action_defs fixture_update_defs Let_def
      split: if_split_asm copy_pc.split_asm side.split_asm; auto)

lemma fixture_step_held:
  "fixture_step s l t \<Longrightarrow> (\<And>x. copying s x \<noteq> CopyWrite []) \<Longrightarrow> copying t x \<noteq> CopyWrite []"
  by (cases l; clarsimp simp: fixture_step_def fixture_action_defs set_copy_def set_stream_def fail_copy_def
      Let_def split: if_split_asm copy_pc.split_asm)

lemma fixture_step_wr:
  assumes "fixture_step s l t" and "\<And>x. copying s x \<noteq> CopyDone \<Longrightarrow> ep_wr (stream s (other x))"
    and "copying t x \<noteq> CopyDone"
  shows "ep_wr (stream t (other x))"
proof -
  have neq: "other x = other y \<longleftrightarrow> x = y" for y by (cases x; cases y) simp_all
  show ?thesis
    using assms by (cases l; clarsimp simp: fixture_step_def fixture_action_defs set_copy_def set_stream_def
        fail_copy_def neq Let_def split: if_split_asm copy_pc.split_asm; force)
qed

lemma clean_fixture_parts:
  assumes "fixture_step s l t"
    and "\<forall>x. ep_half (stream s x) \<and> copying s x \<noteq> CopyWrite [] \<and> (copying s x \<noteq> CopyDone \<longrightarrow> ep_wr (stream s (other x)))"
  shows "ep_half (stream t x)" "copying t x \<noteq> CopyWrite []" "copying t x \<noteq> CopyDone \<Longrightarrow> ep_wr (stream t (other x))"
  using assms fixture_step_half [OF assms(1)] fixture_step_held [OF assms(1)] fixture_step_wr [OF assms(1)]
  by simp_all

lemma clean_fixture_open:
  assumes "fixture_step s l t" and "\<forall>x. ep_half (stream s x)"
    and "serving s \<in> {ServeCopying, ServeCloseChannel} \<longrightarrow> ep_open (stream s SideA)"
    and "serving s \<noteq> ServeReturned \<longrightarrow> ep_open (stream s SideB)"
  shows "serving t \<in> {ServeCopying, ServeCloseChannel} \<longrightarrow> ep_open (stream t SideA)"
    and "serving t \<noteq> ServeReturned \<longrightarrow> ep_open (stream t SideB)"
  using assms
  by (cases l; auto simp: fixture_step_def fixture_action_defs fixture_update_defs Let_def
      split: if_split_asm copy_pc.split_asm side.split_asm)+

lemma clean_fixture_inv_step: "clean_fixture_step s l t \<Longrightarrow> clean_fixture_inv s \<Longrightarrow> clean_fixture_inv t"
  using fixture_inv_step [of s l t] clean_fixture_parts [of s l t] clean_fixture_open [of s l t]
  by (simp add: clean_fixture_inv_def clean_fixture_step_def)

lemma set_copy_dirs:
  "fixture_dirs (set_copy x k s) = (fixture_dirs s)(x := copy_dir k)" "fixture_dirs (set_stream x e s) = fixture_dirs s"
  "fixture_dirs (fail_copy x s) = fixture_dirs s" "fixture_dirs (s\<lparr>read_from := tk\<rparr>) = fixture_dirs s"
  "fixture_dirs (s\<lparr>serving := m\<rparr>) = fixture_dirs s"
  "serving (set_copy x k s) = serving s" "serving (set_stream x e s) = serving s" "serving (fail_copy x s) = serving s"
  "stream (set_copy x k s) = stream s" "stream (fail_copy x s) = stream s"
  "stream (set_stream x e s) = (stream s)(x := e)" "copy_failed (set_copy x k s) = copy_failed s"
  "copy_failed (set_stream x e s) = copy_failed s" "copy_failed (fail_copy x s) x"
  by (auto simp: fixture_dirs_def set_copy_def set_stream_def fail_copy_def)

lemma fixture_dirs_at: "fixture_dirs s x = copy_dir (copying s x)"
  by (simp add: fixture_dirs_def)

lemma copy_shows:
  assumes inv: "clean_fixture_inv s" and rel: "fixture_rel s p" and ok: "\<And>x. \<not> copy_failed t x"
  shows "copy_read x bs s = Some t \<Longrightarrow>
      shows_as p (Sent x bs # stream_events (stream s) (stream t)) (fixture_dirs t) (serving t = ServeReturned)"
    and "copy_eof x s = Some t \<Longrightarrow>
      shows_as p (SentEnd x # stream_events (stream s) (stream t)) (fixture_dirs t) (serving t = ServeReturned)"
    and "copy_write x s = Some t \<Longrightarrow>
      shows_as p (stream_events (stream s) (stream t)) (fixture_dirs t) (serving t = ServeReturned)"
    and "copy_end x w s = Some t \<Longrightarrow>
      shows_as p (stream_events (stream s) (stream t)) (fixture_dirs t) (serving t = ServeReturned)"
proof -
  have d: "duplex_rel (fixture_dirs s) (serving s = ServeReturned) p" using rel by (simp add: fixture_rel_def)
  show "shows_as p (Sent x bs # stream_events (stream s) (stream t)) (fixture_dirs t) (serving t = ServeReturned)"
    if "copy_read x bs s = Some t"
    using that shows_sent [OF d, of x bs] by (auto simp: copy_read_def set_copy_dirs fixture_dirs_at split: if_split_asm)
  show "shows_as p (SentEnd x # stream_events (stream s) (stream t)) (fixture_dirs t) (serving t = ServeReturned)"
    if "copy_eof x s = Some t"
    using that shows_sent_end [OF d, of x] by (auto simp: copy_eof_def set_copy_dirs fixture_dirs_at split: if_split_asm)
  show "shows_as p (stream_events (stream s) (stream t)) (fixture_dirs t) (serving t = ServeReturned)"
    if "copy_write x s = Some t"
  proof -
    from that obtain bs where bs: "copying s x = CopyWrite bs" by (auto simp: copy_write_def split: copy_pc.split_asm)
    with inv have "bs \<noteq> []" by (auto simp: clean_fixture_inv_def)
    with that ok [of x] bs shows_got [OF d, of x bs] show ?thesis
      by (auto simp: copy_write_def set_copy_dirs fixture_dirs_at stream_events_took Let_def split: if_split_asm)
  qed
  show "shows_as p (stream_events (stream s) (stream t)) (fixture_dirs t) (serving t = ServeReturned)"
    if "copy_end x w s = Some t"
  proof -
    from that have pc: "copying s x = CopyEnd" by (simp add: copy_end_def split: if_split_asm)
    have "w" using that ok [of x] pc by (auto simp: copy_end_def set_copy_dirs split: if_split_asm)
    moreover have "ep_open (stream s (other x))" "ep_wr (stream s (other x))" "ep_half (stream s (other x))"
      using inv pc by (cases x; auto simp: clean_fixture_inv_def fixture_inv_def serve_inv_def all_sides)+
    ultimately show ?thesis using that pc shows_got_end [OF d, of x]
      by (cases x) (auto simp: copy_end_def set_copy_dirs fixture_dirs_at CloseWrite_def closeWrite_def
          stream_events_half_closed)
  qed
qed

lemma serve_shows:
  assumes inv: "clean_fixture_inv s" and rel: "fixture_rel s p"
    and "serve_join s = Some t \<or> serve_close_channel s = Some t \<or> serve_close_target s = Some t"
  shows "shows_as p (stream_events (stream s) (stream t)) (fixture_dirs t) (serving t = ServeReturned)"
proof -
  have d: "duplex_rel (fixture_dirs s) (serving s = ServeReturned) p" using rel by (simp add: fixture_rel_def)
  have b: "serving s \<noteq> ServeReturned \<Longrightarrow> ep_open (stream s SideB)" using inv by (simp add: clean_fixture_inv_def)
  show ?thesis
  proof (cases "serve_close_target s = Some t")
    case True
    then have at: "serving s = ServeCloseTarget" by (auto simp: serve_close_target_def split: if_split_asm)
    with inv have "copying s SideA = CopyDone" "copying s SideB = CopyDone" "\<not> ep_open (stream s SideA)"
      by (auto simp: clean_fixture_inv_def fixture_inv_def serve_inv_def)
    with True at b d shows_finished [of "fixture_dirs s" p] show ?thesis
      by (auto simp: serve_close_target_def set_copy_dirs fixture_dirs_at stream_events_closed)
  next
    case False
    with assms(3) b shows_none [OF d] show ?thesis
      by (auto simp: serve_join_def serve_close_channel_def set_copy_dirs stream_events_closed split: if_split_asm)
  qed
qed

lemma clean_fixture_sim:
  assumes step: "clean_fixture_step s l t" and inv: "clean_fixture_inv s" and rel: "fixture_rel s p"
  shows "\<exists>q. observed duplex_step duplex_obs p (fixture_obs s l) q \<and> fixture_rel t q"
proof -
  have t: "fixture_action l s = Some t" "\<And>x. \<not> copy_failed t x"
    using step by (auto simp: clean_fixture_step_def fixture_step_def)
  have "shows_as p (fixture_source_event l @ stream_events (stream s) (stream t)) (fixture_dirs t) (serving t = ServeReturned)"
  proof (cases l)
    case (FReadErr x)
    with t(1) t(2) [of x] show ?thesis by (auto simp: copy_read_error_def set_copy_dirs split: if_split_asm)
  next
    case (FWriteErr x n)
    with t(1) t(2) [of x] show ?thesis
      by (auto simp: copy_write_error_def set_copy_dirs Let_def split: if_split_asm copy_pc.split_asm)
  qed (use t(1) in \<open>auto intro: copy_shows [OF inv rel t(2)] serve_shows [OF inv rel]\<close>)
  then show ?thesis using t(1) by (simp add: shows_as_def fixture_obs_def fixture_rel_def)
qed

lemma clean_fixture_init_imp: "clean_fixture_init s \<Longrightarrow> fixture_init s"
  by (auto simp: clean_fixture_init_def fixture_init_def)

lemma clean_fixture_rel_init: "clean_fixture_init s \<Longrightarrow> fixture_rel s fresh_duplex"
  by (simp add: clean_fixture_init_def fixture_rel_def fixture_dirs_def start_copy_def duplex_rel_fresh)

lemma clean_fixture_inv_init: "clean_fixture_init s \<Longrightarrow> clean_fixture_inv s"
  using fixture_inv_init [OF clean_fixture_init_imp]
  by (auto simp: clean_fixture_init_def clean_fixture_inv_def start_copy_def fresh_endpoint_def all_sides)

interpretation fixture_copier: duplex_copier clean_fixture_init clean_fixture_step clean_fixture_inv
  fixture_obs fixture_rel
  by unfold_locales
    (auto intro: clean_fixture_inv_init clean_fixture_inv_step clean_fixture_rel_init clean_fixture_sim)





definition clean_fixture_action :: "fixture_label \<Rightarrow> fixture \<Rightarrow> fixture option" where
  "clean_fixture_action l s =
     (case fixture_action l s of None \<Rightarrow> None
      | Some t \<Rightarrow> if copy_failed t SideA \<or> copy_failed t SideB then None else Some t)"

lemma clean_fixture_step_action: "clean_fixture_step = (\<lambda>s l t. clean_fixture_action l s = Some t)"
  by (auto simp: fun_eq_iff clean_fixture_step_def clean_fixture_action_def fixture_step_def all_sides
      split: option.split)

lemmas clean_fixture_runs = exec_observed_run [where act = clean_fixture_action and obs = fixture_obs,
  folded clean_fixture_step_action]

section \<open>Properties\<close>

text \<open>
  Every channel is answered exactly once: rejected when its type is unknown, its payload malformed or
  its target unreachable, and accepted only after the target was reached. A target that was reached
  for a channel that cannot be accepted is closed; otherwise the copy starts between the two.
\<close>

lemma channel_answered_once:
  "length (filter answers (fst (handleChannel utcp ulocal dial accept nc))) = 1"
  by (simp add: channel_defs result_simps split: sum.split)

lemma channel_served:
  "snd (handleChannel utcp ulocal dial accept nc) = Inr s \<longleftrightarrow>
     (\<exists>network address ch target.
        DialTarget network address \<in> set (fst (handleChannel utcp ulocal dial accept nc)) \<and>
        dial network address = Inr target \<and> accept = Inr ch \<and> s = start_copy ch target)"
  by (auto simp: channel_defs result_simps split: sum.split)

lemma channel_dials:
  assumes "ChannelType nc = ''direct-tcpip''" and "utcp (ExtraData nc) = Inr p"
  shows "hd (fst (handleChannel utcp ulocal dial accept nc)) =
    DialTarget ''tcp'' (join_host_port (DestAddr p) (itoa (uint (DestPort p))))"
  using assms by (simp add: channel_defs result_simps split: sum.split)

text \<open>A request, its half-close, an answer and the end of the connection, seen by either loop.\<close>

definition echo_events :: "duplex_event list" where
  "echo_events = [Sent SideA [1, 2], Got SideB [1, 2], SentEnd SideA, GotEnd SideB,
     Sent SideB [3], Got SideA [3], SentEnd SideB, GotEnd SideA, Finished]"

definition echo_fixture :: fixture where
  "echo_fixture = start_copy (fresh_endpoint True False) (fresh_endpoint True False)"

definition fixture_echo :: "fixture_label list" where
  "fixture_echo = [FRead SideA [1, 2], FWrite SideA, FEof SideA, FEnd SideA True, FRead SideB [3],
     FWrite SideB, FEof SideB, FEnd SideB True, FJoin, FCloseChannel, FCloseTarget]"

lemmas fixture_eval = fixture_action_defs fixture_update_defs start_copy_def fresh_endpoint_def
  clean_fixture_action_def fixture_obs_def stream_events_def stream_event_def Let_def

lemma echo_inits: "clean_relay_init tcp_relay" "clean_fixture_init echo_fixture" "fixture_init echo_fixture"
  by (auto simp: clean_relay_init_def tcp_relay_def Relay_def clean_fixture_init_def echo_fixture_def
      fixture_init_def)

lemma relay_echo_settled:
  "\<exists>t. observed clean_relay_step relay_obs tcp_relay echo_events t \<and> settled (relay_dirs t)"
proof -
  have "\<exists>t. exec_observed clean_relay_action relay_obs relay_session tcp_relay = Some (echo_events, t) \<and>
      settled (relay_dirs t)"
    by (simp add: relay_session_def tcp_relay_def echo_events_def relay_eval clean_relay_action_def relay_obs_def
        stream_events_def stream_event_def settled_def relay_dirs_def all_sides)
  then show ?thesis by (blast intro: clean_relay_runs)
qed

lemma fixture_echo_settled:
  "\<exists>t. observed clean_fixture_step fixture_obs echo_fixture echo_events t \<and> settled (fixture_dirs t)"
proof -
  have "\<exists>t. exec_observed clean_fixture_action fixture_obs fixture_echo echo_fixture = Some (echo_events, t) \<and>
      settled (fixture_dirs t)"
    by (simp add: fixture_echo_def echo_fixture_def echo_events_def fixture_eval settled_def fixture_dirs_def all_sides)
  then show ?thesis by (blast intro: clean_fixture_runs)
qed


lemma fixture_exec_reach:
  "exec_labels fixture_action ls s = Some t \<Longrightarrow> fixture_init s \<Longrightarrow> reach fixture_init fixture_step t"
  unfolding fixture_step_def by (rule exec_labels_reach)

definition echo_end :: fixture where
  "echo_end = the (exec_labels fixture_action fixture_echo echo_fixture)"

definition echo_ending :: fixture where
  "echo_ending = the (exec_labels fixture_action [FEof SideA, FReadErr SideB] echo_fixture)"

lemma echo_end_runs:
  "exec_labels fixture_action fixture_echo echo_fixture = Some echo_end"
  "exec_labels fixture_action [FEof SideA, FReadErr SideB] echo_fixture = Some echo_ending"
  by (simp_all add: echo_end_def echo_ending_def fixture_echo_def echo_fixture_def fixture_eval)

lemma echo_end_result: "fixture_final echo_end" "read_from echo_end SideA = [1, 2]" "\<not> copy_failed echo_end SideA"
    "fixture_live echo_ending"
  by (simp_all add: echo_end_def echo_ending_def fixture_echo_def echo_fixture_def fixture_eval
      fixture_final_def fixture_live_def all_sides)

text \<open>C30: In every interleaving of its two copies, when \<open>serveChannel\<close> has returned the channel and
  the target are closed, each has received a prefix of what the other sent, and all of it unless a
  call of that direction failed; and once both copies have met the end of their source or an error, it
  returns within five steps.\<close>

theorem served_channel_returns_clean:
  assumes "reach fixture_init fixture_step s"
  shows "(fixture_final s \<longrightarrow> (\<forall>x. \<not> ep_open (stream s x) \<and>
        prefix (ep_out (stream s (other x))) (read_from s x) \<and>
        (\<not> copy_failed s x \<longrightarrow> ep_out (stream s (other x)) = read_from s x))) \<and>
    (fixture_live s \<longrightarrow> (\<exists>ls t. path fixture_step s ls t \<and> length ls \<le> 5 \<and> fixture_final t))"
proof -
  have inv: "fixture_inv s" using assms by (rule fixtures.reach_inv)
  have "\<not> ep_open (stream s x) \<and> prefix (ep_out (stream s (other x))) (read_from s x) \<and>
      (\<not> copy_failed s x \<longrightarrow> ep_out (stream s (other x)) = read_from s x)" if f: "fixture_final s" for x
  proof -
    have "copying s x = CopyDone" "\<not> ep_open (stream s x)"
      using inv f by (cases x; auto simp: fixture_final_def fixture_inv_def serve_inv_def)+
    moreover have "copy_inv x s" using inv by (simp add: fixture_inv_def)
    ultimately show ?thesis by (auto simp: copy_inv_def split: if_split_asm)
  qed
  moreover have "fixture_rank s \<le> 5"
    by (cases "serving s") (auto simp: fixture_rank_def copy_rank_def)
  then have "fixture_live s \<longrightarrow> (\<exists>ls t. path fixture_step s ls t \<and> length ls \<le> 5 \<and> fixture_final t)"
    using fixtures_live.reaches_final [OF inv] fixtures_live.internal_run_bounded [OF _ inv]
    by (metis add_leD1 le_trans)
  ultimately show ?thesis by blast
qed

theorem served_channel_returns_clean_witness:
  "\<not> ep_open (stream echo_end SideA) \<and> ep_out (stream echo_end SideB) = [1, 2] \<and>
   (\<exists>ls t. path fixture_step echo_ending ls t \<and> length ls \<le> 5 \<and> fixture_final t)"
  using served_channel_returns_clean [OF fixture_exec_reach [OF echo_end_runs(1) echo_inits(3)]]
    served_channel_returns_clean [OF fixture_exec_reach [OF echo_end_runs(2) echo_inits(3)]]
    echo_end_result by (metis other.simps(1))

text \<open>C13: The relay and the copy loop of the test server, which share no code, implement the same
  policy: as long as no call fails, whatever either of them does to its two streams is a behaviour of
  the duplex (ordered and lossless in both directions, the end of a source passed on as a half-close
  after its last byte, both streams closed only after both ends).\<close>

theorem copy_loops_agree:
  shows "(\<forall>s es t. clean_relay_init s \<and> observed clean_relay_step relay_obs s es t \<longrightarrow>
      (\<exists>q. observed duplex_step duplex_obs fresh_duplex es q)) \<and>
    (\<forall>s es t. clean_fixture_init s \<and> observed clean_fixture_step fixture_obs s es t \<longrightarrow>
      (\<exists>q. observed duplex_step duplex_obs fresh_duplex es q))"
  using relay_copier.refines fixture_copier.refines by blast

theorem copy_loops_agree_witness: "\<exists>q. observed duplex_step duplex_obs fresh_duplex echo_events q"
  using copy_loops_agree echo_inits relay_echo_settled fixture_echo_settled by blast



end
