(* ===== verification/ProviderSchema.thy ===== *)
theory ProviderSchema
  imports GoStrings
begin

text \<open>
  The Terraform side of \<open>internal/provider\<close>: attribute values, diagnostics, the eight schemas as the
  code declares them (name, type, whether the user must or may set it, whether the provider
  computes it, whether it is sensitive; the descriptions are left out), and the tags of the four
  model structs.
\<close>

section \<open>Values\<close>

text \<open>\<open>types.String\<close>, \<open>types.Int64\<close>, \<open>types.Bool\<close>, \<open>types.List\<close> and \<open>types.Map\<close> of the framework.\<close>

datatype 'a tf = Null | Unknown | Known 'a

definition is_null :: "'a tf \<Rightarrow> bool" where
  "is_null v = (case v of Null \<Rightarrow> True | _ \<Rightarrow> False)"

fun is_known :: "'a tf \<Rightarrow> bool" where
  "is_known (Known x) = True"
| "is_known v = False"

text \<open>\<open>ValueString\<close>, \<open>ValueInt64\<close>, \<open>ValueBool\<close>: the zero value unless known.\<close>

definition value_or :: "'a \<Rightarrow> 'a tf \<Rightarrow> 'a" where
  "value_or z v = (case v of Known x \<Rightarrow> x | _ \<Rightarrow> z)"

abbreviation value_string :: "string tf \<Rightarrow> string" where "value_string \<equiv> value_or []"
abbreviation value_int :: "int tf \<Rightarrow> int" where "value_int \<equiv> value_or 0"
abbreviation value_bool :: "bool tf \<Rightarrow> bool" where "value_bool \<equiv> value_or False"

text \<open>An error diagnostic: summary and detail.\<close>

type_synonym diag = "string \<times> string"

text \<open>\<open>ElementsAs\<close> into a Go slice of strings: every element has to be known; a list that is itself
  unknown cannot be converted either.\<close>

definition conversion_diag :: diag where
  "conversion_diag = (''Value Conversion Error'', [])"

fun known_elements :: "'a tf list \<Rightarrow> 'a list option" where
  "known_elements [] = Some []"
| "known_elements (Known x # vs) = map_option (Cons x) (known_elements vs)"
| "known_elements (v # vs) = None"

definition elements_as :: "'a tf list tf \<Rightarrow> 'a list option" where
  "elements_as l = (case l of Null \<Rightarrow> Some [] | Unknown \<Rightarrow> None | Known vs \<Rightarrow> known_elements vs)"

definition map_elements_as :: "(string \<times> 'a tf) list tf \<Rightarrow> (string \<times> 'a) list option" where
  "map_elements_as m =
     (case m of
        Null \<Rightarrow> Some []
      | Unknown \<Rightarrow> None
      | Known kvs \<Rightarrow> map_option (zip (map fst kvs)) (known_elements (map snd kvs)))"

lemma is_null_simps [simp]: "is_null Null" "\<not> is_null Unknown" "\<not> is_null (Known x)"
  by (simp_all add: is_null_def)

lemma value_or_simps [simp]: "value_or z (Known x) = x" "value_or z Null = z" "value_or z Unknown = z"
  by (simp_all add: value_or_def)

lemma is_known_iff: "is_known v \<longleftrightarrow> (\<exists>x. v = Known x)"
  by (cases v) auto

section \<open>Schemas\<close>

datatype attribute_use = Required | Optional | OptionalComputed | Computed

datatype attribute = Attribute (attr_name: string) (attr_type: attribute_type) (attr_use: attribute_use) (attr_sensitive: bool)
  and attribute_type = StringAttr | Int64Attr | BoolAttr | ListAttr | MapAttr | NestedAttr "attribute list"

definition azure_bastion_data_source_schema :: "attribute list" where
  "azure_bastion_data_source_schema = [
    Attribute ''bastion_host_id'' StringAttr Required False,
    Attribute ''target_resource_id'' StringAttr Optional False,
    Attribute ''target_ip_address'' StringAttr Optional False,
    Attribute ''target_port'' Int64Attr Required False,
    Attribute ''local_host'' StringAttr OptionalComputed False,
    Attribute ''local_port'' Int64Attr OptionalComputed False]"

definition azure_bastion_ephemeral_schema :: "attribute list" where
  "azure_bastion_ephemeral_schema = [
    Attribute ''bastion_host_id'' StringAttr Required False,
    Attribute ''target_resource_id'' StringAttr Optional False,
    Attribute ''target_ip_address'' StringAttr Optional False,
    Attribute ''target_port'' Int64Attr Required False,
    Attribute ''local_host'' StringAttr OptionalComputed False,
    Attribute ''local_port'' Int64Attr OptionalComputed False]"

definition ssh_data_source_schema :: "attribute list" where
  "ssh_data_source_schema = [
    Attribute ''target_host'' StringAttr Optional False,
    Attribute ''target_port'' Int64Attr Optional False,
    Attribute ''target_socket'' StringAttr Optional False,
    Attribute ''ssh_host'' StringAttr Required False,
    Attribute ''ssh_port'' Int64Attr OptionalComputed False,
    Attribute ''ssh_user'' StringAttr OptionalComputed False,
    Attribute ''ssh_password'' StringAttr Optional True,
    Attribute ''ssh_key'' StringAttr Optional True,
    Attribute ''ssh_key_passphrase'' StringAttr Optional True,
    Attribute ''local_host'' StringAttr OptionalComputed False,
    Attribute ''local_port'' Int64Attr OptionalComputed False]"

definition ssh_ephemeral_schema :: "attribute list" where
  "ssh_ephemeral_schema = [
    Attribute ''target_host'' StringAttr Optional False,
    Attribute ''target_port'' Int64Attr Optional False,
    Attribute ''target_socket'' StringAttr Optional False,
    Attribute ''ssh_host'' StringAttr Required False,
    Attribute ''ssh_port'' Int64Attr OptionalComputed False,
    Attribute ''ssh_user'' StringAttr OptionalComputed False,
    Attribute ''ssh_password'' StringAttr Optional True,
    Attribute ''ssh_key'' StringAttr Optional True,
    Attribute ''ssh_key_passphrase'' StringAttr Optional True,
    Attribute ''local_host'' StringAttr OptionalComputed False,
    Attribute ''local_port'' Int64Attr OptionalComputed False]"

definition ssm_data_source_schema :: "attribute list" where
  "ssm_data_source_schema = [
    Attribute ''target_host'' StringAttr Optional False,
    Attribute ''target_port'' Int64Attr Optional False,
    Attribute ''ssm_instance'' StringAttr Required False,
    Attribute ''ssm_document'' StringAttr Optional False,
    Attribute ''ssm_profile'' StringAttr OptionalComputed False,
    Attribute ''ssm_role_arn'' StringAttr OptionalComputed False,
    Attribute ''ssm_region'' StringAttr OptionalComputed False,
    Attribute ''local_port'' Int64Attr OptionalComputed False,
    Attribute ''local_host'' StringAttr Computed False]"

definition ssm_ephemeral_schema :: "attribute list" where
  "ssm_ephemeral_schema = [
    Attribute ''target_host'' StringAttr Optional False,
    Attribute ''target_port'' Int64Attr Optional False,
    Attribute ''ssm_instance'' StringAttr Required False,
    Attribute ''ssm_document'' StringAttr Optional False,
    Attribute ''ssm_profile'' StringAttr OptionalComputed False,
    Attribute ''ssm_role_arn'' StringAttr OptionalComputed False,
    Attribute ''ssm_region'' StringAttr OptionalComputed False,
    Attribute ''local_port'' Int64Attr OptionalComputed False,
    Attribute ''local_host'' StringAttr Computed False]"

definition kubernetes_data_source_schema :: "attribute list" where
  "kubernetes_data_source_schema = [
    Attribute ''namespace'' StringAttr Required False,
    Attribute ''service_name'' StringAttr Required False,
    Attribute ''target_port'' Int64Attr Required False,
    Attribute ''local_host'' StringAttr OptionalComputed False,
    Attribute ''local_port'' Int64Attr OptionalComputed False,
    Attribute ''kubernetes'' (NestedAttr [
      Attribute ''host'' StringAttr Optional False,
      Attribute ''username'' StringAttr Optional False,
      Attribute ''password'' StringAttr Optional True,
      Attribute ''insecure'' BoolAttr Optional False,
      Attribute ''tls_server_name'' StringAttr Optional False,
      Attribute ''client_certificate'' StringAttr Optional True,
      Attribute ''client_key'' StringAttr Optional True,
      Attribute ''cluster_ca_certificate'' StringAttr Optional True,
      Attribute ''config_paths'' ListAttr Optional False,
      Attribute ''config_path'' StringAttr Optional False,
      Attribute ''config_context'' StringAttr Optional False,
      Attribute ''config_context_auth_info'' StringAttr Optional False,
      Attribute ''config_context_cluster'' StringAttr Optional False,
      Attribute ''token'' StringAttr Optional True,
      Attribute ''proxy_url'' StringAttr Optional False,
      Attribute ''exec'' (NestedAttr [
        Attribute ''api_version'' StringAttr Required False,
        Attribute ''command'' StringAttr Required False,
        Attribute ''env'' MapAttr Optional True,
        Attribute ''args'' ListAttr Optional True]) Optional False]) Optional False]"

definition kubernetes_ephemeral_schema :: "attribute list" where
  "kubernetes_ephemeral_schema = [
    Attribute ''namespace'' StringAttr Required False,
    Attribute ''service_name'' StringAttr Required False,
    Attribute ''target_port'' Int64Attr Required False,
    Attribute ''local_host'' StringAttr OptionalComputed False,
    Attribute ''local_port'' Int64Attr OptionalComputed False,
    Attribute ''kubernetes'' (NestedAttr [
      Attribute ''host'' StringAttr Optional False,
      Attribute ''username'' StringAttr Optional False,
      Attribute ''password'' StringAttr Optional True,
      Attribute ''insecure'' BoolAttr Optional False,
      Attribute ''tls_server_name'' StringAttr Optional False,
      Attribute ''client_certificate'' StringAttr Optional True,
      Attribute ''client_key'' StringAttr Optional True,
      Attribute ''cluster_ca_certificate'' StringAttr Optional True,
      Attribute ''config_paths'' ListAttr Optional False,
      Attribute ''config_path'' StringAttr Optional False,
      Attribute ''config_context'' StringAttr Optional False,
      Attribute ''config_context_auth_info'' StringAttr Optional False,
      Attribute ''config_context_cluster'' StringAttr Optional False,
      Attribute ''token'' StringAttr Optional True,
      Attribute ''proxy_url'' StringAttr Optional False,
      Attribute ''exec'' (NestedAttr [
        Attribute ''api_version'' StringAttr Required False,
        Attribute ''command'' StringAttr Required False,
        Attribute ''env'' MapAttr Optional True,
        Attribute ''args'' ListAttr Optional True]) Optional False]) Optional False]"


text \<open>The \<open>tfsdk\<close> tags of the model structs; a nested struct has a list of its own.\<close>

definition azure_bastion_tags :: "string list" where
  "azure_bastion_tags =
     [''bastion_host_id'', ''target_resource_id'', ''target_ip_address'', ''target_port'', ''local_host'', ''local_port'']"

definition ssh_tags :: "string list" where
  "ssh_tags =
     [''local_host'', ''local_port'', ''ssh_host'', ''ssh_key'', ''ssh_key_passphrase'', ''ssh_password'', ''ssh_port'',
      ''ssh_user'', ''target_host'', ''target_port'', ''target_socket'']"

definition ssm_tags :: "string list" where
  "ssm_tags =
     [''local_host'', ''local_port'', ''ssm_instance'', ''ssm_document'', ''ssm_profile'', ''ssm_role_arn'', ''ssm_region'',
      ''target_host'', ''target_port'']"

definition kubernetes_tags :: "string list" where
  "kubernetes_tags = [''namespace'', ''service_name'', ''target_port'', ''local_port'', ''local_host'', ''kubernetes'']"

definition kubernetes_config_tags :: "string list" where
  "kubernetes_config_tags =
     [''host'', ''username'', ''password'', ''insecure'', ''tls_server_name'', ''client_certificate'', ''client_key'',
      ''cluster_ca_certificate'', ''config_paths'', ''config_path'', ''config_context'', ''config_context_auth_info'',
      ''config_context_cluster'', ''token'', ''proxy_url'', ''exec'']"

definition exec_tags :: "string list" where
  "exec_tags = [''api_version'', ''command'', ''env'', ''args'']"

text \<open>The nested attributes of an attribute of a schema.\<close>

definition nested :: "string \<Rightarrow> attribute list \<Rightarrow> attribute list" where
  "nested n sch =
     (case find (\<lambda>a. attr_name a = n) sch of
        None \<Rightarrow> [] | Some a \<Rightarrow> (case attr_type a of NestedAttr as \<Rightarrow> as | _ \<Rightarrow> []))"

definition covers :: "attribute list \<Rightarrow> string list \<Rightarrow> bool" where
  "covers sch tags \<longleftrightarrow> distinct (map attr_name sch) \<and> distinct tags \<and>
     list_all (\<lambda>a. attr_name a \<in> set tags) sch \<and> list_all (\<lambda>t. t \<in> set (map attr_name sch)) tags"

definition computed :: "attribute list \<Rightarrow> string list" where
  "computed sch = map attr_name (filter (\<lambda>a. attr_use a \<in> {OptionalComputed, Computed}) sch)"

lemmas schema_defs = azure_bastion_data_source_schema_def azure_bastion_ephemeral_schema_def
  ssh_data_source_schema_def ssh_ephemeral_schema_def ssm_data_source_schema_def ssm_ephemeral_schema_def
  kubernetes_data_source_schema_def kubernetes_ephemeral_schema_def

lemmas tag_defs = azure_bastion_tags_def ssh_tags_def ssm_tags_def kubernetes_tags_def
  kubernetes_config_tags_def exec_tags_def

section \<open>Properties\<close>

text \<open>A data source and its ephemeral resource take the same attributes, and Terraform can move them in
  and out of the Go model: for each of the four tunnels both schemas are equal, and their names are
  exactly the tags of the model struct, in the nested blocks too.\<close>

lemma schemas_agree:
  "azure_bastion_data_source_schema = azure_bastion_ephemeral_schema \<and>
   ssh_data_source_schema = ssh_ephemeral_schema \<and>
   ssm_data_source_schema = ssm_ephemeral_schema \<and>
   kubernetes_data_source_schema = kubernetes_ephemeral_schema \<and>
   covers azure_bastion_ephemeral_schema azure_bastion_tags \<and> covers ssh_ephemeral_schema ssh_tags \<and>
   covers ssm_ephemeral_schema ssm_tags \<and> covers kubernetes_ephemeral_schema kubernetes_tags \<and>
   covers (nested ''kubernetes'' kubernetes_ephemeral_schema) kubernetes_config_tags \<and>
   covers (nested ''exec'' (nested ''kubernetes'' kubernetes_ephemeral_schema)) exec_tags"
  by (intro conjI; code_simp)

end
