(* ===== verification/ProviderConfig.thy ===== *)
theory ProviderConfig
  imports ProviderSchema SshTunnel SsmTunnel AzureTunnel KubeForward
begin

text \<open>
  From Terraform's model to a tunnel's configuration: \<open>azure_bastion.go\<close>, \<open>ssh.go\<close>, \<open>ssm.go\<close> and
  \<open>kubernetes.go\<close> of \<open>internal/provider\<close>. Each function also fills the computed attributes of the
  model, so it returns the model, the configuration unless it stopped with an error, and the error
  diagnostics. \<open>free\<close> is the answer of \<open>libs.GetFreePort\<close>.
\<close>

type_synonym ('m, 'c) configured = "'m \<times> 'c option \<times> diag list"

definition free_port_diag :: "go_error \<Rightarrow> diag" where
  "free_port_diag e = (''Failed to find open local port'', error_text e)"

text \<open>\<open>IsNull() || ValueString() == ""\<close>.\<close>

definition unset :: "string tf \<Rightarrow> bool" where
  "unset v \<longleftrightarrow> is_null v \<or> value_string v = []"

text \<open>The requested local port, or a free one when it is zero or not set.\<close>

definition choose_port :: "int result \<Rightarrow> int tf \<Rightarrow> int result" where
  "choose_port free requested = (if value_int requested = 0 then free else Inr (value_int requested))"

section \<open>Azure Bastion\<close>

record azure_model =
  am_bastion_host_id :: "string tf"
  am_target_resource_id :: "string tf"
  am_target_ip_address :: "string tf"
  am_target_port :: "int tf"
  am_local_host :: "string tf"
  am_local_port :: "int tf"

definition azureBastionConfig :: "(string \<Rightarrow> resource_id result) \<Rightarrow> int result \<Rightarrow> azure_model \<Rightarrow>
    (azure_model, azure_config) configured" where
  "azureBastionConfig parse free data0 =
     (let data = (if unset (am_local_host data0) then data0\<lparr>am_local_host := Known DefaultLocalHost\<rparr> else data0);
          requested = value_int (am_local_port data) in
      case choose_port free (am_local_port data) of
        Inl e \<Rightarrow> (data, None, [free_port_diag e])
      | Inr port \<Rightarrow>
          (let data' = (if requested = 0 then data\<lparr>am_local_port := Known port\<rparr> else data);
               cfg = \<lparr>BastionHostID = value_string (am_bastion_host_id data'),
                      TargetResourceID = value_string (am_target_resource_id data'),
                      TargetIPAddress = value_string (am_target_ip_address data'),
                      TargetPort = value_int (am_target_port data'),
                      LocalHost = value_string (am_local_host data'), LocalPort = port\<rparr>
           in case azure_validate parse cfg of
                Inl e \<Rightarrow> (data', None, [(''Invalid Azure Bastion tunnel configuration'', error_text e)])
              | Inr u \<Rightarrow> (data', Some cfg, [])))"

section \<open>SSH\<close>

record ssh_model =
  hm_local_host :: "string tf"
  hm_local_port :: "int tf"
  hm_ssh_host :: "string tf"
  hm_ssh_key :: "string tf"
  hm_ssh_key_passphrase :: "string tf"
  hm_ssh_password :: "string tf"
  hm_ssh_port :: "int tf"
  hm_ssh_user :: "string tf"
  hm_target_host :: "string tf"
  hm_target_port :: "int tf"
  hm_target_socket :: "string tf"

definition validateSSHTarget :: "string tf \<Rightarrow> string tf \<Rightarrow> int tf \<Rightarrow> diag list" where
  "validateSSHTarget host socket port =
     (let hasPort = (\<not> is_null port); hasSocket = (\<not> is_null socket \<and> value_string socket \<noteq> []) in
      if hasPort \<and> hasSocket then
        [(''Conflicting SSH tunnel target'', ''`target_port` and `target_socket` are mutually exclusive'')]
      else if \<not> hasPort \<and> \<not> hasSocket then
        [(''Missing SSH tunnel target'', ''one of `target_port` or `target_socket` must be set'')]
      else if hasPort \<and> unset host then
        [(''Missing target_host'', ''`target_host` is required when `target_port` is set'')]
      else [])"

definition ssh_config_of :: "ssh_model \<Rightarrow> int \<Rightarrow> ssh_config" where
  "ssh_config_of data port =
     \<lparr>ssh_config.LocalHost = value_string (hm_local_host data), LocalPort = port,
      SSHHost = value_string (hm_ssh_host data), SSHKey = value_string (hm_ssh_key data),
      SSHKeyPassphrase = value_string (hm_ssh_key_passphrase data), SSHPassword = value_string (hm_ssh_password data),
      SSHPort = value_int (hm_ssh_port data), SSHUser = value_string (hm_ssh_user data),
      TargetHost = value_string (hm_target_host data), TargetPort = value_int (hm_target_port data),
      TargetSocket = value_string (hm_target_socket data)\<rparr>"

text \<open>The defaults of the local address; the user, by default the one running the provider; the port.\<close>

definition ssh_local :: "ssh_model \<Rightarrow> int \<Rightarrow> ssh_model" where
  "ssh_local d port =
     (let d1 = (if value_int (hm_local_port d) = 0 then d\<lparr>hm_local_port := Known port\<rparr> else d)
      in if unset (hm_local_host d1) then d1\<lparr>hm_local_host := Known ''localhost''\<rparr> else d1)"

definition ssh_user_or :: "string result \<Rightarrow> string tf \<Rightarrow> string tf result" where
  "ssh_user_or current v =
     (if is_null v then (case current of Inl e \<Rightarrow> Inl e | Inr n \<Rightarrow> Inr (Known n)) else Inr v)"

definition ssh_remote :: "ssh_model \<Rightarrow> string tf \<Rightarrow> ssh_model" where
  "ssh_remote d user =
     (let d1 = d\<lparr>hm_ssh_user := user\<rparr>
      in if is_null (hm_ssh_port d1) then d1\<lparr>hm_ssh_port := Known 22\<rparr> else d1)"

definition sshConfig :: "string result \<Rightarrow> int result \<Rightarrow> ssh_model \<Rightarrow> (ssh_model, ssh_config) configured" where
  "sshConfig current free d =
     (let diags = validateSSHTarget (hm_target_host d) (hm_target_socket d) (hm_target_port d) in
      if diags \<noteq> [] then (d, None, diags)
      else (case choose_port free (hm_local_port d) of
          Inl e \<Rightarrow> (d, None, [free_port_diag e])
        | Inr port \<Rightarrow>
            (case ssh_user_or current (hm_ssh_user (ssh_local d port)) of
               Inl e \<Rightarrow> (ssh_local d port, None, [(''Failed to determine the current user'', error_text e)])
             | Inr user \<Rightarrow>
                 (ssh_remote (ssh_local d port) user,
                  Some (ssh_config_of (ssh_remote (ssh_local d port) user) port), []))))"

section \<open>SSM\<close>

record ssm_model =
  sm_local_host :: "string tf"
  sm_local_port :: "int tf"
  sm_instance :: "string tf"
  sm_document :: "string tf"
  sm_profile :: "string tf"
  sm_role_arn :: "string tf"
  sm_region :: "string tf"
  sm_target_host :: "string tf"
  sm_target_port :: "int tf"

definition required_for_default :: "string \<Rightarrow> diag" where
  "required_for_default name =
     (name @ '' is required for the default SSM port-forwarding document'',
      ''`'' @ name @ ''` is required when `ssm_document` is unset or set to `'' @ DefaultSSMDocument @ ''`'')"

definition validateSSMTunnel :: "ssm_model \<Rightarrow> diag list" where
  "validateSSMTunnel data =
     (let doc = value_string (sm_document data) in
      if doc \<noteq> [] \<and> doc \<noteq> DefaultSSMDocument then []
      else (if unset (sm_target_host data) then [required_for_default ''target_host''] else []) @
           (if is_null (sm_target_port data) \<or> value_int (sm_target_port data) = 0
            then [required_for_default ''target_port''] else []))"

definition ssmTargetPortString :: "int tf \<Rightarrow> string" where
  "ssmTargetPortString port = (if is_null port \<or> value_int port = 0 then [] else itoa (value_int port))"

definition ssmTunnelConfig :: "int result \<Rightarrow> ssm_model \<Rightarrow> (ssm_model, ssm_config) configured" where
  "ssmTunnelConfig free d0 =
     (let diags = validateSSMTunnel d0 in
      if diags \<noteq> [] then (d0, None, diags)
      else (case choose_port free (sm_local_port d0) of
          Inl e \<Rightarrow> (d0, None, [free_port_diag e])
        | Inr port \<Rightarrow>
            (let d1 = d0\<lparr>sm_local_host := Known ''localhost'', sm_local_port := Known port\<rparr>
             in (d1, Some \<lparr>ssm_config.LocalPort = itoa port, SSMInstance = value_string (sm_instance d1),
                   SSMDocument = value_string (sm_document d1), SSMProfile = value_string (sm_profile d1),
                   SSMRoleARN = value_string (sm_role_arn d1), SSMRegion = value_string (sm_region d1),
                   TargetHost = value_string (sm_target_host d1),
                   TargetPort = ssmTargetPortString (sm_target_port d1), SessionParams = None\<rparr>, []))))"

definition applySSMSDKConfig :: "ssm_model \<Rightarrow> ssm_config \<Rightarrow> aws_config \<Rightarrow> ssm_model \<times> ssm_config" where
  "applySSMSDKConfig data cfg aws =
     (let c1 = cfg\<lparr>SSMRegion := Region aws, SSMProfile := GetSDKConfigProfile aws\<rparr>;
          c2 = (if SSMRoleARN c1 = [] then c1\<lparr>SSMRoleARN := GetSDKConfigRole aws\<rparr> else c1)
      in (data\<lparr>sm_region := Known (SSMRegion c2), sm_profile := Known (SSMProfile c2),
              sm_role_arn := Known (SSMRoleARN c2)\<rparr>, c2))"

text \<open>\<open>resolveSSMSDKConfig\<close> and \<open>ssmConfig\<close>; the SDK configuration itself is the last component.\<close>

definition ssmConfig :: "(load_option list \<Rightarrow> aws_config result) \<Rightarrow> int result \<Rightarrow> ssm_model \<Rightarrow>
    (ssm_model, ssm_config \<times> aws_config) configured" where
  "ssmConfig load free d0 =
     (case ssmTunnelConfig free d0 of
        (d1, None, diags) \<Rightarrow> (d1, None, diags)
      | (d1, Some cfg, diags) \<Rightarrow>
          (case GetNewSDKConfig load cfg of
             Inl e \<Rightarrow> (d1, None, diags @ [(''Failed to initialize AWS SDK'', error_text e)])
           | Inr aws \<Rightarrow> (case applySSMSDKConfig d1 cfg aws of (d2, c2) \<Rightarrow> (d2, Some (c2, aws), diags))))"

section \<open>Kubernetes\<close>

record exec_model =
  xm_api_version :: "string tf"
  xm_command :: "string tf"
  xm_env :: "(string \<times> string tf) list tf"
  xm_args :: "string tf list tf"

record kubernetes_config_model =
  km_host :: "string tf"
  km_username :: "string tf"
  km_password :: "string tf"
  km_insecure :: "bool tf"
  km_tls_server_name :: "string tf"
  km_client_certificate :: "string tf"
  km_client_key :: "string tf"
  km_cluster_ca_certificate :: "string tf"
  km_config_paths :: "string tf list tf"
  km_config_path :: "string tf"
  km_config_context :: "string tf"
  km_config_context_auth_info :: "string tf"
  km_config_context_cluster :: "string tf"
  km_token :: "string tf"
  km_proxy_url :: "string tf"
  km_exec :: "exec_model option"

record kubernetes_model =
  km_namespace :: "string tf"
  km_service_name :: "string tf"
  km_target_port :: "int tf"
  km_local_port :: "int tf"
  km_local_host :: "string tf"
  km_kubernetes :: "kubernetes_config_model option"

definition base_kube_config :: "kubernetes_model \<Rightarrow> int \<Rightarrow> kube_config" where
  "base_kube_config data port =
     \<lparr>Namespace = value_string (km_namespace data), ServiceName = value_string (km_service_name data),
      TargetPort = value_int (km_target_port data), LocalHost = value_string (km_local_host data), LocalPort = port,
      Host = [], Username = [], Password = [], Insecure = False, TLSServerName = [], ClientCertificate = [],
      ClientKey = [], ClusterCACertificate = [], ConfigPaths = [], ConfigPath = [], ConfigContext = [],
      ConfigContextAuthInfo = [], ConfigContextCluster = [], Token = [], ProxyURL = [], Exec = None\<rparr>"

definition with_kube_model :: "kubernetes_config_model \<Rightarrow> kube_config \<Rightarrow> kube_config" where
  "with_kube_model k cfg =
     cfg\<lparr>Host := value_string (km_host k), Username := value_string (km_username k),
         Password := value_string (km_password k), Insecure := value_bool (km_insecure k),
         TLSServerName := value_string (km_tls_server_name k),
         ClientCertificate := value_string (km_client_certificate k), ClientKey := value_string (km_client_key k),
         ClusterCACertificate := value_string (km_cluster_ca_certificate k),
         ConfigPath := value_string (km_config_path k), ConfigContext := value_string (km_config_context k),
         ConfigContextAuthInfo := value_string (km_config_context_auth_info k),
         ConfigContextCluster := value_string (km_config_context_cluster k), Token := value_string (km_token k),
         ProxyURL := value_string (km_proxy_url k)\<rparr>"

definition exec_of_model :: "exec_model option \<Rightarrow> exec_config option option" where
  "exec_of_model x =
     (case x of
        None \<Rightarrow> Some None
      | Some m \<Rightarrow>
          if is_null (xm_api_version m) \<or> is_null (xm_command m) then Some None
          else (case (map_elements_as (xm_env m), elements_as (xm_args m)) of
              (Some env, Some args) \<Rightarrow>
                Some (Some \<lparr>APIVersion = value_string (xm_api_version m), Command = value_string (xm_command m),
                            Env = env, Args = args\<rparr>)
            | _ \<Rightarrow> None))"

definition kube_port_diag :: "string \<Rightarrow> string \<Rightarrow> int \<Rightarrow> diag" where
  "kube_port_diag which name v =
     (''Invalid Kubernetes '' @ which @ '' port'', name @ '' must be between 1 and 65535, got '' @ itoa v)"

definition kubernetesConfig :: "int result \<Rightarrow> kubernetes_model \<Rightarrow> (kubernetes_model, kube_config) configured" where
  "kubernetesConfig free d0 =
     (let target = value_int (km_target_port d0); requested = value_int (km_local_port d0) in
      if target < 1 \<or> target > 65535 then (d0, None, [kube_port_diag ''target'' ''target_port'' target])
      else if requested < 0 \<or> requested > 65535 then (d0, None, [kube_port_diag ''local'' ''local_port'' requested])
      else (case choose_port free (km_local_port d0) of
          Inl e \<Rightarrow> (d0, None, [free_port_diag e])
        | Inr port \<Rightarrow>
            (let d1 = d0\<lparr>km_local_port := Known port\<rparr>;
                 d2 = (if unset (km_local_host d1) then d1\<lparr>km_local_host := Known ''localhost''\<rparr> else d1);
                 cfg = base_kube_config d2 port in
             case km_kubernetes d2 of
               None \<Rightarrow> (d2, Some cfg, [])
             | Some k \<Rightarrow>
                 (case elements_as (km_config_paths k) of
                    None \<Rightarrow> (d2, None, [conversion_diag])
                  | Some paths \<Rightarrow>
                      (case exec_of_model (km_exec k) of
                         None \<Rightarrow> (d2, None, [conversion_diag])
                       | Some x \<Rightarrow>
                           (d2, Some ((with_kube_model k cfg)\<lparr>ConfigPaths := paths, Exec := x\<rparr>), []))))))"

section \<open>Known attributes\<close>

text \<open>The attributes of a model by tag, and whether each one is known.\<close>

definition azure_known :: "azure_model \<Rightarrow> (string \<times> bool) list" where
  "azure_known d =
     [(''bastion_host_id'', is_known (am_bastion_host_id d)), (''target_resource_id'', is_known (am_target_resource_id d)),
      (''target_ip_address'', is_known (am_target_ip_address d)), (''target_port'', is_known (am_target_port d)),
      (''local_host'', is_known (am_local_host d)), (''local_port'', is_known (am_local_port d))]"

definition ssh_known :: "ssh_model \<Rightarrow> (string \<times> bool) list" where
  "ssh_known d =
     [(''local_host'', is_known (hm_local_host d)), (''local_port'', is_known (hm_local_port d)),
      (''ssh_host'', is_known (hm_ssh_host d)), (''ssh_key'', is_known (hm_ssh_key d)),
      (''ssh_key_passphrase'', is_known (hm_ssh_key_passphrase d)), (''ssh_password'', is_known (hm_ssh_password d)),
      (''ssh_port'', is_known (hm_ssh_port d)), (''ssh_user'', is_known (hm_ssh_user d)),
      (''target_host'', is_known (hm_target_host d)), (''target_port'', is_known (hm_target_port d)),
      (''target_socket'', is_known (hm_target_socket d))]"

definition ssm_known :: "ssm_model \<Rightarrow> (string \<times> bool) list" where
  "ssm_known d =
     [(''local_host'', is_known (sm_local_host d)), (''local_port'', is_known (sm_local_port d)),
      (''ssm_instance'', is_known (sm_instance d)), (''ssm_document'', is_known (sm_document d)),
      (''ssm_profile'', is_known (sm_profile d)), (''ssm_role_arn'', is_known (sm_role_arn d)),
      (''ssm_region'', is_known (sm_region d)), (''target_host'', is_known (sm_target_host d)),
      (''target_port'', is_known (sm_target_port d))]"

definition kubernetes_known :: "kubernetes_model \<Rightarrow> (string \<times> bool) list" where
  "kubernetes_known d =
     [(''namespace'', is_known (km_namespace d)), (''service_name'', is_known (km_service_name d)),
      (''target_port'', is_known (km_target_port d)), (''local_port'', is_known (km_local_port d)),
      (''local_host'', is_known (km_local_host d)), (''kubernetes'', km_kubernetes d \<noteq> None)]"

definition all_known :: "string list \<Rightarrow> (string \<times> bool) list \<Rightarrow> bool" where
  "all_known names known = list_all (\<lambda>n. map_of known n = Some True) names"

end
