(* ===== verification/ProviderLife.thy ===== *)
theory ProviderLife
  imports ProviderConfig
begin

text \<open>
  The data sources and the ephemeral resources of \<open>internal/provider\<close>: \<open>Read\<close>, \<open>Open\<close> and \<open>Close\<close>, and the
  provider's own tables. The framework decodes the configuration and encodes the result; what it
  reports is an argument (\<open>decoded\<close>, \<open>stored\<close>).
\<close>

section \<open>Type names and the provider's tables\<close>

definition provider_type_name :: string where "provider_type_name = ''tunnel''"

text \<open>The provider of \<open>New\<close>, and its \<open>Metadata\<close>: the name and the version.\<close>

record tunnel_provider =
  pv_version :: string

definition New :: "string \<Rightarrow> tunnel_provider" where
  "New version = \<lparr>pv_version = version\<rparr>"

definition Metadata :: "tunnel_provider \<Rightarrow> string \<times> string" where
  "Metadata p = (provider_type_name, pv_version p)"

text \<open>\<open>Metadata\<close> of a data source or ephemeral resource: the provider's name and the tunnel's.\<close>

definition type_name :: "tunnel_kind \<Rightarrow> string" where
  "type_name k =
     provider_type_name @
     (case k of AzureBastion \<Rightarrow> ''_azure_bastion'' | Ssh \<Rightarrow> ''_ssh'' | Ssm \<Rightarrow> ''_ssm'' | Kubernetes \<Rightarrow> ''_kubernetes'')"

definition DataSources :: "tunnel_kind list" where
  "DataSources = [AzureBastion, Ssh, Ssm, Kubernetes]"

definition EphemeralResources :: "tunnel_kind list" where
  "EphemeralResources = [AzureBastion, Ssh, Ssm, Kubernetes]"

section \<open>Read and Open\<close>

text \<open>
  A response: diagnostics, the stored result (the state of a data source, the result of an
  ephemeral resource), and the private data of an ephemeral resource.
\<close>

record 'm response =
  rp_diags :: "diag list"
  rp_result :: "'m option"
  rp_pid :: "string option"

text \<open>
  \<open>fork\<close> starts the tunnel of a configuration: \<open>None\<close> when it never answers. The summaries of the
  diagnostic differ between the tunnels, and Kubernetes gives the bare error as its detail.
\<close>

definition fork_diag :: "tunnel_kind \<Rightarrow> go_error \<Rightarrow> diag" where
  "fork_diag k e =
     (case k of
        AzureBastion \<Rightarrow> (''Failed to start Azure Bastion tunnel'', ''Error: '' @ error_text e)
      | Ssh \<Rightarrow> (''Failed to fork tunnel process'', ''Error: '' @ error_text e)
      | Ssm \<Rightarrow> (''Failed to fork tunnel process'', ''Error: '' @ error_text e)
      | Kubernetes \<Rightarrow> (''Failed to start tunnel'', error_text e))"

text \<open>The part \<open>Read\<close> and \<open>Open\<close> share: decode, configure, fork. The process is the last component.\<close>

definition start_tunnel :: "tunnel_kind \<Rightarrow> diag list \<Rightarrow> ('m \<Rightarrow> ('m, 'c) configured) \<Rightarrow> ('c \<Rightarrow> int result option) \<Rightarrow> 'm \<Rightarrow>
    (diag list \<times> ('m \<times> int) option) option" where
  "start_tunnel k decoded configure fork data =
     (if decoded \<noteq> [] then Some (decoded, None)
      else (case configure data of
          (data', None, diags) \<Rightarrow> Some (diags, None)
        | (data', Some cfg, diags) \<Rightarrow>
            if diags \<noteq> [] then Some (diags, None)
            else (case fork cfg of
                None \<Rightarrow> None
              | Some (Inl e) \<Rightarrow> Some ([fork_diag k e], None)
              | Some (Inr pid) \<Rightarrow> Some ([], Some (data', pid)))))"

definition Read :: "tunnel_kind \<Rightarrow> diag list \<Rightarrow> ('m \<Rightarrow> ('m, 'c) configured) \<Rightarrow> ('c \<Rightarrow> int result option) \<Rightarrow>
    ('m \<Rightarrow> diag list) \<Rightarrow> 'm \<Rightarrow> 'm response option" where
  "Read k decoded configure fork stored data =
     map_option (\<lambda>(diags, started).
       case started of
         None \<Rightarrow> \<lparr>rp_diags = diags, rp_result = None, rp_pid = None\<rparr>
       | Some (data', pid) \<Rightarrow> \<lparr>rp_diags = diags @ stored data', rp_result = Some data', rp_pid = None\<rparr>)
     (start_tunnel k decoded configure fork data)"

definition Open :: "tunnel_kind \<Rightarrow> diag list \<Rightarrow> ('m \<Rightarrow> ('m, 'c) configured) \<Rightarrow> ('c \<Rightarrow> int result option) \<Rightarrow>
    ('m \<Rightarrow> diag list) \<Rightarrow> 'm \<Rightarrow> 'm response option" where
  "Open k decoded configure fork stored data =
     map_option (\<lambda>(diags, started).
       case started of
         None \<Rightarrow> \<lparr>rp_diags = diags, rp_result = None, rp_pid = None\<rparr>
       | Some (data', pid) \<Rightarrow>
           \<lparr>rp_diags = diags @ stored data', rp_result = Some data', rp_pid = Some (itoa pid)\<rparr>)
     (start_tunnel k decoded configure fork data)"

section \<open>Close\<close>

text \<open>The stored process identifier, empty when there is none; \<open>found\<close> and \<open>sent\<close> as for \<open>Interrupt\<close>.\<close>

definition Close :: "string \<Rightarrow> unit result \<Rightarrow> unit result \<Rightarrow> string option \<Rightarrow> process_event list \<times> diag list" where
  "Close goos found sent private =
     (case atoi (case private of None \<Rightarrow> [] | Some s \<Rightarrow> s) of
        Inl e \<Rightarrow> ([], [(''Failed to parse tunnel PID'', ''Error: '' @ error_text e)])
      | Inr pid \<Rightarrow>
          (case Interrupt goos pid found sent of
             (evs, Inl e) \<Rightarrow> (evs, [(''Failed to terminate tunnel process'', ''Error: '' @ error_text e)])
           | (evs, Inr u) \<Rightarrow> (evs, [])))"

section \<open>The four tunnels\<close>

text \<open>Each resource has its own \<open>Close\<close>.\<close>

definition close_azure :: "string \<Rightarrow> unit result \<Rightarrow> unit result \<Rightarrow> string option \<Rightarrow> process_event list \<times> diag list" where
  "close_azure = Close"

definition close_ssh :: "string \<Rightarrow> unit result \<Rightarrow> unit result \<Rightarrow> string option \<Rightarrow> process_event list \<times> diag list" where
  "close_ssh = Close"

definition close_ssm :: "string \<Rightarrow> unit result \<Rightarrow> unit result \<Rightarrow> string option \<Rightarrow> process_event list \<times> diag list" where
  "close_ssm = Close"

definition close_kubernetes :: "string \<Rightarrow> unit result \<Rightarrow> unit result \<Rightarrow> string option \<Rightarrow> process_event list \<times> diag list" where
  "close_kubernetes = Close"

text \<open>Each resource with its own configuration and fork.\<close>

definition open_azure :: "(string \<Rightarrow> resource_id result) \<Rightarrow> int result \<Rightarrow> 'st fork_world \<Rightarrow>
    diag list \<Rightarrow> (azure_model \<Rightarrow> diag list) \<Rightarrow> azure_model \<Rightarrow> azure_model response option" where
  "open_azure parse free w decoded stored data =
     Open AzureBastion decoded (azureBastionConfig parse free)
       (\<lambda>cfg. map_option snd (fork_azure_tunnel parse w cfg)) stored data"

definition open_ssh :: "string result \<Rightarrow> int result \<Rightarrow> 'st fork_world \<Rightarrow>
    diag list \<Rightarrow> (ssh_model \<Rightarrow> diag list) \<Rightarrow> ssh_model \<Rightarrow> ssh_model response option" where
  "open_ssh user free w decoded stored data =
     Open Ssh decoded (sshConfig user free)
       (\<lambda>cfg. map_option snd (fork_ssh_tunnel w cfg)) stored data"

definition open_ssm :: "(load_option list \<Rightarrow> aws_config result) \<Rightarrow> session_response result \<Rightarrow> unit result \<Rightarrow> int result \<Rightarrow>
    'st fork_world \<Rightarrow> diag list \<Rightarrow> (ssm_model \<Rightarrow> diag list) \<Rightarrow> ssm_model \<Rightarrow>
    ssm_model response option" where
  "open_ssm load reply terminated free w decoded stored data =
     Open Ssm decoded (ssmConfig load free)
       (\<lambda>(cfg, aws). map_option snd (fork_ssm_tunnel reply terminated w cfg)) stored data"

definition open_kubernetes :: "int result \<Rightarrow> 'st fork_world \<Rightarrow>
    diag list \<Rightarrow> (kubernetes_model \<Rightarrow> diag list) \<Rightarrow> kubernetes_model \<Rightarrow> kubernetes_model response option" where
  "open_kubernetes free w decoded stored data =
     Open Kubernetes decoded (kubernetesConfig free)
       (\<lambda>cfg. map_option snd (fork_kube_tunnel w cfg)) stored data"

text \<open>The data sources, in the same way.\<close>

definition read_azure :: "(string \<Rightarrow> resource_id result) \<Rightarrow> int result \<Rightarrow> 'st fork_world \<Rightarrow>
    diag list \<Rightarrow> (azure_model \<Rightarrow> diag list) \<Rightarrow> azure_model \<Rightarrow> azure_model response option" where
  "read_azure parse free w decoded stored data =
     Read AzureBastion decoded (azureBastionConfig parse free)
       (\<lambda>cfg. map_option snd (fork_azure_tunnel parse w cfg)) stored data"

definition read_ssh :: "string result \<Rightarrow> int result \<Rightarrow> 'st fork_world \<Rightarrow>
    diag list \<Rightarrow> (ssh_model \<Rightarrow> diag list) \<Rightarrow> ssh_model \<Rightarrow> ssh_model response option" where
  "read_ssh user free w decoded stored data =
     Read Ssh decoded (sshConfig user free) (\<lambda>cfg. map_option snd (fork_ssh_tunnel w cfg)) stored data"

definition read_ssm :: "(load_option list \<Rightarrow> aws_config result) \<Rightarrow> session_response result \<Rightarrow> unit result \<Rightarrow> int result \<Rightarrow>
    'st fork_world \<Rightarrow> diag list \<Rightarrow> (ssm_model \<Rightarrow> diag list) \<Rightarrow> ssm_model \<Rightarrow>
    ssm_model response option" where
  "read_ssm load reply terminated free w decoded stored data =
     Read Ssm decoded (ssmConfig load free)
       (\<lambda>(cfg, aws). map_option snd (fork_ssm_tunnel reply terminated w cfg)) stored data"

definition read_kubernetes :: "int result \<Rightarrow> 'st fork_world \<Rightarrow>
    diag list \<Rightarrow> (kubernetes_model \<Rightarrow> diag list) \<Rightarrow> kubernetes_model \<Rightarrow> kubernetes_model response option" where
  "read_kubernetes free w decoded stored data =
     Read Kubernetes decoded (kubernetesConfig free) (\<lambda>cfg. map_option snd (fork_kube_tunnel w cfg)) stored data"

section \<open>Lemmas\<close>

text \<open>The configuration steps stop with an error or give a configuration.\<close>

lemma azureBastionConfig_complete:
  "snd (snd (azureBastionConfig parse free d)) = [] \<Longrightarrow> fst (snd (azureBastionConfig parse free d)) \<noteq> None"
  by (auto simp: azureBastionConfig_def Let_def split: sum.split_asm)

lemma sshConfig_complete: "snd (snd (sshConfig user free d)) = [] \<Longrightarrow> fst (snd (sshConfig user free d)) \<noteq> None"
  by (cases "validateSSHTarget (hm_target_host d) (hm_target_socket d) (hm_target_port d) = []")
     (auto simp: sshConfig_def Let_def split: sum.splits)

lemma ssmConfig_complete: "snd (snd (ssmConfig load free d)) = [] \<Longrightarrow> fst (snd (ssmConfig load free d)) \<noteq> None"
  by (cases "validateSSMTunnel d = []")
     (auto simp: ssmConfig_def ssmTunnelConfig_def applySSMSDKConfig_def Let_def split: sum.splits)

lemma kubernetesConfig_complete:
  "snd (snd (kubernetesConfig free d)) = [] \<Longrightarrow> fst (snd (kubernetesConfig free d)) \<noteq> None"
  by (auto simp: kubernetesConfig_def Let_def split: sum.splits option.splits if_splits)

text \<open>The computed attributes, from the schemas.\<close>

lemma computed_simps:
  "computed azure_bastion_ephemeral_schema = [''local_host'', ''local_port'']"
  "computed ssh_ephemeral_schema = [''ssh_port'', ''ssh_user'', ''local_host'', ''local_port'']"
  "computed ssm_ephemeral_schema = [''ssm_profile'', ''ssm_role_arn'', ''ssm_region'', ''local_port'', ''local_host'']"
  "computed kubernetes_ephemeral_schema = [''local_host'', ''local_port'']"
  by code_simp+

lemma unset_known: "\<not> unset v \<Longrightarrow> v = Known (value_string v)"
  by (cases v) (auto simp: unset_def)

lemma choose_port_known:
  "choose_port free v = Inr p \<Longrightarrow> (if value_int v = 0 then Known p else v) = Known p"
  by (cases v) (auto simp: choose_port_def)

lemma choose_port_given: "choose_port free v = Inr p \<Longrightarrow> value_int v \<noteq> 0 \<Longrightarrow> v = Known p"
  using choose_port_known [of free v p] by simp

lemma azure_computed:
  assumes "azureBastionConfig parse free d = (d', Some cfg, diags)"
  shows "am_local_host d' = Known (azure_config.LocalHost cfg)" "am_local_port d' = Known (azure_config.LocalPort cfg)"
  using assms unset_known [of "am_local_host d"]
  by (auto simp: azureBastionConfig_def Let_def choose_port_given split: sum.splits if_splits)

lemma ssh_computed:
  assumes "sshConfig user free d = (d', Some cfg, diags)"
  shows "hm_local_host d' = Known (ssh_config.LocalHost cfg)" "hm_local_port d' = Known (ssh_config.LocalPort cfg)"
    "hm_ssh_user d \<noteq> Unknown \<Longrightarrow> is_known (hm_ssh_user d')" "hm_ssh_port d \<noteq> Unknown \<Longrightarrow> is_known (hm_ssh_port d')"
proof -
  from assms obtain p u where p: "choose_port free (hm_local_port d) = Inr p" "ssh_user_or user (hm_ssh_user (ssh_local d p)) = Inr u"
      "d' = ssh_remote (ssh_local d p) u" "cfg = ssh_config_of d' p"
    by (auto simp: sshConfig_def Let_def split: if_splits sum.splits)
  have local: "hm_local_port (ssh_local d p) = Known p" "hm_local_host (ssh_local d p) = Known (value_string (hm_local_host (ssh_local d p)))"
      "hm_ssh_user (ssh_local d p) = hm_ssh_user d" "hm_ssh_port (ssh_local d p) = hm_ssh_port d"
    using choose_port_known [OF p(1)] unset_known [of "hm_local_host d"] by (auto simp: ssh_local_def Let_def split: if_splits)
  have remote: "hm_local_port d' = hm_local_port (ssh_local d p)" "hm_local_host d' = hm_local_host (ssh_local d p)"
      "hm_ssh_user d' = u" "hm_ssh_port d' = (if is_null (hm_ssh_port d) then Known 22 else hm_ssh_port d)"
    using local(4) by (simp_all add: p(3) ssh_remote_def Let_def)
  show "hm_local_host d' = Known (ssh_config.LocalHost cfg)" "hm_local_port d' = Known (ssh_config.LocalPort cfg)"
    using local remote by (simp_all add: p(4) ssh_config_of_def)
  show "hm_ssh_user d \<noteq> Unknown \<Longrightarrow> is_known (hm_ssh_user d')"
    using p(2) local(3) by (cases "hm_ssh_user d") (auto simp: remote(3) ssh_user_or_def split: sum.splits)
  show "hm_ssh_port d \<noteq> Unknown \<Longrightarrow> is_known (hm_ssh_port d')"
    using remote(4) by (cases "hm_ssh_port d") auto
qed

lemma ssm_computed:
  assumes "ssmConfig load free d = (d', Some (cfg, aws), diags)"
  shows "sm_local_host d' = Known ''localhost''" "\<exists>p. sm_local_port d' = Known p \<and> ssm_config.LocalPort cfg = itoa p"
    "sm_region d' = Known (SSMRegion cfg)" "sm_profile d' = Known (SSMProfile cfg)" "sm_role_arn d' = Known (SSMRoleARN cfg)"
  using assms
  by (auto simp: ssmConfig_def ssmTunnelConfig_def applySSMSDKConfig_def Let_def split: sum.splits if_splits prod.splits option.splits)

lemma kubernetes_computed:
  assumes "kubernetesConfig free d = (d', Some cfg, diags)"
  shows "km_local_host d' = Known (kube_config.LocalHost cfg)" "km_local_port d' = Known (kube_config.LocalPort cfg)"
  using assms unset_known [of "km_local_host d"]
  by (auto simp: kubernetesConfig_def Let_def base_kube_config_def with_kube_model_def split: sum.splits if_splits option.splits)

section \<open>Properties\<close>

text \<open>C14: Closing an ephemeral tunnel interrupts the process that opening it started. When \<open>Open\<close> started
  a process, it stores its identifier, and \<open>Close\<close> with that private data sends one interrupt to
  exactly that process, whatever 32-bit identifier it has; when \<open>Open\<close> started none it stores
  neither a result nor an identifier and reports an error, and \<open>Close\<close> would signal nobody.\<close>

theorem close_interrupts_opened:
  assumes "Open k decoded configure fork stored data = Some r"
    and "\<And>cfg pid. fork cfg = Some (Inr pid) \<Longrightarrow> 0 < pid \<and> pid < 2 ^ 31"
    and "\<And>d. snd (snd (configure d)) = [] \<Longrightarrow> fst (snd (configure d)) \<noteq> None"
  shows "case rp_pid r of
      Some s \<Rightarrow> \<exists>cfg pid. fork cfg = Some (Inr pid) \<and> s = itoa pid \<and> rp_result r \<noteq> None \<and>
        Close goos (Inr ()) sent (Some s) = ([terminate goos pid],
          case sent of Inl e \<Rightarrow> [(''Failed to terminate tunnel process'', ''Error: '' @ error_text e)] | Inr u \<Rightarrow> [])
    | None \<Rightarrow> rp_result r = None \<and> rp_diags r \<noteq> [] \<and> fst (Close goos (Inr ()) sent None) = []"
proof (cases "start_tunnel k decoded configure fork data")
  case None
  with assms(1) show ?thesis by (simp add: Open_def)
next
  case (Some st)
  obtain diags started where st: "st = (diags, started)" by (cases st)
  show ?thesis
  proof (cases started)
    case None
    have "diags \<noteq> []" using Some st None assms(3) [of data]
      by (auto simp: start_tunnel_def split: if_splits prod.splits option.splits sum.splits)
    moreover have "fst (Close goos (Inr ()) sent None) = []" by (simp add: Close_def atoi_def)
    ultimately show ?thesis using assms(1) Some st None by (auto simp: Open_def)
  next
    case (Some p)
    obtain data' pid where p: "p = (data', pid)" by (cases p)
    with \<open>start_tunnel k decoded configure fork data = Some st\<close> st Some obtain cfg where
      f: "fork cfg = Some (Inr pid)"
      by (auto simp: start_tunnel_def split: if_splits prod.splits option.splits sum.splits)
    have range: "0 < pid" "pid < 2 ^ 31" using assms(2) [OF f] by auto
    have "atoi (itoa pid) = Inr pid"
      by (rule atoi_itoa) (use range in \<open>simp add: in_int64_def int64_min_def int64_max_def\<close>)
    moreover have "to_int32 pid = pid" by (rule to_int32_id) (use range in auto)
    ultimately have "Close goos (Inr ()) sent (Some (itoa pid)) = ([terminate goos pid],
          case sent of Inl e \<Rightarrow> [(''Failed to terminate tunnel process'', ''Error: '' @ error_text e)] | Inr u \<Rightarrow> [])"
      by (simp add: Close_def Interrupt_def split: sum.splits)
    moreover have "r = \<lparr>rp_diags = diags @ stored data', rp_result = Some data', rp_pid = Some (itoa pid)\<rparr>"
      using assms(1) p Some st \<open>start_tunnel k decoded configure fork data = Some st\<close> by (simp add: Open_def)
    ultimately show ?thesis using f by auto
  qed
qed

definition sample_ssh_model :: ssh_model where
  "sample_ssh_model = \<lparr>hm_local_host = Null, hm_local_port = Null, hm_ssh_host = Known ''bastion'', hm_ssh_key = Null,
     hm_ssh_key_passphrase = Null, hm_ssh_password = Null, hm_ssh_port = Null, hm_ssh_user = Null,
     hm_target_host = Known ''db'', hm_target_port = Known 5432, hm_target_socket = Null\<rparr>"

theorem close_interrupts_opened_witness:
  "\<exists>r. Open Ssh [] (sshConfig (Inr ''me'') (Inr 40000)) (\<lambda>c. Some (Inr 4242)) (\<lambda>m. []) sample_ssh_model = Some r \<and>
     rp_pid r = Some (itoa 4242) \<and> Close ''linux'' (Inr ()) (Inr ()) (Some (itoa 4242)) = ([SigInt 4242], [])"
proof -
  obtain r where r: "Open Ssh [] (sshConfig (Inr ''me'') (Inr 40000)) (\<lambda>c. Some (Inr 4242)) (\<lambda>m. []) sample_ssh_model = Some r"
      "rp_pid r = Some (itoa 4242)"
    by (simp add: Open_def start_tunnel_def sshConfig_def validateSSHTarget_def sample_ssh_model_def unset_def Let_def
        choose_port_def ssh_user_or_def ssh_local_def)
  from close_interrupts_opened [OF r(1) _ sshConfig_complete, of "''linux''" "Inr ()"] r show ?thesis
    by (auto simp: terminate_def)
qed

text \<open>C35: What Terraform records is what the tunnel listens on, and nothing computed is left unknown. When
  the configuration step succeeds, every attribute the schema marks as computed is known in the
  model (for SSH, provided the user and port were not unknown to begin with), and the local
  address of the model is the one the tunnel is given.\<close>

theorem computed_attributes_known:
  "(\<forall>d d' cfg diags. azureBastionConfig parse free d = (d', Some cfg, diags) \<longrightarrow>
      all_known (computed azure_bastion_ephemeral_schema) (azure_known d') \<and>
      am_local_host d' = Known (azure_config.LocalHost cfg) \<and> am_local_port d' = Known (azure_config.LocalPort cfg)) \<and>
   (\<forall>d d' cfg diags. sshConfig user free d = (d', Some cfg, diags) \<longrightarrow> hm_ssh_user d \<noteq> Unknown \<longrightarrow> hm_ssh_port d \<noteq> Unknown \<longrightarrow>
      all_known (computed ssh_ephemeral_schema) (ssh_known d') \<and>
      hm_local_host d' = Known (ssh_config.LocalHost cfg) \<and> hm_local_port d' = Known (ssh_config.LocalPort cfg)) \<and>
   (\<forall>d d' cfg aws diags. ssmConfig load free d = (d', Some (cfg, aws), diags) \<longrightarrow>
      all_known (computed ssm_ephemeral_schema) (ssm_known d') \<and>
      sm_local_host d' = Known ''localhost'' \<and> (\<exists>p. sm_local_port d' = Known p \<and> ssm_config.LocalPort cfg = itoa p) \<and>
      sm_region d' = Known (SSMRegion cfg) \<and> sm_profile d' = Known (SSMProfile cfg) \<and> sm_role_arn d' = Known (SSMRoleARN cfg)) \<and>
   (\<forall>d d' cfg diags. kubernetesConfig free d = (d', Some cfg, diags) \<longrightarrow>
      all_known (computed kubernetes_ephemeral_schema) (kubernetes_known d') \<and>
      km_local_host d' = Known (kube_config.LocalHost cfg) \<and> km_local_port d' = Known (kube_config.LocalPort cfg))"
  by (intro conjI allI impI)
     (auto simp: computed_simps all_known_def azure_known_def ssh_known_def ssm_known_def kubernetes_known_def
       dest: azure_computed ssh_computed ssm_computed kubernetes_computed)

definition sample_azure_model :: azure_model where
  "sample_azure_model = \<lparr>am_bastion_host_id = Known ''/b'', am_target_resource_id = Null,
     am_target_ip_address = Known ''10.0.0.4'', am_target_port = Known 22, am_local_host = Null, am_local_port = Null\<rparr>"

definition sample_ssm_model :: ssm_model where
  "sample_ssm_model = \<lparr>sm_local_host = Null, sm_local_port = Null, sm_instance = Known ''i-1'', sm_document = Null,
     sm_profile = Null, sm_role_arn = Null, sm_region = Null, sm_target_host = Known ''db'', sm_target_port = Known 5432\<rparr>"

definition sample_kubernetes_model :: kubernetes_model where
  "sample_kubernetes_model = \<lparr>km_namespace = Known ''prod'', km_service_name = Known ''db'', km_target_port = Known 80,
     km_local_port = Null, km_local_host = Null, km_kubernetes = None\<rparr>"

definition sample_aws :: "load_option list \<Rightarrow> aws_config result" where
  "sample_aws opts = Inr \<lparr>Region = ''eu-west-1'', ConfigSources = [SharedConfig ''dev'' []], AssumedRole = None\<rparr>"

definition configures :: "('m, 'c) configured \<Rightarrow> bool" where
  "configures r = (case r of (d, None, diags) \<Rightarrow> False | (d, Some cfg, diags) \<Rightarrow> True)"

lemma configuresD: "configures r \<Longrightarrow> \<exists>cfg diags. r = (fst r, Some cfg, diags)"
  by (cases r) (auto simp: configures_def split: option.splits)

lemma samples_configure:
  "configures (azureBastionConfig plain_parse (Inr 40000) sample_azure_model)"
  "configures (sshConfig (Inr ''me'') (Inr 40000) sample_ssh_model)"
  "configures (ssmConfig sample_aws (Inr 40000) sample_ssm_model)"
  "configures (kubernetesConfig (Inr 40000) sample_kubernetes_model)"
  subgoal by code_simp
  subgoal by code_simp
  subgoal by (simp add: configures_def ssmConfig_def ssmTunnelConfig_def sample_ssm_model_def validateSSMTunnel_def
      unset_def choose_port_def GetNewSDKConfig_def bind_res_def sample_aws_def applySSMSDKConfig_def Let_def)
  subgoal by code_simp
  done

theorem computed_attributes_known_witness:
  "all_known (computed azure_bastion_ephemeral_schema)
     (azure_known (fst (azureBastionConfig plain_parse (Inr 40000) sample_azure_model))) \<and>
   all_known (computed ssh_ephemeral_schema) (ssh_known (fst (sshConfig (Inr ''me'') (Inr 40000) sample_ssh_model))) \<and>
   all_known (computed ssm_ephemeral_schema) (ssm_known (fst (ssmConfig sample_aws (Inr 40000) sample_ssm_model))) \<and>
   all_known (computed kubernetes_ephemeral_schema)
     (kubernetes_known (fst (kubernetesConfig (Inr 40000) sample_kubernetes_model)))"
proof -
  note all = computed_attributes_known [of plain_parse "Inr 40000" "Inr ''me''" sample_aws]
  have "hm_ssh_user sample_ssh_model \<noteq> Unknown" "hm_ssh_port sample_ssh_model \<noteq> Unknown"
    by (simp_all add: sample_ssh_model_def)
  note user = this
  from samples_configure(1) [THEN configuresD] samples_configure(2) [THEN configuresD]
    samples_configure(3) [THEN configuresD] samples_configure(4) [THEN configuresD]
  obtain a a' h h' s s' aws k k' where
    r: "azureBastionConfig plain_parse (Inr 40000) sample_azure_model =
          (fst (azureBastionConfig plain_parse (Inr 40000) sample_azure_model), Some a, a')"
       "sshConfig (Inr ''me'') (Inr 40000) sample_ssh_model =
          (fst (sshConfig (Inr ''me'') (Inr 40000) sample_ssh_model), Some h, h')"
       "ssmConfig sample_aws (Inr 40000) sample_ssm_model =
          (fst (ssmConfig sample_aws (Inr 40000) sample_ssm_model), Some (s, aws), s')"
       "kubernetesConfig (Inr 40000) sample_kubernetes_model =
          (fst (kubernetesConfig (Inr 40000) sample_kubernetes_model), Some k, k')" by fast
  show ?thesis
    by (intro conjI all [THEN conjunct1, rule_format, OF r(1), THEN conjunct1]
      all [THEN conjunct2, THEN conjunct1, rule_format, OF r(2) user, THEN conjunct1]
      all [THEN conjunct2, THEN conjunct2, THEN conjunct1, rule_format, OF r(3), THEN conjunct1]
      all [THEN conjunct2, THEN conjunct2, THEN conjunct2, rule_format, OF r(4), THEN conjunct1])
qed

end
