(* ===== verification/EndToEnd.thy ===== *)
theory EndToEnd
  imports ProviderLife
begin

text \<open>
  From the provider to the tunnel: what \<open>StartTunnel\<close> of the runner runs in the child, and that it is
  the configuration the provider validated, for each of the four tunnels.
\<close>

section \<open>The child\<close>

text \<open>What the four \<open>StartRemoteTunnel\<close> functions meet; \<open>cw_watch\<close> is the answer of \<open>WatchProcess\<close>.\<close>

record ('s, 'r) child_world =
  cw_watch :: "unit result"
  cw_ssh :: "'s ssh_world"
  cw_azure :: azure_world
  cw_input_json :: "session_input \<Rightarrow> string"
  cw_endpoint :: "string \<Rightarrow> string result"
  cw_kube :: "'r kube_world"

datatype child_run =
    SshRun "(tunnel_event, unit) eff"
  | AzureRun "(azure_event, unit) eff"
  | SsmRun "(ssm_child_event, unit) eff"
  | KubeRun "(kube_event, unit) eff"

definition StartRemoteTunnel :: "('s, 'r) child_world \<Rightarrow> start_call \<Rightarrow> child_run" where
  "StartRemoteTunnel cw call =
     (case sc_kind call of
        AzureBastion \<Rightarrow> AzureRun (start_azure_tunnel ((cw_azure cw)\<lparr>aw_watch := cw_watch cw\<rparr>) (sc_config call))
      | Ssh \<Rightarrow> SshRun (start_ssh_tunnel (sc_config call) (cw_watch cw) (cw_ssh cw))
      | Ssm \<Rightarrow> SsmRun (start_ssm_tunnel (cw_input_json cw) (cw_endpoint cw) (sc_config call) (cw_watch cw))
      | Kubernetes \<Rightarrow> KubeRun (start_kube_tunnel (sc_config call) (cw_watch cw) (cw_kube cw)))"

text \<open>The child that a started process runs, from its environment and arguments.\<close>

definition child_of :: "string list \<Rightarrow> string list \<Rightarrow> start_call option" where
  "child_of args env =
     (case main_start env args (Inr ()) of RunTunnel (Inr call) \<Rightarrow> Some call | _ \<Rightarrow> None)"

section \<open>What Terraform guarantees\<close>

text \<open>Terraform's strings are valid UTF-8 and its numbers, read as \<open>types.Int64\<close>, have 64 bits.\<close>

definition text_ok :: "string tf \<Rightarrow> bool" where "text_ok v \<longleftrightarrow> utf8 (value_string v)"
definition number_ok :: "int tf \<Rightarrow> bool" where "number_ok v \<longleftrightarrow> in_int64 (value_int v)"
definition port_ok :: "int result \<Rightarrow> bool" where "port_ok r \<longleftrightarrow> (case r of Inl e \<Rightarrow> True | Inr p \<Rightarrow> in_int64 p)"
definition user_ok :: "string result \<Rightarrow> bool" where "user_ok r \<longleftrightarrow> (case r of Inl e \<Rightarrow> True | Inr s \<Rightarrow> utf8 s)"

definition azure_model_ok :: "azure_model \<Rightarrow> bool" where
  "azure_model_ok d \<longleftrightarrow> text_ok (am_bastion_host_id d) \<and> text_ok (am_target_resource_id d) \<and>
     text_ok (am_target_ip_address d) \<and> number_ok (am_target_port d) \<and> text_ok (am_local_host d) \<and> number_ok (am_local_port d)"

definition ssh_model_ok :: "ssh_model \<Rightarrow> bool" where
  "ssh_model_ok d \<longleftrightarrow> text_ok (hm_local_host d) \<and> number_ok (hm_local_port d) \<and> text_ok (hm_ssh_host d) \<and>
     text_ok (hm_ssh_key d) \<and> text_ok (hm_ssh_key_passphrase d) \<and> text_ok (hm_ssh_password d) \<and> number_ok (hm_ssh_port d) \<and>
     text_ok (hm_ssh_user d) \<and> text_ok (hm_target_host d) \<and> number_ok (hm_target_port d) \<and> text_ok (hm_target_socket d)"

lemma utf8_localhost [simp]: "utf8 ''localhost''" "utf8 DefaultLocalHost"
  by (simp_all add: DefaultLocalHost_def)

lemma in_int64_small [simp]: "in_int64 0" "in_int64 22"
  by (simp_all add: in_int64_def int64_min_def int64_max_def)

lemma choose_port_ok: "choose_port free v = Inr p \<Longrightarrow> number_ok v \<Longrightarrow> port_ok free \<Longrightarrow> in_int64 p"
  by (auto simp: choose_port_def number_ok_def port_ok_def split: if_splits)

lemma azure_config_encodable:
  assumes "azureBastionConfig parse free d = (d', Some cfg, diags)" "azure_model_ok d" "port_ok free"
  shows "azure_encodable cfg"
  using assms choose_port_ok [of free "am_local_port d"]
  by (auto simp: azureBastionConfig_def azure_encodable_def azure_model_ok_def text_ok_def number_ok_def Let_def
      split: sum.splits if_splits)

lemma ssh_config_encodable:
  assumes "sshConfig user free d = (d', Some cfg, diags)" "ssh_model_ok d" "port_ok free" "user_ok user"
  shows "ssh_encodable cfg"
proof -
  from assms(1) obtain p u where p: "choose_port free (hm_local_port d) = Inr p" "ssh_user_or user (hm_ssh_user (ssh_local d p)) = Inr u"
      "cfg = ssh_config_of (ssh_remote (ssh_local d p) u) p"
    by (auto simp: sshConfig_def Let_def split: if_splits sum.splits)
  have "in_int64 p" by (rule choose_port_ok [OF p(1)]) (use assms(2,3) in \<open>simp_all add: ssh_model_ok_def\<close>)
  moreover have "hm_ssh_user (ssh_local d p) = hm_ssh_user d" by (simp add: ssh_local_def Let_def)
  then have "utf8 (value_string u)"
    using p(2) assms(2,4) by (auto simp: ssh_user_or_def user_ok_def ssh_model_ok_def text_ok_def split: if_splits sum.splits)
  ultimately show ?thesis
    using assms(2)
    by (simp add: p(3) ssh_config_of_def ssh_encodable_def ssh_remote_def ssh_local_def ssh_model_ok_def text_ok_def number_ok_def Let_def)
qed

definition list_ok :: "string tf list tf \<Rightarrow> bool" where
  "list_ok v \<longleftrightarrow> (case v of Known vs \<Rightarrow> list_all text_ok vs | _ \<Rightarrow> True)"

definition map_ok :: "(string \<times> string tf) list tf \<Rightarrow> bool" where
  "map_ok v \<longleftrightarrow> (case v of
     Known kvs \<Rightarrow> list_all (\<lambda>m. utf8 (fst m) \<and> text_ok (snd m)) kvs \<and> distinct (map fst kvs) | _ \<Rightarrow> True)"

definition exec_model_ok :: "exec_model \<Rightarrow> bool" where
  "exec_model_ok x \<longleftrightarrow> text_ok (xm_api_version x) \<and> text_ok (xm_command x) \<and> map_ok (xm_env x) \<and> list_ok (xm_args x)"

definition kubernetes_config_model_ok :: "kubernetes_config_model \<Rightarrow> bool" where
  "kubernetes_config_model_ok k \<longleftrightarrow> text_ok (km_host k) \<and>
     text_ok (km_username k) \<and>
     text_ok (km_password k) \<and>
     text_ok (km_tls_server_name k) \<and>
     text_ok (km_client_certificate k) \<and>
     text_ok (km_client_key k) \<and>
     text_ok (km_cluster_ca_certificate k) \<and>
     text_ok (km_config_path k) \<and>
     text_ok (km_config_context k) \<and>
     text_ok (km_config_context_auth_info k) \<and>
     text_ok (km_config_context_cluster k) \<and>
     text_ok (km_token k) \<and>
     text_ok (km_proxy_url k) \<and>
     list_ok (km_config_paths k) \<and> (case km_exec k of None \<Rightarrow> True | Some x \<Rightarrow> exec_model_ok x)"

definition kubernetes_model_ok :: "kubernetes_model \<Rightarrow> bool" where
  "kubernetes_model_ok d \<longleftrightarrow> text_ok (km_namespace d) \<and> text_ok (km_service_name d) \<and> text_ok (km_local_host d) \<and>
     (case km_kubernetes d of None \<Rightarrow> True | Some k \<Rightarrow> kubernetes_config_model_ok k)"

lemma known_elements_all: "known_elements vs = Some xs \<Longrightarrow> list_all text_ok vs \<Longrightarrow> list_all utf8 xs"
  by (induction vs arbitrary: xs rule: known_elements.induct) (auto simp: text_ok_def)

lemma known_elements_length: "known_elements vs = Some xs \<Longrightarrow> length xs = length vs"
  by (induction vs arbitrary: xs rule: known_elements.induct) auto

lemma elements_as_ok: "elements_as v = Some xs \<Longrightarrow> list_ok v \<Longrightarrow> list_all utf8 xs"
  by (cases v) (auto simp: elements_as_def list_ok_def intro: known_elements_all)

lemma map_elements_as_ok:
  assumes "map_elements_as v = Some ms" "map_ok v"
  shows "list_all (\<lambda>m. utf8 (fst m) \<and> utf8 (snd m)) ms \<and> distinct (map fst ms)"
proof (cases v)
  case (Known kvs)
  with assms(1) obtain xs where xs: "known_elements (map snd kvs) = Some xs" "ms = zip (map fst kvs) xs"
    by (auto simp: map_elements_as_def)
  have ok: "list_all (\<lambda>m. utf8 (fst m) \<and> text_ok (snd m)) kvs" "distinct (map fst kvs)"
    using assms(2) Known by (auto simp: map_ok_def)
  have "list_all utf8 xs" by (rule known_elements_all [OF xs(1)]) (use ok(1) in \<open>simp add: list_all_iff\<close>)
  moreover have "length xs = length kvs" using known_elements_length [OF xs(1)] by simp
  moreover have "utf8 k" if "k \<in> set (map fst kvs)" for k using ok(1) that by (auto simp: list_all_iff)
  ultimately show ?thesis
    using ok(2) by (auto simp: xs(2) list_all_iff dest: set_zip_leftD set_zip_rightD)
qed (use assms in \<open>auto simp: map_elements_as_def\<close>)

lemma exec_model_encodable: "exec_of_model x = Some (Some y) \<Longrightarrow> (\<And>m. x = Some m \<Longrightarrow> exec_model_ok m) \<Longrightarrow> exec_encodable y"
  using map_elements_as_ok elements_as_ok
  by (auto simp: exec_of_model_def exec_encodable_def exec_model_ok_def text_ok_def split: option.splits if_splits)

lemma small_port: "1 \<le> p \<Longrightarrow> p \<le> 65535 \<Longrightarrow> in_int64 p"
  by (simp add: in_int64_def int64_min_def int64_max_def)

lemma kubernetes_config_encodable:
  assumes "kubernetesConfig free d = (d', Some cfg, diags)" "kubernetes_model_ok d" "port_ok free"
  shows "kube_encodable cfg"
proof -
  define d1 where "d1 p = d\<lparr>km_local_port := Known p\<rparr>" for p
  define d2 where "d2 p = (if unset (km_local_host d) then (d1 p)\<lparr>km_local_host := Known ''localhost''\<rparr> else d1 p)" for p
  from assms(1) obtain p where p: "choose_port free (km_local_port d) = Inr p" "1 \<le> value_int (km_target_port d)"
      "value_int (km_target_port d) \<le> 65535" "0 \<le> value_int (km_local_port d)" "value_int (km_local_port d) \<le> 65535"
    and cfg: "(km_kubernetes d = None \<and> cfg = base_kube_config (d2 p) p) \<or>
      (\<exists>k paths x. km_kubernetes d = Some k \<and> elements_as (km_config_paths k) = Some paths \<and> exec_of_model (km_exec k) = Some x \<and>
         cfg = (with_kube_model k (base_kube_config (d2 p) p))\<lparr>ConfigPaths := paths, Exec := x\<rparr>)"
    by (auto simp: kubernetesConfig_def Let_def d1_def d2_def split: if_splits sum.splits option.splits)
  have "in_int64 (value_int (km_target_port d))" using p(2,3) by (rule small_port)
  moreover have "number_ok (km_local_port d)"
    using p(4,5) by (simp add: number_ok_def in_int64_def int64_min_def int64_max_def)
  then have "in_int64 p" using choose_port_ok [OF p(1) _ assms(3)] by simp
  moreover have "utf8 (value_string (km_local_host (d2 p)))"
    using assms(2) by (simp add: d2_def d1_def kubernetes_model_ok_def text_ok_def)
  moreover have "km_namespace (d2 p) = km_namespace d" "km_service_name (d2 p) = km_service_name d"
      "km_target_port (d2 p) = km_target_port d" by (simp_all add: d2_def d1_def)
  ultimately have base: "kube_encodable (base_kube_config (d2 p) p)"
    using assms(2) by (simp add: kube_encodable_def base_kube_config_def kubernetes_model_ok_def text_ok_def)
  from cfg show ?thesis
  proof (elim disjE exE conjE)
    assume "cfg = base_kube_config (d2 p) p"
    then show ?thesis using base by simp
  next
    fix k paths x
    assume k: "km_kubernetes d = Some k" "elements_as (km_config_paths k) = Some paths" "exec_of_model (km_exec k) = Some x"
      "cfg = (with_kube_model k (base_kube_config (d2 p) p))\<lparr>ConfigPaths := paths, Exec := x\<rparr>"
    have ok: "kubernetes_config_model_ok k" using assms(2) k(1) by (simp add: kubernetes_model_ok_def)
    have "list_all utf8 paths" by (rule elements_as_ok [OF k(2)]) (use ok in \<open>simp add: kubernetes_config_model_ok_def\<close>)
    moreover have "exec_encodable y" if "x = Some y" for y
      by (rule exec_model_encodable [of "km_exec k"]) (use k(3) that ok in \<open>auto simp: kubernetes_config_model_ok_def\<close>)
    ultimately show ?thesis
      using base ok by (auto simp: k(4) kube_encodable_def with_kube_model_def kubernetes_config_model_ok_def text_ok_def split: option.splits)
  qed
qed

definition ssm_model_ok :: "ssm_model \<Rightarrow> bool" where
  "ssm_model_ok d \<longleftrightarrow> number_ok (sm_local_port d) \<and> text_ok (sm_instance d) \<and> text_ok (sm_document d) \<and>
     text_ok (sm_role_arn d) \<and> text_ok (sm_target_host d)"

text \<open>The AWS configuration and the session response consist of valid UTF-8, too.\<close>

definition aws_ok :: "aws_config \<Rightarrow> bool" where
  "aws_ok c \<longleftrightarrow> utf8 (Region c) \<and> utf8 (GetSDKConfigProfile c) \<and> utf8 (GetSDKConfigRole c)"

lemma utf8_ascii: "list_all (\<lambda>c. code c < 0x80) s \<Longrightarrow> utf8 s"
  by (induction s) simp_all

lemma utf8_itoa [simp]: "utf8 (itoa i)"
proof -
  have "list_all (\<lambda>c. code c < 0x80) (show_nat n)" for n
    using show_nat_digits [of n] by (auto simp: list_all_iff is_digit_def)
  then have "utf8 (show_nat n)" for n by (rule utf8_ascii)
  then show ?thesis by (simp add: itoa_def)
qed

lemma ssm_config_encodable:
  assumes "ssmConfig load free d = (d', Some (cfg, aws), diags)" "ssm_model_ok d"
    and "\<And>opts c. load opts = Inr c \<Longrightarrow> aws_ok c"
  shows "ssm_encodable cfg"
proof -
  from assms(1) obtain d1 c1 where c1: "ssmTunnelConfig free d = (d1, Some c1, [])" "GetNewSDKConfig load c1 = Inr aws"
      "cfg = snd (applySSMSDKConfig d1 c1 aws)"
    by (auto simp: ssmConfig_def ssmTunnelConfig_def Let_def split: prod.splits option.splits sum.splits if_splits)
  from c1(2) obtain c where "load (load_options c1) = Inr c"
      "aws = (if SSMRoleARN c1 \<noteq> [] then c\<lparr>AssumedRole := Some (SSMRoleARN c1)\<rparr> else c)"
    by (auto simp: GetNewSDKConfig_def bind_res_Inr)
  with assms(3) have "aws_ok aws" by (auto simp: aws_ok_def GetSDKConfigProfile_def GetSDKConfigRole_def)
  moreover obtain p where "c1 = \<lparr>ssm_config.LocalPort = itoa p, SSMInstance = value_string (sm_instance d),
      SSMDocument = value_string (sm_document d), SSMProfile = value_string (sm_profile d),
      SSMRoleARN = value_string (sm_role_arn d), SSMRegion = value_string (sm_region d),
      TargetHost = value_string (sm_target_host d), TargetPort = ssmTargetPortString (sm_target_port d), SessionParams = None\<rparr>"
    using c1(1) by (auto simp: ssmTunnelConfig_def Let_def split: if_splits sum.splits)
  ultimately show ?thesis
    using assms(2)
    by (simp add: c1(3) applySSMSDKConfig_def ssm_encodable_def aws_ok_def ssm_model_ok_def text_ok_def ssmTargetPortString_def Let_def)
qed

section \<open>The forked child\<close>

lemma child_of_iff: "child_of args env = Some call \<longleftrightarrow> main_start env args (Inr ()) = RunTunnel (Inr call)"
  by (auto simp: child_of_def split: main_run.splits sum.splits)

lemma ssh_child:
  assumes "sshConfig user free d = (d', Some cfg, diags)" "ssh_model_ok d" "port_ok free" "user_ok user" "in_int64 (fw_ppid w)"
    and "fork_ssh_tunnel w cfg = Some (evs, r)" "StartChild args env \<in> set evs"
  shows "\<exists>call. child_of args env = Some call \<and> sc_parent call = fw_ppid w \<and>
    StartRemoteTunnel cw call = SshRun (and_then (pure_res (cw_watch cw)) (\<lambda>u. run_ssh_tunnel (cw_ssh cw) cfg))"
proof -
  from ssh_codec.child_decodes [OF assms(6) [unfolded fork_ssh_tunnel_def] assms(7) ssh_config_encodable [OF assms(1-4)] assms(5)]
  show ?thesis by (auto simp: child_of_iff StartRemoteTunnel_def start_ssh_tunnel_def pure_res_def and_then_def)
qed

lemma kubernetes_child:
  assumes "kubernetesConfig free d = (d', Some cfg, diags)" "kubernetes_model_ok d" "port_ok free" "in_int64 (fw_ppid w)"
    and "fork_kube_tunnel w cfg = Some (evs, r)" "StartChild args env \<in> set evs"
  shows "\<exists>call. child_of args env = Some call \<and> sc_parent call = fw_ppid w \<and>
    StartRemoteTunnel cw call = KubeRun (and_then (pure_res (cw_watch cw)) (\<lambda>u. run_kube_tunnel (cw_kube cw) (kube_canon cfg)))"
proof -
  from kube_codec.child_decodes [OF assms(5) [unfolded fork_kube_tunnel_def] assms(6) kubernetes_config_encodable [OF assms(1-3)] assms(4)]
  show ?thesis by (auto simp: child_of_iff StartRemoteTunnel_def start_kube_tunnel_def pure_res_def and_then_def)
qed

lemma azure_child:
  assumes "azureBastionConfig parse free d = (d', Some cfg, diags)" "azure_model_ok d" "port_ok free" "in_int64 (fw_ppid w)"
    and "fork_azure_tunnel parse w cfg = Some (evs, r)" "StartChild args env \<in> set evs"
  shows "\<exists>call plan. child_of args env = Some call \<and> sc_parent call = fw_ppid w \<and> sc_kind call = AzureBastion \<and>
    unmarshal azure_fields empty_azure_config (sc_config call) = Inr cfg \<and> resolve parse cfg = Inr plan"
proof -
  obtain plan where plan: "resolve parse cfg = Inr plan"
    using assms(1) by (auto simp: azureBastionConfig_def azure_validate_def bind_res_def Let_def split: sum.splits if_splits)
  then have "ForkTunnel w (TunnelType AzureBastion) (azure_log_name plan) (Inr (print_json (azure_json cfg))) = Some (evs, r)"
    using assms(5) by (simp add: fork_azure_tunnel_def)
  from azure_codec.child_decodes [OF this assms(6) azure_config_encodable [OF assms(1-3)] assms(4)] plan
  show ?thesis by (auto simp: child_of_iff)
qed

lemma ssm_child:
  assumes "ssmConfig load free d = (d', Some (cfg, aws), diags)" "ssm_model_ok d" "\<And>opts c. load opts = Inr c \<Longrightarrow> aws_ok c"
    and "startTunnelSession reply = Inr p" "session_params_encodable p" "in_int64 (fw_ppid w)"
    and "fork_ssm_tunnel reply terminated w cfg = Some (evs, r)" "ForkEvent (StartChild args env) \<in> set evs"
  shows "\<exists>call. child_of args env = Some call \<and> sc_parent call = fw_ppid w \<and> sc_kind call = Ssm \<and>
    unmarshal ssm_fields empty_ssm_config (sc_config call) = Inr (cfg\<lparr>SessionParams := Some p\<rparr>)"
proof -
  let ?c = "cfg\<lparr>SessionParams := Some p\<rparr>"
  obtain fevs where f: "ForkTunnel w (TunnelType Ssm) (ssm_log_name ?c) (Inr (print_json (ssm_json ?c))) = Some (fevs, r)"
      "StartChild args env \<in> set fevs"
    using assms(4,7,8) by (auto simp: fork_ssm_tunnel_def terminateTunnelSession_def perform_def Let_def split: option.splits sum.splits)
  have "ssm_encodable ?c" using ssm_config_encodable [OF assms(1-3)] assms(5) by (simp add: ssm_encodable_def)
  from ssm_codec.child_decodes [OF f this assms(6)] show ?thesis by (auto simp: child_of_iff)
qed

section \<open>Properties\<close>

lemma value_string_set: "(\<not> is_null v \<and> value_string v \<noteq> []) = (value_string v \<noteq> [])"
  by (cases v) auto

lemma validateSSHTarget_ok:
  "validateSSHTarget host socket port = [] \<longleftrightarrow>
     (if is_null port then value_string socket \<noteq> [] else value_string socket = [] \<and> value_string host \<noteq> [])"
  by (auto simp: validateSSHTarget_def value_string_set unset_def Let_def) (cases host; simp)+

text \<open>C37: The validated SSH target is the one that is dialled. The configuration step accepts a model
  exactly when one of \<open>target_port\<close> and a non-empty \<open>target_socket\<close> is set, the port with a host;
  the tunnel of an accepted model then dials host and port, or the socket.\<close>

theorem ssh_target_dialled:
  "((\<exists>d' cfg. sshConfig (Inr name) (Inr port) d = (d', Some cfg, [])) \<longleftrightarrow>
      (if is_null (hm_target_port d) then value_string (hm_target_socket d) \<noteq> []
       else value_string (hm_target_socket d) = [] \<and> value_string (hm_target_host d) \<noteq> [])) \<and>
   (case sshConfig user free d of
      (d', None, diags) \<Rightarrow> diags \<noteq> []
    | (d', Some cfg, diags) \<Rightarrow> diags = [] \<and> targetEndpoint cfg =
        (if is_null (hm_target_port d) then (''unix'', value_string (hm_target_socket d))
         else (''tcp'', join_host_port (value_string (hm_target_host d)) (itoa (value_int (hm_target_port d))))))"
proof -
  let ?ok = "validateSSHTarget (hm_target_host d) (hm_target_socket d) (hm_target_port d) = []"
  have keep: "hm_target_host (ssh_remote (ssh_local d p) u) = hm_target_host d" "hm_target_port (ssh_remote (ssh_local d p) u) = hm_target_port d"
      "hm_target_socket (ssh_remote (ssh_local d p) u) = hm_target_socket d" for p u
    by (simp_all add: ssh_remote_def ssh_local_def Let_def)
  have "(\<exists>d' cfg. sshConfig (Inr name) (Inr port) d = (d', Some cfg, [])) \<longleftrightarrow> ?ok"
    by (auto simp: sshConfig_def choose_port_def ssh_user_or_def Let_def)
  moreover have "case sshConfig user free d of
      (d', None, diags) \<Rightarrow> diags \<noteq> []
    | (d', Some cfg, diags) \<Rightarrow> diags = [] \<and> targetEndpoint cfg =
        (if is_null (hm_target_port d) then (''unix'', value_string (hm_target_socket d))
         else (''tcp'', join_host_port (value_string (hm_target_host d)) (itoa (value_int (hm_target_port d)))))"
  proof (cases ?ok)
    case False
    then show ?thesis by (simp add: sshConfig_def Let_def)
  next
    case True
    then show ?thesis
      using True [unfolded validateSSHTarget_ok]
      by (cases "is_null (hm_target_port d)")
         (auto simp: sshConfig_def Let_def targetEndpoint_def ssh_config_of_def keep split: sum.splits)
  qed
  ultimately show ?thesis by (simp only: validateSSHTarget_ok)
qed

text \<open>C2: The tunnel that runs is the tunnel Terraform validated. Whenever the provider's configuration step
  accepted a model and the fork started a process, that process, from nothing but its arguments
  and environment, runs the tunnel of the right kind on exactly the accepted configuration: SSH
  and Kubernetes start with it, Azure Bastion decodes it and its validation succeeds again, and SSM
  decodes it together with the session the parent opened. The only assumptions are on texts
  (Terraform's strings are valid UTF-8) and on the size of numbers.\<close>

theorem forked_child_configuration:
  assumes "in_int64 (fw_ppid w)" and "port_ok free"
  shows "(\<forall>user d d' cfg diags evs r args env. sshConfig user free d = (d', Some cfg, diags) \<longrightarrow> ssh_model_ok d \<longrightarrow> user_ok user \<longrightarrow>
      fork_ssh_tunnel w cfg = Some (evs, r) \<longrightarrow> StartChild args env \<in> set evs \<longrightarrow>
      (\<exists>call. child_of args env = Some call \<and> sc_parent call = fw_ppid w \<and>
         StartRemoteTunnel cw call = SshRun (and_then (pure_res (cw_watch cw)) (\<lambda>u. run_ssh_tunnel (cw_ssh cw) cfg)))) \<and>
    (\<forall>d d' cfg diags evs r args env. kubernetesConfig free d = (d', Some cfg, diags) \<longrightarrow> kubernetes_model_ok d \<longrightarrow>
      fork_kube_tunnel w cfg = Some (evs, r) \<longrightarrow> StartChild args env \<in> set evs \<longrightarrow>
      (\<exists>call. child_of args env = Some call \<and> sc_parent call = fw_ppid w \<and>
         StartRemoteTunnel cw call = KubeRun (and_then (pure_res (cw_watch cw)) (\<lambda>u. run_kube_tunnel (cw_kube cw) (kube_canon cfg))))) \<and>
    (\<forall>parse d d' cfg diags evs r args env. azureBastionConfig parse free d = (d', Some cfg, diags) \<longrightarrow> azure_model_ok d \<longrightarrow>
      fork_azure_tunnel parse w cfg = Some (evs, r) \<longrightarrow> StartChild args env \<in> set evs \<longrightarrow>
      (\<exists>call plan. child_of args env = Some call \<and> sc_parent call = fw_ppid w \<and> sc_kind call = AzureBastion \<and>
         unmarshal azure_fields empty_azure_config (sc_config call) = Inr cfg \<and> resolve parse cfg = Inr plan)) \<and>
    (\<forall>load reply terminated d d' cfg aws diags p evs r args env. ssmConfig load free d = (d', Some (cfg, aws), diags) \<longrightarrow>
      ssm_model_ok d \<longrightarrow> (\<forall>opts c. load opts = Inr c \<longrightarrow> aws_ok c) \<longrightarrow>
      startTunnelSession reply = Inr p \<longrightarrow> session_params_encodable p \<longrightarrow>
      fork_ssm_tunnel reply terminated w cfg = Some (evs, r) \<longrightarrow> ForkEvent (StartChild args env) \<in> set evs \<longrightarrow>
      (\<exists>call. child_of args env = Some call \<and> sc_parent call = fw_ppid w \<and> sc_kind call = Ssm \<and>
         unmarshal ssm_fields empty_ssm_config (sc_config call) = Inr (cfg\<lparr>SessionParams := Some p\<rparr>)))"
proof (intro conjI allI impI, goal_cases)
  case 1
  show ?case by (rule ssh_child [OF 1(1,2) assms(2) 1(3) assms(1) 1(4,5)])
next
  case 2
  show ?case by (rule kubernetes_child [OF 2(1,2) assms(2,1) 2(3,4)])
next
  case 3
  show ?case by (rule azure_child [OF 3(1,2) assms(2,1) 3(3,4)])
next
  case 4
  show ?case by (rule ssm_child [OF 4(1,2) _ 4(4,5) assms(1) 4(6,7)]) (use 4(3) in blast)
qed

lemma sample_ssh_ok: "ssh_model_ok sample_ssh_model" "user_ok (Inr ''me'')" "port_ok (Inr 40000)"
  by (simp_all add: ssh_model_ok_def sample_ssh_model_def text_ok_def number_ok_def user_ok_def port_ok_def
      in_int64_def int64_min_def int64_max_def)

lemma sample_child_starts:
  "\<exists>evs r env. ForkTunnel sample_world typ name (Inr conf) = Some (evs, r) \<and> StartChild (child_args sample_world) env \<in> set evs"
proof -
  have wait: "WaitForReadyFile (fw_zombie sample_world) (fw_obs sample_world) =
      Some (Inl (wrap_err ''process exited unexpectedly'' died))"
    unfolding WaitForReadyFile_def
    by (subst wait_for_ready.simps) (simp add: sample_world_def CheckProcessExists_def)
  have "fw_open sample_world = Inr ()" "fw_start sample_world = Inr 901" "fw_ctx sample_world = None"
      "fw_mkdir sample_world = Inr ''/tmp/ready-1''" by (simp_all add: sample_world_def)
  with wait show ?thesis by (simp add: fork_defs)
qed

theorem forked_child_configuration_witness:
  "\<exists>cfg evs r env call. sshConfig (Inr ''me'') (Inr 40000) sample_ssh_model = (fst (sshConfig (Inr ''me'') (Inr 40000) sample_ssh_model), Some cfg, []) \<and>
     fork_ssh_tunnel sample_world cfg = Some (evs, r) \<and> StartChild (child_args sample_world) env \<in> set evs \<and>
     child_of (child_args sample_world) env = Some call \<and> sc_parent call = 77 \<and> sc_kind call = Ssh"
proof -
  have world: "in_int64 (fw_ppid sample_world)" "port_ok (Inr 40000)" "fw_ppid sample_world = 77"
    by (simp_all add: sample_world_def port_ok_def in_int64_def int64_min_def int64_max_def)
  note model = sample_ssh_ok(1,2)
  obtain cfg diags where cfg: "sshConfig (Inr ''me'') (Inr 40000) sample_ssh_model =
      (fst (sshConfig (Inr ''me'') (Inr 40000) sample_ssh_model), Some cfg, diags)"
    using samples_configure(2) [THEN configuresD] by blast
  have "diags = []" using cfg by (auto simp: sshConfig_def Let_def split: if_splits sum.splits)
  obtain evs r env where f: "fork_ssh_tunnel sample_world cfg = Some (evs, r)" "StartChild (child_args sample_world) env \<in> set evs"
    unfolding fork_ssh_tunnel_def using sample_child_starts by metis
  define cw :: "(string, string) child_world" where "cw = undefined"
  obtain call where call: "child_of (child_args sample_world) env = Some call" "sc_parent call = 77"
      "StartRemoteTunnel cw call = SshRun (and_then (pure_res (cw_watch cw)) (\<lambda>u. run_ssh_tunnel (cw_ssh cw) cfg))"
    using forked_child_configuration [OF world(1,2), of cw, THEN conjunct1, rule_format, OF cfg model f] world(3) by metis
  then have "sc_kind call = Ssh" by (auto simp: StartRemoteTunnel_def split: tunnel_kind.splits)
  with call cfg f \<open>diags = []\<close> show ?thesis by blast
qed

end
