(* ===== verification/OpenReady.thy ===== *)
theory OpenReady
  imports EndToEnd
begin

text \<open>
  What an opened tunnel means: when \<open>Open\<close> of the provider returns a process, the tunnel that process
  runs has passed everything its \<open>StartRemoteTunnel\<close> checks before it writes the readiness marker.
\<close>

section \<open>The marker\<close>

text \<open>
  What the runs below leave open: the probes of the local port by the goroutine of the SSM child
  (\<open>SignalReadyWhenServing\<close>), and the session of the Kubernetes child.
\<close>

record marker_view =
  mv_probes :: "nat \<Rightarrow> bool \<times> wake"
  mv_session :: session

text \<open>The child has come to the write of the marker.\<close>

definition writes_marker :: "marker_view \<Rightarrow> child_run \<Rightarrow> bool" where
  "writes_marker v c =
     (case c of
        SshRun m \<Rightarrow> SignalReadiness \<in> set (fst m)
      | AzureRun m \<Rightarrow> ReportReady \<in> set (fst m)
      | SsmRun m \<Rightarrow> \<exists>host port. SignalWhenServing host port \<in> set (fst m) \<and>
          waitForLocalPort (mv_probes v) port = Some (Inr ())
      | KubeRun m \<Rightarrow> \<exists>host epnt. KForward host epnt \<in> set (fst m) \<and>
          reach session_init (session_step epnt) (mv_session v) \<and> run_signals (mv_session v) > 0)"

text \<open>
  The marker directory is fresh and its name is given to the child only, so a marker that is found was
  written by the child that was started.
\<close>

definition marker_from_child :: "('s, 'r) child_world \<Rightarrow> marker_view \<Rightarrow> 'st fork_world \<Rightarrow> fork_event set \<Rightarrow> bool" where
  "marker_from_child cw v w evs \<longleftrightarrow>
     (\<forall>n args env. rv_stat (fw_obs w n) = Inr () \<longrightarrow> StartChild args env \<in> evs \<longrightarrow>
        (\<exists>call. child_of args env = Some call \<and> writes_marker v (StartRemoteTunnel cw call)))"

lemma wait_ready_result: "wait_for_ready zombie obs n = Some r \<Longrightarrow> r = Inr () \<longrightarrow> (\<exists>m. rv_stat (obs m) = Inr ())"
  by (erule wait_for_ready.raw_induct [rotated]) (force split: sum.splits if_splits wake.splits option.splits)

lemma fork_marker:
  assumes "ForkTunnel w typ name conf = Some (evs, Inr pid)"
  obtains n env where "rv_stat (fw_obs w n) = Inr ()" and "StartChild (child_args w) env \<in> set evs"
proof -
  from assms have "wait_for_ready (fw_zombie w) (fw_obs w) 0 = Some (Inr ())"
      "\<exists>env. StartChild (child_args w) env \<in> set evs"
    by (auto simp: fork_defs WaitForReadyFile_def split: option.splits sum.splits)
  with wait_ready_result [of "fw_zombie w" "fw_obs w" 0 "Inr ()"] that show ?thesis by auto
qed

lemma opened_configured:
  assumes "Open k decoded configure fork stored d = Some r" and "rp_pid r = Some s"
  obtains d' cfg diags pid where "configure d = (d', Some cfg, diags)" "fork cfg = Some (Inr pid)" "s = itoa pid"
  using assms that
  by (auto simp: Open_def start_tunnel_def Let_def split: option.splits sum.splits if_splits prod.splits)

lemma wait_port_result: "wait_for_local_port obs port n = Some r \<Longrightarrow> r = Inr () \<longrightarrow> (\<exists>m. fst (obs m))"
  by (erule wait_for_local_port.raw_induct [rotated])
    (auto split: prod.splits if_splits wake.splits option.splits; metis fst_conv)

section \<open>What a child has passed when it writes the marker\<close>

lemma in_and_then:
  "x \<in> set (fst (and_then m f)) \<longleftrightarrow> x \<in> set (fst m) \<or> (\<exists>y. snd m = Inr y \<and> x \<in> set (fst (f y)))"
  by (auto simp: and_then_def split: sum.splits)

lemmas in_trace = in_and_then perform_def pure_res_def

lemma is_ok_iff: "is_ok r \<longleftrightarrow> (\<exists>x. r = Inr x)"
  by (cases r) auto

lemma wrapping_Inr: "wrapping pre r = Inr x \<longleftrightarrow> r = Inr x"
  by (cases r) auto

definition ssh_usable :: "'s ssh_world \<Rightarrow> ssh_config \<Rightarrow> bool" where
  "ssh_usable w cfg \<longleftrightarrow> is_ok (clientConfig (sw_keys w) cfg) \<and> is_ok (sw_connect w) \<and> is_ok (sw_listen w) \<and>
     is_ok (sw_probe w)"

lemma ssh_ready_usable:
  "SignalReadiness \<in> set (fst (and_then (pure_res watched) (\<lambda>u. run_ssh_tunnel w cfg))) \<Longrightarrow> is_ok watched \<and> ssh_usable w cfg"
  by (auto simp: in_trace run_ssh_tunnel_def ssh_usable_def is_ok_iff wrapping_Inr Let_def split: prod.splits)

definition azure_usable :: "azure_world \<Rightarrow> azure_config \<Rightarrow> bool" where
  "azure_usable w cfg \<longleftrightarrow> is_ok (aw_credential w) \<and> is_ok (aw_listen w) \<and>
     (\<exists>plan info. resolve (aw_parse_id w) cfg = Inr plan \<and> discoverBastion (aw_get w) (tp_bastion plan) = Inr info \<and>
        is_ok (validateBastion info (tp_hostname plan \<noteq> [])) \<and>
        is_ok (newSessionClient (aw_parse_url w) (DNSName info) (tp_target plan) (tp_target_port plan)
          (tp_hostname plan) (aw_never w)))"

lemma azure_ready_usable:
  "ReportReady \<in> set (fst (start_azure_tunnel w json)) \<Longrightarrow> unmarshal azure_fields empty_azure_config json = Inr cfg \<Longrightarrow>
    is_ok (aw_watch w) \<and> azure_usable w cfg"
  by (auto simp: in_trace start_azure_tunnel_def azure_usable_def is_ok_iff wrapping_Inr)

definition kube_usable :: "'r kube_world \<Rightarrow> session \<Rightarrow> kube_config \<Rightarrow> bool" where
  "kube_usable w s cfg \<longleftrightarrow> run_ready s \<and>
     (\<exists>epnt. resolveEndpoint (kd_service w) (kd_pods w) cfg = Inr epnt \<and>
        is_ok (newPortForward (kd_round_tripper w) (kd_forwarder w) cfg epnt))"

lemma kube_ready_usable:
  assumes "KForward host epnt \<in> set (fst (and_then (pure_res watched) (\<lambda>u. run_kube_tunnel w cfg)))"
    and "reach session_init (session_step epnt) s" and "run_signals s > 0"
  shows "is_ok watched \<and> kube_usable w s cfg"
proof -
  have "run_ready s" using sessions.reach_inv [OF assms(2)] assms(3) by (auto simp: session_inv_def)
  with assms(1) show ?thesis
    by (auto simp: in_trace run_kube_tunnel_def kube_usable_def is_ok_iff wrapping_Inr)
qed

definition ssm_usable :: "(session_input \<Rightarrow> string) \<Rightarrow> (string \<Rightarrow> string result) \<Rightarrow> (nat \<Rightarrow> bool \<times> wake) \<Rightarrow>
    ssm_config \<Rightarrow> session_params \<Rightarrow> (ssm_child_event, unit) eff \<Rightarrow> bool" where
  "ssm_usable input_json endpoint probes cfg p m \<longleftrightarrow> (\<exists>n. fst (probes n)) \<and>
     (\<exists>url. GetEndpoint endpoint (SSMRegion cfg) = Inr url \<and> StartPlugin (plugin_args input_json cfg p url) \<in> set (fst m))"

lemma ssm_ready_usable:
  assumes "SignalWhenServing host port \<in> set (fst (start_ssm_tunnel input_json endpoint json watched))"
    and "waitForLocalPort probes port = Some (Inr ())"
    and "unmarshal ssm_fields empty_ssm_config json = Inr (cfg\<lparr>SessionParams := Some p\<rparr>)"
  shows "is_ok watched \<and> ssm_usable input_json endpoint probes (cfg\<lparr>SessionParams := Some p\<rparr>) p
    (start_ssm_tunnel input_json endpoint json watched)"
proof -
  have "\<exists>n. fst (probes n)"
    using assms(2) wait_port_result [of probes port 0 "Inr ()"] by (simp add: waitForLocalPort_def)
  with assms(1,3) show ?thesis
    by (auto simp: in_trace start_ssm_tunnel_def ssm_usable_def is_ok_iff)
qed

section \<open>Open\<close>

text \<open>\<open>Open\<close> gave a process to a model; and the marker is the child's, in the fork of its configuration.\<close>

definition opens :: "tunnel_kind \<Rightarrow> ('m \<Rightarrow> ('m, 'c) configured) \<Rightarrow> ('c \<Rightarrow> ('e list \<times> int result) option) \<Rightarrow> 'm \<Rightarrow> bool" where
  "opens k configure fork d \<longleftrightarrow>
     (\<exists>decoded stored r p. Open k decoded configure (\<lambda>c. map_option snd (fork c)) stored d = Some r \<and> rp_pid r = Some p)"

definition marker_honest :: "('s, 'r) child_world \<Rightarrow> marker_view \<Rightarrow> 'st fork_world \<Rightarrow> ('e list \<Rightarrow> fork_event set) \<Rightarrow>
    ('m \<Rightarrow> ('m, 'c) configured) \<Rightarrow> ('c \<Rightarrow> ('e list \<times> int result) option) \<Rightarrow> 'm \<Rightarrow> bool" where
  "marker_honest cw v w fork_events configure fork d \<longleftrightarrow>
     (\<forall>d' cfg diags evs r. configure d = (d', Some cfg, diags) \<longrightarrow> fork cfg = Some (evs, r) \<longrightarrow>
        marker_from_child cw v w (fork_events evs))"

lemma opens_forked:
  assumes "opens k configure fork d" and "marker_honest cw v w fork_events configure fork d"
  obtains d' cfg diags evs pid where "configure d = (d', Some cfg, diags)" "fork cfg = Some (evs, Inr pid)"
    "marker_from_child cw v w (fork_events evs)"
proof -
  from assms(1) obtain d' cfg diags pid where
    c: "configure d = (d', Some cfg, diags)" "map_option snd (fork cfg) = Some (Inr pid)"
    unfolding opens_def by (blast elim: opened_configured)
  then obtain evs where "fork cfg = Some (evs, Inr pid)" by auto
  with c(1) assms(2) that show ?thesis by (auto simp: marker_honest_def)
qed

lemma marker_child:
  assumes "ForkTunnel w typ name conf = Some (evs, Inr pid)" and "marker_from_child cw v w (set evs)"
  obtains env call where "StartChild (child_args w) env \<in> set evs" "child_of (child_args w) env = Some call"
    "writes_marker v (StartRemoteTunnel cw call)"
  using fork_marker [OF assms(1)] assms(2) unfolding marker_from_child_def by metis

lemma opened_ssh:
  assumes "in_int64 (fw_ppid w)" "port_ok free" "ssh_model_ok d" "user_ok user"
    and "opens Ssh (sshConfig user free) (fork_ssh_tunnel w) d"
    and "marker_honest cw v w set (sshConfig user free) (fork_ssh_tunnel w) d"
  shows "\<exists>d' cfg diags. sshConfig user free d = (d', Some cfg, diags) \<and> is_ok (cw_watch cw) \<and> ssh_usable (cw_ssh cw) cfg"
proof -
  obtain d' cfg diags evs pid where o: "sshConfig user free d = (d', Some cfg, diags)"
      "fork_ssh_tunnel w cfg = Some (evs, Inr pid)" "marker_from_child cw v w (set evs)"
    by (rule opens_forked [OF assms(5,6)])
  obtain env call where c: "StartChild (child_args w) env \<in> set evs" "child_of (child_args w) env = Some call"
      "writes_marker v (StartRemoteTunnel cw call)"
    by (rule marker_child [OF o(2) [unfolded fork_ssh_tunnel_def] o(3)])
  obtain call' where "child_of (child_args w) env = Some call'"
      "StartRemoteTunnel cw call' = SshRun (and_then (pure_res (cw_watch cw)) (\<lambda>u. run_ssh_tunnel (cw_ssh cw) cfg))"
    using ssh_child [OF o(1) assms(3,2,4,1) o(2) c(1)] by blast
  with c(2,3) have "SignalReadiness \<in> set (fst (and_then (pure_res (cw_watch cw)) (\<lambda>u. run_ssh_tunnel (cw_ssh cw) cfg)))"
    by (simp add: writes_marker_def)
  from ssh_ready_usable [OF this] o(1) show ?thesis by blast
qed

lemma opened_azure:
  assumes "in_int64 (fw_ppid w)" "port_ok free" "azure_model_ok d"
    and "opens AzureBastion (azureBastionConfig (aw_parse_id (cw_azure cw)) free) (fork_azure_tunnel (aw_parse_id (cw_azure cw)) w) d"
    and "marker_honest cw v w set (azureBastionConfig (aw_parse_id (cw_azure cw)) free)
      (fork_azure_tunnel (aw_parse_id (cw_azure cw)) w) d"
  shows "\<exists>d' cfg diags. azureBastionConfig (aw_parse_id (cw_azure cw)) free d = (d', Some cfg, diags) \<and>
    is_ok (cw_watch cw) \<and> azure_usable (cw_azure cw) cfg"
proof -
  let ?parse = "aw_parse_id (cw_azure cw)" and ?aw = "(cw_azure cw)\<lparr>aw_watch := cw_watch cw\<rparr>"
  obtain d' cfg diags evs pid where o: "azureBastionConfig ?parse free d = (d', Some cfg, diags)"
      "fork_azure_tunnel ?parse w cfg = Some (evs, Inr pid)" "marker_from_child cw v w (set evs)"
    by (rule opens_forked [OF assms(4,5)])
  then obtain ty name conf where f: "ForkTunnel w ty name conf = Some (evs, Inr pid)"
    by (auto simp: fork_azure_tunnel_def split: sum.splits)
  obtain env call where c: "StartChild (child_args w) env \<in> set evs" "child_of (child_args w) env = Some call"
      "writes_marker v (StartRemoteTunnel cw call)"
    by (rule marker_child [OF f o(3)])
  have "sc_kind call = AzureBastion" "unmarshal azure_fields empty_azure_config (sc_config call) = Inr cfg"
    using azure_child [OF o(1) assms(3,2,1) o(2) c(1)] c(2) by auto
  with c(3) have "is_ok (aw_watch ?aw) \<and> azure_usable ?aw cfg"
    by (intro azure_ready_usable [of _ "sc_config call"]) (simp_all add: writes_marker_def StartRemoteTunnel_def)
  then show ?thesis using o(1) by (auto simp: azure_usable_def)
qed

lemma opened_kubernetes:
  assumes "in_int64 (fw_ppid w)" "port_ok free" "kubernetes_model_ok d"
    and "opens Kubernetes (kubernetesConfig free) (fork_kube_tunnel w) d"
    and "marker_honest cw v w set (kubernetesConfig free) (fork_kube_tunnel w) d"
  shows "\<exists>d' cfg diags. kubernetesConfig free d = (d', Some cfg, diags) \<and> is_ok (cw_watch cw) \<and>
    kube_usable (cw_kube cw) (mv_session v) (kube_canon cfg)"
proof -
  obtain d' cfg diags evs pid where o: "kubernetesConfig free d = (d', Some cfg, diags)"
      "fork_kube_tunnel w cfg = Some (evs, Inr pid)" "marker_from_child cw v w (set evs)"
    by (rule opens_forked [OF assms(4,5)])
  obtain env call where c: "StartChild (child_args w) env \<in> set evs" "child_of (child_args w) env = Some call"
      "writes_marker v (StartRemoteTunnel cw call)"
    by (rule marker_child [OF o(2) [unfolded fork_kube_tunnel_def] o(3)])
  obtain call' where "child_of (child_args w) env = Some call'" "StartRemoteTunnel cw call' =
      KubeRun (and_then (pure_res (cw_watch cw)) (\<lambda>u. run_kube_tunnel (cw_kube cw) (kube_canon cfg)))"
    using kubernetes_child [OF o(1) assms(3,2,1) o(2) c(1)] by blast
  with c(2,3) have "is_ok (cw_watch cw) \<and> kube_usable (cw_kube cw) (mv_session v) (kube_canon cfg)"
    by (auto simp: writes_marker_def dest: kube_ready_usable)
  with o(1) show ?thesis by blast
qed

definition ssm_fork_events :: "ssm_event list \<Rightarrow> fork_event set" where
  "ssm_fork_events evs = {ev. ForkEvent ev \<in> set evs}"

lemma opened_ssm:
  assumes "in_int64 (fw_ppid w)" "ssm_model_ok d" "\<And>opts c. load opts = Inr c \<Longrightarrow> aws_ok c"
    and "\<And>p. startTunnelSession reply = Inr p \<Longrightarrow> session_params_encodable p"
    and "opens Ssm (ssmConfig load free) (\<lambda>(cfg, aws). fork_ssm_tunnel reply terminated w cfg) d"
    and "marker_honest cw v w ssm_fork_events (ssmConfig load free) (\<lambda>(cfg, aws). fork_ssm_tunnel reply terminated w cfg) d"
  shows "\<exists>d' cfg aws diags p json. ssmConfig load free d = (d', Some (cfg, aws), diags) \<and> startTunnelSession reply = Inr p \<and>
    is_ok (cw_watch cw) \<and> ssm_usable (cw_input_json cw) (cw_endpoint cw) (mv_probes v) (cfg\<lparr>SessionParams := Some p\<rparr>) p
      (start_ssm_tunnel (cw_input_json cw) (cw_endpoint cw) json (cw_watch cw))"
proof -
  obtain d' ca diags evs pid where o: "ssmConfig load free d = (d', Some ca, diags)"
      "(\<lambda>(cfg, aws). fork_ssm_tunnel reply terminated w cfg) ca = Some (evs, Inr pid)"
      "marker_from_child cw v w (ssm_fork_events evs)"
    by (rule opens_forked [OF assms(5,6)])
  obtain cfg aws where ca: "ca = (cfg, aws)" by (cases ca)
  with o(2) have f: "fork_ssm_tunnel reply terminated w cfg = Some (evs, Inr pid)" by simp
  have forked: "{ev. ForkEvent ev \<in> ForkEvent ` X} = X" for X by auto
  from f obtain p ty name conf fevs where p: "startTunnelSession reply = Inr p"
      "ForkTunnel w ty name conf = Some (fevs, Inr pid)" "ssm_fork_events evs = set fevs"
    by (auto simp: fork_ssm_tunnel_def ssm_fork_events_def forked Let_def split: option.splits sum.splits)
  obtain env call where c: "StartChild (child_args w) env \<in> set fevs" "child_of (child_args w) env = Some call"
      "writes_marker v (StartRemoteTunnel cw call)"
    by (rule marker_child [OF p(2) o(3) [unfolded p(3)]])
  have sc: "ForkEvent (StartChild (child_args w) env) \<in> set evs" using c(1) p(3) by (auto simp: ssm_fork_events_def)
  have d: "sc_kind call = Ssm" "unmarshal ssm_fields empty_ssm_config (sc_config call) = Inr (cfg\<lparr>SessionParams := Some p\<rparr>)"
    using ssm_child [OF o(1) [unfolded ca] assms(2) _ p(1) assms(4) [OF p(1)] assms(1) f sc]
      assms(3) c(2) by auto
  from c(3) d(1) obtain host port where
    "SignalWhenServing host port \<in> set (fst (start_ssm_tunnel (cw_input_json cw) (cw_endpoint cw) (sc_config call) (cw_watch cw)))"
    "waitForLocalPort (mv_probes v) port = Some (Inr ())"
    by (auto simp: writes_marker_def StartRemoteTunnel_def)
  from ssm_ready_usable [OF this d(2)] o(1) ca p(1) show ?thesis by blast
qed

section \<open>Properties\<close>

text \<open>C3: An opened tunnel is ready. When \<open>Open\<close> of the provider gives a process for a model, the
  configuration was accepted, the child watches its parent, and the tunnel has passed what it checks
  on exactly this configuration: SSH has its credentials, the bastion, the listener and an answer of
  the target; Azure Bastion the credential chain, a suitable Bastion, a session client and the
  listener; Kubernetes an endpoint and a forwarder that reported its listener; SSM the session the
  parent opened, the plugin, and a local port that accepts. The marker is assumed to be the child's.\<close>

theorem opened_tunnel_is_ready:
  fixes cw :: "('s, 'r) child_world" and w :: "'st fork_world"
  assumes "in_int64 (fw_ppid w)" and "port_ok free"
  shows "(\<forall>user d. ssh_model_ok d \<longrightarrow> user_ok user \<longrightarrow> opens Ssh (sshConfig user free) (fork_ssh_tunnel w) d \<longrightarrow>
      marker_honest cw v w set (sshConfig user free) (fork_ssh_tunnel w) d \<longrightarrow>
      (\<exists>d' cfg diags. sshConfig user free d = (d', Some cfg, diags) \<and> is_ok (cw_watch cw) \<and> ssh_usable (cw_ssh cw) cfg)) \<and>
    (\<forall>d. azure_model_ok d \<longrightarrow> opens AzureBastion (azureBastionConfig (aw_parse_id (cw_azure cw)) free)
        (fork_azure_tunnel (aw_parse_id (cw_azure cw)) w) d \<longrightarrow>
      marker_honest cw v w set (azureBastionConfig (aw_parse_id (cw_azure cw)) free)
        (fork_azure_tunnel (aw_parse_id (cw_azure cw)) w) d \<longrightarrow>
      (\<exists>d' cfg diags. azureBastionConfig (aw_parse_id (cw_azure cw)) free d = (d', Some cfg, diags) \<and> is_ok (cw_watch cw) \<and>
         azure_usable (cw_azure cw) cfg)) \<and>
    (\<forall>d. kubernetes_model_ok d \<longrightarrow> opens Kubernetes (kubernetesConfig free) (fork_kube_tunnel w) d \<longrightarrow>
      marker_honest cw v w set (kubernetesConfig free) (fork_kube_tunnel w) d \<longrightarrow>
      (\<exists>d' cfg diags. kubernetesConfig free d = (d', Some cfg, diags) \<and> is_ok (cw_watch cw) \<and>
         kube_usable (cw_kube cw) (mv_session v) (kube_canon cfg))) \<and>
    (\<forall>load reply terminated d. ssm_model_ok d \<longrightarrow> (\<forall>opts c. load opts = Inr c \<longrightarrow> aws_ok c) \<longrightarrow>
      (\<forall>p. startTunnelSession reply = Inr p \<longrightarrow> session_params_encodable p) \<longrightarrow>
      opens Ssm (ssmConfig load free) (\<lambda>(cfg, aws). fork_ssm_tunnel reply terminated w cfg) d \<longrightarrow>
      marker_honest cw v w ssm_fork_events (ssmConfig load free) (\<lambda>(cfg, aws). fork_ssm_tunnel reply terminated w cfg) d \<longrightarrow>
      (\<exists>d' cfg aws diags p json. ssmConfig load free d = (d', Some (cfg, aws), diags) \<and> startTunnelSession reply = Inr p \<and>
         is_ok (cw_watch cw) \<and> ssm_usable (cw_input_json cw) (cw_endpoint cw) (mv_probes v) (cfg\<lparr>SessionParams := Some p\<rparr>) p
           (start_ssm_tunnel (cw_input_json cw) (cw_endpoint cw) json (cw_watch cw))))"
proof (intro conjI allI impI, goal_cases)
  case 1
  show ?case by (rule opened_ssh [OF assms(1,2) 1])
next
  case 2
  show ?case by (rule opened_azure [OF assms(1,2) 2])
next
  case 3
  show ?case by (rule opened_kubernetes [OF assms(1,2) 3])
next
  case 4
  show ?case by (rule opened_ssm [OF assms(1) 4(1) _ _ 4(4,5)]) (use 4(2,3) in blast)+
qed

text \<open>A child that is ready at the first look, and everything it meets in order.\<close>

definition ready_world :: "string fork_world" where
  "ready_world = sample_world\<lparr>fw_obs := (\<lambda>n. \<lparr>rv_process = alive_view, rv_stat = Inr (), rv_wake = Tick\<rparr>)\<rparr>"

definition ready_ssh_world :: "string ssh_world" where
  "ready_ssh_world = \<lparr>sw_keys = agent_world, sw_connect = Inr (), sw_listen = Inr (), sw_probe = Inr (),
     sw_ready = Inr (), sw_serve = Inr ()\<rparr>"

lemma ready_world_fork: "\<exists>evs. ForkTunnel ready_world typ name (Inr conf) = Some (evs, Inr 901)"
proof -
  have "WaitForReadyFile (fw_zombie ready_world) (fw_obs ready_world) = Some (Inr ())"
    unfolding WaitForReadyFile_def
    by (subst wait_for_ready.simps) (simp add: ready_world_def sample_world_def alive_view_def CheckProcessExists_def)
  moreover have "fw_open ready_world = Inr ()" "fw_start ready_world = Inr 901" "fw_ctx ready_world = None"
      "fw_mkdir ready_world = Inr ''/tmp/ready-1''" by (simp_all add: ready_world_def sample_world_def)
  ultimately show ?thesis by (simp add: fork_defs)
qed

lemma sample_ssh_config:
  assumes "sshConfig (Inr ''me'') (Inr 40000) sample_ssh_model = (d', Some cfg, diags)"
  shows "diags = [] \<and> SSHKey cfg = [] \<and> SSHPassword cfg = []"
  using assms
  by (auto simp: sshConfig_def sample_ssh_model_def ssh_local_def ssh_remote_def ssh_config_of_def ssh_user_or_def
      choose_port_def Let_def unset_def split: if_splits sum.splits)

lemma agent_only_config: "SSHKey cfg = [] \<Longrightarrow> SSHPassword cfg = [] \<Longrightarrow> is_ok (clientConfig agent_world cfg)"
  by (simp add: clientConfig_def authMethods_def agentKeys_def agent_world_def option_list_def Let_def)

lemma ready_ssh_signals:
  "SSHKey cfg = [] \<Longrightarrow> SSHPassword cfg = [] \<Longrightarrow> SignalReadiness \<in> set (fst (run_ssh_tunnel ready_ssh_world cfg))"
  using agent_only_config [of cfg]
  by (auto simp: in_trace run_ssh_tunnel_def ready_ssh_world_def is_ok_iff Let_def split: prod.splits)

theorem opened_tunnel_is_ready_witness:
  "\<exists>d' cfg diags. sshConfig (Inr ''me'') (Inr 40000) sample_ssh_model = (d', Some cfg, diags) \<and>
     ssh_usable ready_ssh_world cfg"
proof -
  define cw :: "(string, string) child_world" where "cw = undefined\<lparr>cw_watch := Inr (), cw_ssh := ready_ssh_world\<rparr>"
  have cw: "cw_watch cw = Inr ()" "cw_ssh cw = ready_ssh_world" by (simp_all add: cw_def)
  let ?conf = "sshConfig (Inr ''me'') (Inr 40000)" and ?fork = "fork_ssh_tunnel ready_world"
  note model = sample_ssh_ok(1,2)
  have world: "in_int64 (fw_ppid ready_world)" "port_ok (Inr 40000)"
    using sample_ssh_ok(3) by (simp_all add: ready_world_def sample_world_def in_int64_def int64_min_def int64_max_def)
  obtain d' cfg diags where c: "?conf sample_ssh_model = (d', Some cfg, diags)"
    using samples_configure(2) [THEN configuresD] by blast
  obtain evs where "?fork cfg = Some (evs, Inr 901)" using ready_world_fork unfolding fork_ssh_tunnel_def by blast
  with c sample_ssh_config [OF c] have "opens Ssh ?conf ?fork sample_ssh_model"
    unfolding opens_def by (intro exI [of _ "[]"] exI [of _ "\<lambda>m. []"]) (simp add: Open_def start_tunnel_def)
  moreover have "marker_honest cw v ready_world set ?conf ?fork sample_ssh_model" for v
    unfolding marker_honest_def marker_from_child_def
  proof (intro allI impI)
    fix d' cfg diags evs r n args env
    assume a: "?conf sample_ssh_model = (d', Some cfg, diags)" "?fork cfg = Some (evs, r)" "StartChild args env \<in> set evs"
    from ssh_child [OF a(1) model(1) world(2) model(2) world(1) a(2,3)] obtain call where
      "child_of args env = Some call"
      "StartRemoteTunnel cw call = SshRun (and_then (pure_res (cw_watch cw)) (\<lambda>u. run_ssh_tunnel (cw_ssh cw) cfg))" by blast
    with sample_ssh_config [OF a(1)] ready_ssh_signals [of cfg]
    show "\<exists>call. child_of args env = Some call \<and> writes_marker v (StartRemoteTunnel cw call)"
      by (intro exI [of _ call]) (simp add: writes_marker_def cw in_trace)
  qed
  ultimately show ?thesis
    using opened_tunnel_is_ready [OF world, of cw, THEN conjunct1, rule_format, OF model] cw(2) by metis
qed

end
