(* ===== verification/Spec2Isabelle.thy ===== *)
theory Spec2Isabelle
  imports GoStrings SshProcess AzureStream SshTunnel KubeForward AzureProcess SsmTunnel SshTestServer OpenReady
begin

text \<open>
  A verification development for the Terraform provider \<open>tunnel\<close>.

  The program. Terraform asks the provider (\<open>internal/provider\<close>) for a data source or an
  ephemeral resource of one of four kinds. The provider turns the configuration into a
  \<open>TunnelConfig\<close>, forks a copy of itself (\<open>libs.ForkTunnel\<close>) whose environment carries the kind,
  the configuration as JSON and a readiness marker, and waits for the marker. The child
  (\<open>main\<close>, \<open>runner.StartTunnel\<close>) runs \<open>StartRemoteTunnel\<close> of \<open>internal/ssh\<close>, \<open>azurebastion\<close>, \<open>ssm\<close> or
  \<open>kubernetes\<close>, watches its parent (\<open>libs.WatchProcess\<close>) and ends on an interrupt. SSH and Azure
  Bastion serve local connections with \<open>libs.ConnServer\<close> and copy bytes with \<open>libs.Relay\<close>; SSH
  multiplexes them over one client (\<open>clientPool\<close>), Azure Bastion opens one WebSocket each
  (\<open>sessionClient\<close>, \<open>wsStream\<close>); SSM and Kubernetes hand the listener to a client library.

  Theories.
  \<^item> \<open>Prelude\<close>: errors and results of Go calls, calls with a trace of effects (\<open>eff\<close>, \<open>and_then\<close>,
    \<open>deferred\<close>), and the locales for labelled transition systems (invariants by induction over
    paths, termination by a rank). \<open>Refinement\<close>: observed runs and the locale of a forward simulation.
  \<^item> \<open>GoStrings\<close>, \<open>GoUrl\<close>, \<open>GoNet\<close>, \<open>Streams\<close>: what the source uses of the standard library
    (\<open>strconv\<close>, \<open>strings\<close>, \<open>path/filepath\<close>, \<open>net/url\<close>, \<open>net.ParseIP\<close>, \<open>io.Copy\<close>).
  \<^item> \<open>GoJson\<close>, \<open>GoJsonParse\<close>, \<open>GoJsonStruct\<close>: \<open>encoding/json\<close>: string literals over UTF-8, the scanner,
    the parser as a push-down automaton with its depth limit, structs with their field tags; the
    parser inverts the printer. \<open>Codec\<close>: the locale a configuration type implements to cross the
    process boundary, interpreted for the four configurations, the SSM session and the token reply.
  \<^item> \<open>ConnServer\<close>, \<open>ConnServerInv\<close>: \<open>libs/server.go\<close>. The actions are the critical sections and the
    blocking calls of \<open>Serve\<close>, \<open>run\<close>, \<open>forget\<close>, \<open>Close\<close> and the \<open>AfterFunc\<close> hook; any interleaving of
    any number of connections and closers is a path of the system. \<open>ConnServerSpec\<close>: the server is a
    scope of handlers (none starts after it closed, it returns after all of them).
  \<^item> \<open>Relay\<close>, \<open>RelayInv\<close>: \<open>libs/relay.go\<close>, two pumps and the goroutine that waits for them.
    \<open>Duplex\<close>: the contract of a copier between two streams, which the relay meets.
  \<^item> \<open>Watch\<close>, \<open>Fork\<close>, \<open>Runner\<close>: \<open>libs/watch.go\<close>, \<open>fork.go\<close>, \<open>log.go\<close>, \<open>port.go\<close>, \<open>const.go\<close>, the runner and
    \<open>main\<close>. A loop that polls takes its observations from a stream and is a \<open>partial_function\<close>:
    \<open>None\<close> means that it never returns.
  \<^item> \<open>SshPool\<close>, \<open>SshPoolInv\<close>, \<open>SshForward\<close>, \<open>SshTunnel\<close>: \<open>internal/ssh\<close>. \<open>SshPoolSpec\<close>: the pool refines one
    in which a dial and the answers to everybody waiting for it are a single action.
  \<^item> \<open>SshTestServer\<close>: \<open>internal/ssh/sshtest\<close>, the bastion of the tests, whose copy loop shares no code
    with the relay and meets the same contract.
  \<^item> \<open>KubeEndpoints\<close>, \<open>KubeForward\<close>: \<open>internal/kubernetes\<close>; the selects of \<open>run\<close> are a step relation.
  \<^item> \<open>AzureStream\<close>, \<open>AzureSession\<close>, \<open>AzureTunnel\<close>: \<open>internal/azurebastion\<close>.
  \<^item> \<open>SsmTunnel\<close>: \<open>internal/ssm\<close>.
  \<^item> \<open>Serving\<close>, \<open>SshProcess\<close>, \<open>AzureProcess\<close>: the two tunnels that serve connections themselves, each as
    one system composed of the connection server, a handler and a relay for every connection, the
    client pool or the session client, and the deferred calls of the tunnel function.
  \<^item> \<open>ProviderSchema\<close>, \<open>ProviderConfig\<close>, \<open>ProviderLife\<close>: \<open>internal/provider\<close>.
  \<^item> \<open>EndToEnd\<close>, \<open>OpenReady\<close>: the provider, the fork, the runner and the tunnels composed.

  Correspondence. A Go struct is a record with the fields of the struct, a function the
  definition of the same name; the error result is \<open>Inl\<close>. Strings are byte strings. An \<open>int\<close> is an
  \<open>int\<close> of HOL, with \<open>to_int32\<close> where the source narrows and \<open>in_int64\<close> where parsing bounds it;
  bytes of streams are \<open>8 word\<close>. What a function does to the outside is the list of events it
  returns, in order, so that deferred calls and early returns show. Calls to code that is not in
  the repository (the SSH, Kubernetes, Azure and AWS libraries, \<open>gopsutil\<close>, the plugin framework)
  are arguments: their answers, for all answers.

  What the lemmas show. For the concurrent components (\<open>ConnServer\<close>, \<open>Relay\<close>, \<open>SshPool\<close>,
  \<open>session_step\<close>, the copy loop of the test server) an invariant of the state, its preservation by
  every action, safety consequences, and a rank that bounds the steps to the end of a shutdown; for
  the server, the pool and the two copiers also what they refine. For the two composed tunnels what
  is released when they return; that the Azure tunnel does after an interrupt, unless \<open>Accept\<close> had failed
  before it (\<open>late_interrupt_ignored\<close>); and that the SSH tunnel may wait for the remote end
  (\<open>interrupted_ssh_waits_for_remote\<close>). For the sequential
  components the behaviour on every branch, errors included, and the order of effects. For encodings
  (decimal, URL, JSON, WebSocket frames, environment) the round trips. Across processes: a forked
  child runs the configuration that was accepted, an opened tunnel has passed its own checks, and
  closing it interrupts that process.

  Bounds. No model uses fuel. The retry loop of \<open>dialTarget\<close> has the two rounds of the source;
  \<open>io_copy\<close>, the polling loops and the parent watch are partial, and the theorems about them state
  when they return. A read on a stream that is open and idle does not return (\<open>read_fun\<close>), so a copy is
  shown to return only once its source has ended.

  Assumptions on the environment, in the theorems about termination. \<open>Serve\<close> returns if every handler
  whose connection was closed returns (\<open>shutdown_step\<close>): the server cannot enforce it, and without it
  \<open>Serve\<close> gets to a state in which everything is closed and only such handlers are waited for
  (\<open>awaits_handlers\<close>). The handlers of the Azure tunnel do return, those of the SSH tunnel need not.
  A write to an open stream completes or fails; a relay whose write blocks outlives its grace
  period (\<open>blocked_write_outlives_timer\<close>). A request with a timeout or a cancelled context is answered.

  Standard library. \<open>url.Parse\<close> is a parameter of \<open>newSessionClient\<close> (only scheme and host are used);
  a JSON array that occurs twice under the same key is decoded from an empty slice each time.

  Not modelled. Logging; the text of schema descriptions; the parsing of the flag of \<open>main\<close> and the
  plugin framework behind \<open>StartServer\<close>; the insides of library clients (\<open>http.Client\<close> and its
  timeouts, the WebSocket library, the Azure credential chain, the AWS configuration loader, the
  endpoint resolver, the SSH handshake); the package \<open>tools\<close>, which only pins build tools. Time is
  not modelled beyond the outcomes of timeouts and the expiry of the cached Azure token.
\<close>

end
